(* ===== verification/GoPrelude.thy ===== *)
theory GoPrelude
  imports Main "HOL-Library.Monad_Syntax" "HOL-Library.Signed_Division"
begin

text \<open>
  What the Go code takes from its language and standard library, as far as the
  components need it: actions on a world, 64-bit integers with wrap-around,
  durations and instants in nanoseconds, error values with \<open>errors.Is\<close> and
  \<open>Error()\<close>, contexts, the timer and clock of the runtime, and pointers to mutable
  structs. The named theorem collections at the end carry the component proofs.
\<close>

section \<open>Actions\<close>

text \<open>
  A call that may block or loop is a function from the world before the call to the
  result and the world after it; \<^const>\<open>None\<close> says that the call never returns.
  Calls of the standard library that always return are plain functions
  \<open>'w \<Rightarrow> 'a \<times> 'w\<close>. The world \<open>'w\<close> is a parameter everywhere: a call may change
  every part of it, so whatever other goroutines do while a call runs is one more
  behaviour of that call.
\<close>

type_synonym ('w, 'a) act = "'w \<Rightarrow> ('a \<times> 'w) option"
type_synonym ('w, 'a) prim = "'w \<Rightarrow> 'a \<times> 'w"

section \<open>Pointers to mutable structs\<close>

text \<open>
  A pointer field of the Go structs is a pair of functions that read and write the
  struct in the world. The locale \<open>cell\<close> states the laws of one memory location,
  \<open>apart\<close> those of two locations that do not overlap.
\<close>

record ('w, 'a) ref =
  rd :: "'w \<Rightarrow> 'a"
  wr :: "'a \<Rightarrow> 'w \<Rightarrow> 'w"

locale cell =
  fixes r :: "('w, 'a) ref"
  assumes rd_wr: "rd r (wr r a w) = a"
    and wr_rd: "wr r (rd r w) w = w"
    and wr_wr: "wr r a (wr r b w) = wr r a w"
begin

lemma wr_same: "rd r w = a \<Longrightarrow> wr r a w = w"
  using wr_rd [of w] by simp

lemma wr_inj: "wr r a w = wr r b w \<longleftrightarrow> a = b"
  by (metis rd_wr)

end

text \<open>Writing through one pointer leaves what the other one reads alone; so does a call.\<close>

definition apart :: "('w, 'a) ref \<Rightarrow> ('w, 'b) ref \<Rightarrow> bool" where
  "apart r s \<longleftrightarrow> (\<forall>a w. rd s (wr r a w) = rd s w)"

definition still :: "('w, 'a) ref \<Rightarrow> ('w, 'b) prim \<Rightarrow> bool" where
  "still r f \<longleftrightarrow> (\<forall>w. rd r (snd (f w)) = rd r w)"

lemma apartD: "apart r s \<Longrightarrow> rd s (wr r a w) = rd s w"
  by (simp add: apart_def)

lemma stillD: "still r f \<Longrightarrow> f w = (x, w') \<Longrightarrow> rd r w' = rd r w"
  unfolding still_def by (metis snd_conv)

text \<open>Two locations that do not overlap.\<close>

definition separate :: "('w, 'a) ref \<Rightarrow> ('w, 'b) ref \<Rightarrow> bool" where
  "separate r s \<longleftrightarrow> apart r s \<and> apart s r"

lemma separateD: "separate r s \<Longrightarrow> rd s (wr r a w) = rd s w" "separate r s \<Longrightarrow> rd r (wr s b w) = rd r w"
  by (simp_all add: separate_def apart_def)

section \<open>64-bit integers, durations and instants\<close>

text \<open>
  \<open>int\<close>, \<open>int64\<close> and \<open>time.Duration\<close> are 64-bit two's complement integers:
  they are kept as \<^typ>\<open>int\<close> and every arithmetic operation that can leave the range is
  wrapped explicitly. \<open>time.Time\<close> is the number of nanoseconds since the zero
  \<open>Time\<close> (1 January of year 1, UTC); \<open>Sub\<close> saturates, as its documentation says.
\<close>

definition int64_min :: int where "int64_min = - (2 ^ 63)"
definition int64_max :: int where "int64_max = 2 ^ 63 - 1"

definition wrap64 :: "int \<Rightarrow> int" where
  "wrap64 x = (x + 2 ^ 63) mod 2 ^ 64 - 2 ^ 63"

definition in64 :: "int \<Rightarrow> bool" where
  "in64 x \<longleftrightarrow> int64_min \<le> x \<and> x \<le> int64_max"

type_synonym duration = int
type_synonym instant = int

definition go_shl :: "int \<Rightarrow> int \<Rightarrow> int" where
  "go_shl x n = wrap64 (x * 2 ^ nat n)"

definition time_Sub :: "instant \<Rightarrow> instant \<Rightarrow> duration" where
  "time_Sub t u = max int64_min (min int64_max (t - u))"

lemma int64_bounds [simp]: "int64_min = - 9223372036854775808" "int64_max = 9223372036854775807"
  by (simp_all add: int64_min_def int64_max_def)

lemma wrap64_id: "in64 x \<Longrightarrow> wrap64 x = x"
  by (simp add: wrap64_def in64_def)

lemma wrap64_in64 [simp, intro]: "in64 (wrap64 x)"
proof -
  have "0 \<le> (x + 2 ^ 63) mod 2 ^ 64" "(x + 2 ^ 63) mod 2 ^ 64 < 2 ^ 64"
    by (rule pos_mod_sign, simp) (rule pos_mod_bound, simp)
  then show ?thesis by (simp add: wrap64_def in64_def)
qed

lemma wrap64_add_wrap64: "wrap64 (wrap64 x + y) = wrap64 (x + y)"
proof -
  have "wrap64 x + y + 2 ^ 63 = (x + 2 ^ 63) mod 2 ^ 64 + y"
    by (simp add: wrap64_def)
  then have "(wrap64 x + y + 2 ^ 63) mod 2 ^ 64 = (x + 2 ^ 63 + y) mod 2 ^ 64"
    by (simp only: mod_add_left_eq)
  then show ?thesis
    unfolding wrap64_def [of "wrap64 x + y"] wrap64_def [of "x + y"]
    by (simp add: algebra_simps)
qed

lemma wrap64_wrap64 [simp]: "wrap64 (wrap64 x) = wrap64 x"
  by (rule wrap64_id) simp

lemma wrap64_0 [simp]: "wrap64 0 = 0"
  by (simp add: wrap64_def)

lemma time_Sub_in64 [simp, intro]: "in64 (time_Sub t u)"
  by (simp add: time_Sub_def in64_def)

lemma time_Sub_id: "in64 (t - u) \<Longrightarrow> time_Sub t u = t - u"
  by (simp add: time_Sub_def in64_def)

lemma time_Sub_mono: "t \<le> t' \<Longrightarrow> time_Sub t u \<le> time_Sub t' u"
  by (simp add: time_Sub_def)

lemma time_Sub_le: "0 \<le> d \<Longrightarrow> d \<le> time_Sub t u \<Longrightarrow> d \<le> t - u"
  by (simp add: time_Sub_def max_def min_def split: if_splits)

lemma time_Sub_ge: "d \<le> int64_max \<Longrightarrow> d \<le> t - u \<Longrightarrow> d \<le> time_Sub t u"
  by (simp add: time_Sub_def)

lemma go_shl_in64 [simp, intro]: "in64 (go_shl x n)"
  by (simp add: go_shl_def)

text \<open>Go's integer division truncates towards zero; on non-negative operands it is \<open>div\<close>.\<close>

lemma sdiv_nonneg: "0 \<le> a \<Longrightarrow> 0 < b \<Longrightarrow> (a::int) sdiv b = a div b"
  by (cases "a = 0") (simp_all add: signed_divide_int_def)

section \<open>Errors\<close>

text \<open>
  An \<open>error\<close> is \<^const>\<open>None\<close> for nil and otherwise one of: a package-level variable made
  by \<open>errors.New\<close> (its identity is its qualified name), a fresh \<open>errors.New\<close> or
  \<open>fmt.Errorf\<close> without \<open>%w\<close>, a \<open>fmt.Errorf\<close> with one \<open>%w\<close> (text before,
  wrapped error, text after), an \<open>errors.Join\<close>, a gRPC status error (code and
  message), or an error made by code outside the repository (a code of its own and its
  text).
\<close>

datatype go_error =
    ErrVar string string
  | ErrText string
  | ErrWrap string go_error string
  | ErrJoin "go_error list"
  | ErrStatus string string
  | ErrExt string string

fun errors_Is :: "go_error \<Rightarrow> go_error \<Rightarrow> bool" where
  "errors_Is (ErrWrap p e s) t \<longleftrightarrow> ErrWrap p e s = t \<or> errors_Is e t"
| "errors_Is (ErrJoin es) t \<longleftrightarrow> ErrJoin es = t \<or> (\<exists>e \<in> set es. errors_Is e t)"
| "errors_Is e t \<longleftrightarrow> e = t"

fun join_lines :: "string list \<Rightarrow> string" where
  "join_lines [] = []"
| "join_lines [s] = s"
| "join_lines (s # ss) = s @ CHR 0x0A # join_lines ss"

fun err_Error :: "go_error \<Rightarrow> string" where
  "err_Error (ErrVar v s) = s"
| "err_Error (ErrText s) = s"
| "err_Error (ErrWrap p e s) = p @ err_Error e @ s"
| "err_Error (ErrJoin es) = join_lines (map err_Error es)"
| "err_Error (ErrStatus c s) = ''rpc error: code = '' @ c @ '' desc = '' @ s"
| "err_Error (ErrExt c s) = s"

definition errors_Join :: "go_error list \<Rightarrow> go_error option" where
  "errors_Join es = (if es = [] then None else Some (ErrJoin es))"

lemma errors_Is_refl [simp]: "errors_Is e e"
  by (cases e) simp_all

text \<open>The two errors of package \<open>context\<close>.\<close>

definition context_Canceled :: go_error where
  "context_Canceled = ErrVar ''context.Canceled'' ''context canceled''"
definition context_DeadlineExceeded :: go_error where
  "context_DeadlineExceeded =
     ErrVar ''context.DeadlineExceeded'' ''context deadline exceeded''"

section \<open>Contexts, clock, timers\<close>

text \<open>
  The code uses a context through \<open>Err()\<close> (and \<open>Done()\<close> in one \<open>select\<close>): a
  context is its \<open>Err\<close> method.
\<close>

type_synonym 'w ctx = "('w, go_error option) prim"

definition context_Background :: "'w ctx" where
  "context_Background w = (None, w)"

text \<open>
  The part of the runtime the code calls: the clock, the \<open>select\<close> between a timer of
  the given duration and the context's end (\<^const>\<open>True\<close> when the timer fires first),
  and \<open>rand.Int63n\<close>.
\<close>

record 'w runtime =
  time_Now :: "('w, instant) prim"
  select_timer :: "'w ctx \<Rightarrow> duration \<Rightarrow> ('w, bool) prim"
  rand_Int63n :: "int \<Rightarrow> ('w, int) prim"

text \<open>
  \<open>context.WithTimeout\<close>: the parent's error, or \<open>DeadlineExceeded\<close> from the deadline on. Its
  cancel function only runs when the code is done with the context. What neither the clock nor
  the parent changes, the derived context does not change either.
\<close>

definition context_WithTimeout :: "'w runtime \<Rightarrow> 'w ctx \<Rightarrow> duration \<Rightarrow> ('w, 'w ctx) prim" where
  "context_WithTimeout rt parent d w =
     (let (start, w) = time_Now rt w
      in (\<lambda>w. case parent w of
            (Some err, w) \<Rightarrow> (Some err, w)
          | (None, w) \<Rightarrow>
              (let (now, w) = time_Now rt w
               in (if now \<ge> start + d then Some context_DeadlineExceeded else None, w)), w))"

lemma context_WithTimeout_keeps:
  assumes "context_WithTimeout rt parent d w = (c, w')"
    and now: "\<And>v. F (snd (time_Now rt v)) = F v" and parent: "\<And>v. F (snd (parent v)) = F v"
  shows "F w' = F w" "F (snd (c v)) = F v"
proof -
  obtain t w1 where t: "time_Now rt w = (t, w1)" by fastforce
  with assms(1) have c: "c = (\<lambda>w. case parent w of (Some err, w) \<Rightarrow> (Some err, w)
      | (None, w) \<Rightarrow> (let (now, w) = time_Now rt w
         in (if now \<ge> t + d then Some context_DeadlineExceeded else None, w)))" and "w' = w1"
    by (simp_all add: context_WithTimeout_def)
  then show "F w' = F w" using now [of w] t by simp
  obtain e x where x: "parent v = (e, x)" by fastforce
  obtain u y where y: "time_Now rt x = (u, y)" by fastforce
  show "F (snd (c v)) = F v"
    using parent [of v] now [of x] by (cases e) (simp_all add: c x y)
qed

section \<open>Shared automation\<close>

named_theorems go_defs \<open>unfolding the small constants of the Go model\<close>
named_theorems go_errs \<open>distinctness of the package-level error variables\<close>

lemma bind_Some_iff:
  "(m \<bind> f) = Some y \<longleftrightarrow> (\<exists>x. m = Some x \<and> f x = Some y)"
  by (cases m) simp_all

lemma bind_pair_Some_iff:
  "(m \<bind> (\<lambda>(a, w). f a w)) = Some y \<longleftrightarrow> (\<exists>a w. m = Some (a, w) \<and> f a w = Some y)"
  by (cases m) (auto split: prod.splits)

lemma context_errs_distinct [simp, go_errs]:
  "context_Canceled \<noteq> context_DeadlineExceeded"
  "context_DeadlineExceeded \<noteq> context_Canceled"
  by (simp_all add: context_Canceled_def context_DeadlineExceeded_def)

end
