(* ===== verification/Float64.thy ===== *)
theory Float64
  imports GoPrelude "HOL-Library.Word"
begin

text \<open>
  \<open>float64\<close> as its IEEE 754 bit pattern, with the comparisons the code uses
  (\<open>==\<close>, \<open>!=\<close>, \<open><\<close>, \<open>></\<close>) computed on the bits, NaN included. The lemmas
  show that on finite values they are the comparisons of the numbers the bits stand for.
\<close>

section \<open>Bit patterns and comparisons\<close>

type_synonym float64 = "64 word"

definition f64_neg :: "float64 \<Rightarrow> bool" where
  "f64_neg x \<longleftrightarrow> bit x 63"

definition f64_mag :: "float64 \<Rightarrow> int" where
  "f64_mag x = uint x mod 2 ^ 63"

definition f64_is_nan :: "float64 \<Rightarrow> bool" where
  "f64_is_nan x \<longleftrightarrow> f64_mag x > 0x7FF0000000000000"

definition f64_is_inf :: "float64 \<Rightarrow> bool" where
  "f64_is_inf x \<longleftrightarrow> f64_mag x = 0x7FF0000000000000"

definition f64_finite :: "float64 \<Rightarrow> bool" where
  "f64_finite x \<longleftrightarrow> f64_mag x < 0x7FF0000000000000"

text \<open>Sign and magnitude as one signed number: the order of all values but NaN.\<close>

definition f64_key :: "float64 \<Rightarrow> int" where
  "f64_key x = (if f64_neg x then - f64_mag x else f64_mag x)"

definition f64_eq :: "float64 \<Rightarrow> float64 \<Rightarrow> bool" where
  "f64_eq x y \<longleftrightarrow> \<not> f64_is_nan x \<and> \<not> f64_is_nan y \<and> f64_key x = f64_key y"

definition f64_lt :: "float64 \<Rightarrow> float64 \<Rightarrow> bool" where
  "f64_lt x y \<longleftrightarrow> \<not> f64_is_nan x \<and> \<not> f64_is_nan y \<and> f64_key x < f64_key y"

text \<open>The constants of the code, and the values the witnesses use.\<close>

definition f64_90 :: float64 where "f64_90 = 0x4056800000000000"
definition f64_m90 :: float64 where "f64_m90 = 0xC056800000000000"
definition f64_180 :: float64 where "f64_180 = 0x4066800000000000"
definition f64_m180 :: float64 where "f64_m180 = 0xC066800000000000"
definition f64_10 :: float64 where "f64_10 = 0x4024000000000000"
definition f64_nan :: float64 where "f64_nan = 0x7FF8000000000001"

lemmas f64_defs = f64_neg_def f64_mag_def f64_is_nan_def f64_is_inf_def f64_finite_def
  f64_key_def f64_eq_def f64_lt_def

lemma f64_cases: "f64_finite x \<or> f64_is_inf x \<or> f64_is_nan x"
  by (auto simp: f64_defs)

lemma f64_finite_not_nan: "f64_finite x \<Longrightarrow> \<not> f64_is_nan x"
  by (simp add: f64_finite_def f64_is_nan_def)

lemma f64_mag_nonneg [simp]: "0 \<le> f64_mag x"
  by (simp add: f64_mag_def)

lemma f64_mag_not_less_neg [simp]: "\<not> f64_mag x < - f64_mag y"
  using f64_mag_nonneg [of x] f64_mag_nonneg [of y] by linarith

lemma f64_eq_refl: "f64_eq x x \<longleftrightarrow> \<not> f64_is_nan x"
  by (simp add: f64_eq_def)

lemma f64_eq_sym: "f64_eq x y \<Longrightarrow> f64_eq y x"
  by (simp add: f64_eq_def)

lemma f64_eq_trans: "f64_eq x y \<Longrightarrow> f64_eq y z \<Longrightarrow> f64_eq x z"
  by (simp add: f64_eq_def)

lemma f64_nan_is_nan: "f64_is_nan f64_nan" "\<not> f64_is_nan f64_10"
  by (simp_all add: f64_nan_def f64_10_def f64_defs)

section \<open>The numbers behind the bits\<close>

text \<open>The value of a finite float times \<open>2^1074\<close>, an integer.\<close>

definition mag_scaled :: "nat \<Rightarrow> nat" where
  "mag_scaled m = (if m div 2 ^ 52 = 0 then m mod 2 ^ 52
     else (2 ^ 52 + m mod 2 ^ 52) * 2 ^ (m div 2 ^ 52 - 1))"

definition f64_scaled :: "float64 \<Rightarrow> int" where
  "f64_scaled x = (if f64_neg x then - int (mag_scaled (nat (f64_mag x)))
     else int (mag_scaled (nat (f64_mag x))))"

lemma mag_scaled_Suc: "mag_scaled m < mag_scaled (Suc m)"
proof -
  define e where "e = m div 2 ^ 52"
  define f where "f = m mod 2 ^ 52"
  have m: "m = e * 2 ^ 52 + f" and f: "f < 2 ^ 52" by (simp_all add: e_def f_def)
  show ?thesis
  proof (cases "Suc f < 2 ^ 52")
    case True
    with m have "Suc m = Suc f + e * 2 ^ 52" by simp
    then have "Suc m div 2 ^ 52 = e" "Suc m mod 2 ^ 52 = Suc f" using True by simp_all
    then show ?thesis
      unfolding mag_scaled_def e_def [symmetric] f_def [symmetric] by simp
  next
    case False
    with f have sf: "Suc f = 2 ^ 52" by simp
    with m have "Suc m = Suc e * 2 ^ 52" by simp
    then have q: "Suc m div 2 ^ 52 = Suc e" "Suc m mod 2 ^ 52 = 0" by simp_all
    have "(if e = 0 then f else (2 ^ 52 + f) * 2 ^ (e - 1)) < 2 ^ 52 * 2 ^ e"
    proof (cases e)
      case 0
      with f show ?thesis by simp
    next
      case (Suc e')
      have "(2 ^ 52 + f) * 2 ^ e' < (2 * 2 ^ 52) * 2 ^ e'"
        using f by (intro mult_strict_right_mono) auto
      with Suc show ?thesis by (simp add: ac_simps)
    qed
    with q show ?thesis
      unfolding mag_scaled_def e_def [symmetric] f_def [symmetric] by simp
  qed
qed

lemma mag_scaled_less_iff: "mag_scaled m < mag_scaled n \<longleftrightarrow> m < n"
  using mag_scaled_Suc lift_Suc_mono_less [of mag_scaled] strict_mono_less [of mag_scaled]
  by (metis strict_monoI)

lemma mag_scaled_eq_iff: "mag_scaled m = mag_scaled n \<longleftrightarrow> m = n"
  by (metis mag_scaled_less_iff nat_neq_iff)

lemma mag_scaled_0 [simp]: "mag_scaled 0 = 0"
  by (simp add: mag_scaled_def)

lemma mag_scaled_pos: "0 < mag_scaled m \<longleftrightarrow> 0 < m"
  using mag_scaled_less_iff [of 0 m] by simp

lemma f64_scaled_less_iff: "f64_scaled x < f64_scaled y \<longleftrightarrow> f64_key x < f64_key y"
proof -
  have n: "int (mag_scaled (nat a)) < int (mag_scaled (nat b)) \<longleftrightarrow> a < b"
    if "0 \<le> a" "0 \<le> b" for a b
    using that by (auto simp: mag_scaled_less_iff)
  have p: "0 < int (mag_scaled (nat a)) \<longleftrightarrow> 0 < a" if "0 \<le> a" for a
    using that by (simp add: mag_scaled_pos)
  have "- int (mag_scaled (nat a)) < int (mag_scaled (nat b)) \<longleftrightarrow> - a < b"
    if "0 \<le> a" "0 \<le> b" for a b
    using p [OF that(1)] p [OF that(2)] that by linarith
  with n show ?thesis
    by (auto simp: f64_scaled_def f64_key_def)
qed

text \<open>On finite values, \<open><\<close> and \<open>==\<close> compare the numbers.\<close>

lemma f64_lt_scaled:
  "f64_finite x \<Longrightarrow> f64_finite y \<Longrightarrow> f64_lt x y \<longleftrightarrow> f64_scaled x < f64_scaled y"
  by (simp add: f64_lt_def f64_finite_not_nan f64_scaled_less_iff)

lemma f64_eq_scaled:
  "f64_finite x \<Longrightarrow> f64_finite y \<Longrightarrow> f64_eq x y \<longleftrightarrow> f64_scaled x = f64_scaled y"
  using f64_scaled_less_iff [of x y] f64_scaled_less_iff [of y x]
  by (auto simp: f64_eq_def f64_finite_not_nan)

lemma f64_consts_scaled:
  "f64_scaled f64_90 = 90 * 2 ^ 1074" "f64_scaled f64_m90 = - 90 * 2 ^ 1074"
  "f64_scaled f64_180 = 180 * 2 ^ 1074" "f64_scaled f64_m180 = - 180 * 2 ^ 1074"
  "f64_scaled f64_10 = 10 * 2 ^ 1074"
  by (simp_all add: f64_scaled_def mag_scaled_def f64_defs f64_90_def f64_m90_def f64_180_def
      f64_m180_def f64_10_def)

lemma f64_consts_finite [simp]:
  "f64_finite f64_90" "f64_finite f64_m90" "f64_finite f64_180" "f64_finite f64_m180"
  "f64_finite f64_10"
  by (simp_all add: f64_defs f64_90_def f64_m90_def f64_180_def f64_m180_def f64_10_def)

end
