(* ===== verification/Retry.thy ===== *)
theory Retry
  imports GoPrelude
begin

text \<open>
  \<open>RetryPolicy\<close> of internal/orders/reliability.go: the policy record, the default
  sleep, jitter and retry predicate, the delay before the next attempt, and the loop of
  \<open>Do\<close>. The lemmas show how many attempts are made, which error comes back, that the
  loop ends, which delays are slept, and that \<open>Do\<close> is a plain bounded retry when the
  context stays alive.
\<close>

section \<open>The model\<close>

record 'w RetryPolicy =
  MaxAttempts :: int
  BaseDelay :: duration
  MaxDelay :: duration
  Jitter :: "(duration \<Rightarrow> ('w, duration) prim) option"
  Sleep :: "('w ctx \<Rightarrow> duration \<Rightarrow> ('w, go_error option) act) option"
  ShouldRetry :: "(go_error \<Rightarrow> bool) option"

definition ErrCircuitOpen :: go_error where
  "ErrCircuitOpen = ErrVar ''orders.ErrCircuitOpen'' ''circuit breaker open''"

definition sleepWithContext :: "'w runtime \<Rightarrow> 'w ctx \<Rightarrow> duration \<Rightarrow> ('w, go_error option) act" where
  "sleepWithContext rt ctx d w =
     (if d \<le> 0 then Some (None, w)
      else let (fired, w) = select_timer rt ctx d w
           in if fired then Some (None, w) else Some (ctx w))"

definition defaultJitter :: "'w runtime \<Rightarrow> duration \<Rightarrow> ('w, duration) prim" where
  "defaultJitter rt d w =
     (if d \<le> 0 then (0, w)
      else let half = d sdiv 2;
               (r, w) = rand_Int63n rt (wrap64 (half + 1)) w
           in (wrap64 (half + r), w))"

definition defaultShouldRetry :: "go_error \<Rightarrow> bool" where
  "defaultShouldRetry err \<longleftrightarrow>
     \<not> errors_Is err context_Canceled \<and>
     \<not> errors_Is err context_DeadlineExceeded \<and>
     \<not> errors_Is err ErrCircuitOpen"

text \<open>The delay after a failed attempt, before jitter.\<close>

definition backoff :: "duration \<Rightarrow> duration \<Rightarrow> int \<Rightarrow> duration" where
  "backoff base maxd attempt =
     (let delay = base;
          delay = (if delay > 0 then go_shl delay (attempt - 1) else delay);
          delay = (if maxd > 0 \<and> delay > maxd then maxd else delay)
      in delay)"

text \<open>
  The \<open>for\<close> loop of \<open>Do\<close>, with its loop variable. \<open>attempt\<close> is incremented only
  below \<open>attempts\<close>, so the increment never wraps.
\<close>

function retry_loop ::
  "('w ctx \<Rightarrow> duration \<Rightarrow> ('w, go_error option) act) \<Rightarrow> (go_error \<Rightarrow> bool) \<Rightarrow>
   (duration \<Rightarrow> ('w, duration) prim) \<Rightarrow> duration \<Rightarrow> duration \<Rightarrow> 'w ctx \<Rightarrow>
   ('w, go_error option) act \<Rightarrow> int \<Rightarrow> int \<Rightarrow> ('w, go_error option) act" where
  "retry_loop sleep shouldRetry jitter base maxd ctx fn attempts attempt w =
     (if attempt \<le> attempts then
        (case ctx w of
           (Some err, w) \<Rightarrow> Some (Some err, w)
         | (None, w) \<Rightarrow> do {
             (err, w) \<leftarrow> fn w;
             case err of
               None \<Rightarrow> Some (None, w)
             | Some err \<Rightarrow>
                 if attempt = attempts \<or> \<not> shouldRetry err then Some (Some err, w)
                 else (case jitter (backoff base maxd attempt) w of
                   (delay, w) \<Rightarrow>
                     if delay > 0 then do {
                       (serr, w) \<leftarrow> sleep ctx delay w;
                       case serr of
                         Some err \<Rightarrow> Some (Some err, w)
                       | None \<Rightarrow> retry_loop sleep shouldRetry jitter base maxd ctx fn
                           attempts (attempt + 1) w
                     }
                     else retry_loop sleep shouldRetry jitter base maxd ctx fn
                       attempts (attempt + 1) w)
           })
      else Some (None, w))"
  by pat_completeness auto
termination
  by (relation "measure (\<lambda>(_, _, _, _, _, _, _, attempts, attempt, _). nat (attempts - attempt + 1))")
     auto

declare retry_loop.simps [simp del]

text \<open>The defaults that \<open>Do\<close> fills in for unset fields of the policy.\<close>

definition policy_attempts :: "'w RetryPolicy \<Rightarrow> int" where
  "policy_attempts p = (if MaxAttempts p < 1 then 1 else MaxAttempts p)"

definition policy_sleep ::
  "'w runtime \<Rightarrow> 'w RetryPolicy \<Rightarrow> 'w ctx \<Rightarrow> duration \<Rightarrow> ('w, go_error option) act" where
  "policy_sleep rt p = (case Sleep p of None \<Rightarrow> sleepWithContext rt | Some s \<Rightarrow> s)"

definition policy_shouldRetry :: "'w RetryPolicy \<Rightarrow> go_error \<Rightarrow> bool" where
  "policy_shouldRetry p = (case ShouldRetry p of None \<Rightarrow> defaultShouldRetry | Some f \<Rightarrow> f)"

definition policy_jitter ::
  "'w runtime \<Rightarrow> 'w RetryPolicy \<Rightarrow> duration \<Rightarrow> ('w, duration) prim" where
  "policy_jitter rt p = (case Jitter p of None \<Rightarrow> defaultJitter rt | Some j \<Rightarrow> j)"

definition ctx_or_background :: "'w ctx option \<Rightarrow> 'w ctx" where
  "ctx_or_background ctx = (case ctx of None \<Rightarrow> context_Background | Some c \<Rightarrow> c)"

definition retry_Do ::
  "'w runtime \<Rightarrow> 'w RetryPolicy \<Rightarrow> 'w ctx option \<Rightarrow> ('w, go_error option) act \<Rightarrow>
   ('w, go_error option) act" where
  "retry_Do rt p ctx fn w =
     retry_loop (policy_sleep rt p) (policy_shouldRetry p) (policy_jitter rt p)
       (BaseDelay p) (MaxDelay p) (ctx_or_background ctx) fn (policy_attempts p) 1 w"

section \<open>The loop: one unfolding, then invariants\<close>

lemma retry_loop_done: "attempts < attempt \<Longrightarrow>
    retry_loop sl sr ji b m ctx fn attempts attempt w = Some (None, w)"
  by (simp add: retry_loop.simps)

lemma retry_loop_ctx_done: "attempt \<le> attempts \<Longrightarrow> ctx w = (Some e, w') \<Longrightarrow>
    retry_loop sl sr ji b m ctx fn attempts attempt w = Some (Some e, w')"
  by (simp add: retry_loop.simps)

lemma retry_loop_step:
  assumes "attempt \<le> attempts" and "ctx w = (None, w1)"
  shows "retry_loop sl sr ji b m ctx fn attempts attempt w =
    do {
      (err, w) \<leftarrow> fn w1;
      case err of
        None \<Rightarrow> Some (None, w)
      | Some err \<Rightarrow>
          if attempt = attempts \<or> \<not> sr err then Some (Some err, w)
          else (case ji (backoff b m attempt) w of
            (delay, w) \<Rightarrow>
              if delay > 0 then do {
                (serr, w) \<leftarrow> sl ctx delay w;
                case serr of
                  Some err \<Rightarrow> Some (Some err, w)
                | None \<Rightarrow> retry_loop sl sr ji b m ctx fn attempts (attempt + 1) w
              }
              else retry_loop sl sr ji b m ctx fn attempts (attempt + 1) w)
    }"
  using assms by (subst retry_loop.simps) simp

text \<open>
  The shape of a run that returns: every way one iteration can end or go on, as one
  induction rule. It is the only place where the loop's equation is taken apart.
\<close>

lemma retry_loop_cases [consumes 2, case_names ctx nil fnerr sleeperr again]:
  assumes run: "retry_loop sl sr ji b m ctx fn n k w = Some (r, w')" and le: "k \<le> n"
  obtains (ctx) e where "ctx w = (Some e, w')" "r = Some e"
  | (nil) w1 where "ctx w = (None, w1)" "fn w1 = Some (None, w')" "r = None"
  | (fnerr) w1 e where "ctx w = (None, w1)" "fn w1 = Some (Some e, w')" "r = Some e"
      "k = n \<or> \<not> sr e"
  | (sleeperr) w1 e1 w2 d w3 e where "ctx w = (None, w1)" "fn w1 = Some (Some e1, w2)"
      "k < n" "sr e1" "ji (backoff b m k) w2 = (d, w3)" "0 < d"
      "sl ctx d w3 = Some (Some e, w')" "r = Some e"
  | (again) w1 e1 w2 d w3 w4 where "ctx w = (None, w1)" "fn w1 = Some (Some e1, w2)"
      "k < n" "sr e1" "ji (backoff b m k) w2 = (d, w3)"
      "(0 < d \<and> sl ctx d w3 = Some (None, w4)) \<or> (d \<le> 0 \<and> w4 = w3)"
      "retry_loop sl sr ji b m ctx fn n (k + 1) w4 = Some (r, w')"
proof (cases "ctx w")
  case (Pair cerr w1)
  show thesis
  proof (cases cerr)
    case (Some e)
    with Pair run le show thesis
      by (auto simp: retry_loop_ctx_done intro: that(1))
  next
    case None
    with Pair run le obtain err w2 where fn: "fn w1 = Some (err, w2)"
      by (auto simp: retry_loop_step bind_pair_Some_iff)
    show thesis
    proof (cases err)
      case None
      with \<open>cerr = None\<close> Pair run le fn show thesis
        by (auto simp: retry_loop_step intro: that(2))
    next
      case (Some e1)
      show thesis
      proof (cases "k = n \<or> \<not> sr e1")
        case True
        with \<open>cerr = None\<close> Pair run le fn Some show thesis
          by (auto simp: retry_loop_step intro: that(3))
      next
        case go_on: False
        obtain d w3 where ji: "ji (backoff b m k) w2 = (d, w3)"
          by (cases "ji (backoff b m k) w2")
        show thesis
        proof (cases "0 < d")
          case False
          with \<open>cerr = None\<close> Pair run le fn Some go_on ji show thesis
            by (auto simp: retry_loop_step intro!: that(5))
        next
          case True
          with \<open>cerr = None\<close> Pair run le fn Some go_on ji
          obtain serr w4 where sl: "sl ctx d w3 = Some (serr, w4)"
            by (auto simp: retry_loop_step bind_pair_Some_iff)
          with True \<open>cerr = None\<close> Pair run le fn Some go_on ji show thesis
            by (cases serr) (auto simp: retry_loop_step intro: that(4) that(5))
        qed
      qed
    qed
  qed
qed

text \<open>
  Invariants of a run, indexed by the number of the next attempt: \<open>P j\<close> holds before
  attempt \<open>j\<close>, a call of \<open>fn\<close> leads from \<open>P j\<close> to \<open>P (j + 1)\<close>, everything else
  keeps it.
\<close>

lemma retry_loop_rule:
  assumes run: "retry_loop sl sr ji b m ctx fn n k w = Some (r, w')"
    and P: "P k w" and le: "k \<le> n"
    and ctx: "\<And>j w. P j w \<Longrightarrow> P j (snd (ctx w))"
    and fn: "\<And>j w r w'. P j w \<Longrightarrow> j \<le> n \<Longrightarrow> fn w = Some (r, w') \<Longrightarrow> P (j + 1) w'"
    and ji: "\<And>j d w. P j w \<Longrightarrow> P j (snd (ji d w))"
    and sl: "\<And>j d w r w'. P j w \<Longrightarrow> 0 < d \<Longrightarrow> sl ctx d w = Some (r, w') \<Longrightarrow> P j w'"
  shows "\<exists>j. k \<le> j \<and> j \<le> n + 1 \<and> P j w'"
  using run P le
proof (induction "nat (n - k)" arbitrary: k w rule: less_induct)
  case less
  from less.prems(1,3) show ?case
  proof (cases rule: retry_loop_cases)
    case (ctx e)
    with assms(4) [OF less.prems(2)] less.prems(3) show ?thesis by (intro exI [of _ k]) auto
  next
    case (nil w1)
    with assms(4) [OF less.prems(2)] less.prems(3) fn show ?thesis
      by (intro exI [of _ "k + 1"]) auto
  next
    case (fnerr w1 e)
    with assms(4) [OF less.prems(2)] less.prems(3) fn show ?thesis
      by (intro exI [of _ "k + 1"]) auto
  next
    case (sleeperr w1 e1 w2 d w3 e)
    from sleeperr assms(4) [OF less.prems(2)] have "P k w1" by simp
    with sleeperr fn [of k w1] have "P (k + 1) w2" by simp
    with sleeperr ji [of "k + 1" w2 "backoff b m k"] have "P (k + 1) w3" by simp
    with sleeperr sl [of "k + 1" w3 d] have "P (k + 1) w'" by simp
    with less.prems(3) show ?thesis by (intro exI [of _ "k + 1"]) auto
  next
    case (again w1 e1 w2 d w3 w4)
    from again assms(4) [OF less.prems(2)] have "P k w1" by simp
    with again fn [of k w1] have "P (k + 1) w2" by simp
    with again ji [of "k + 1" w2 "backoff b m k"] have "P (k + 1) w3" by simp
    with again sl [of "k + 1" w3 d] have "P (k + 1) w4" by auto
    from less.hyps [OF _ again(7) this] again(3) obtain j
      where "k + 1 \<le> j" "j \<le> n + 1" "P j w'" by auto
    then show ?thesis by (intro exI [of _ j]) auto
  qed
qed

text \<open>Where the result of a run comes from.\<close>

lemma retry_loop_result:
  assumes "retry_loop sl sr ji b m ctx fn n k w = Some (r, w')" and "k \<le> n"
  shows "case r of
      None \<Rightarrow> \<exists>w1. fn w1 = Some (None, w')
    | Some e \<Rightarrow> (\<exists>w1. fn w1 = Some (Some e, w')) \<or> (\<exists>w1. ctx w1 = (Some e, w')) \<or>
        (\<exists>d w1. 0 < d \<and> sl ctx d w1 = Some (Some e, w'))"
  using assms
proof (induction "nat (n - k)" arbitrary: k w rule: less_induct)
  case less
  from less.prems show ?case
  proof (cases rule: retry_loop_cases)
    case (again w1 e1 w2 d w3 w4)
    from less.hyps [OF _ again(7)] again(3) show ?thesis by simp
  qed (auto split: option.splits)
qed

lemma retry_loop_total:
  assumes fn: "\<And>w. fn w \<noteq> None" and sl: "\<And>d w. sl ctx d w \<noteq> None"
  shows "retry_loop sl sr ji b m ctx fn n k w \<noteq> None"
proof (induction "nat (n - k + 1)" arbitrary: k w rule: less_induct)
  case less
  show ?case
  proof (cases "k \<le> n")
    case False
    then show ?thesis by (simp add: retry_loop_done)
  next
    case True
    obtain c w1 where c: "ctx w = (c, w1)" by (cases "ctx w")
    show ?thesis
    proof (cases c)
      case (Some e)
      with c True show ?thesis by (simp add: retry_loop_ctx_done)
    next
      case None
      have IH: "retry_loop sl sr ji b m ctx fn n (k + 1) w \<noteq> None" for w
        by (rule less) (use True in simp)
      obtain r w2 where fn1: "fn w1 = Some (r, w2)" using fn [of w1] by auto
      obtain d w3 where ji: "ji (backoff b m k) w2 = (d, w3)"
        by (cases "ji (backoff b m k) w2")
      obtain sr' w4 where "sl ctx d w3 = Some (sr', w4)" using sl [of d w3] by auto
      then show ?thesis
        using IH c None True fn1 ji
        by (auto simp: retry_loop_step split: option.splits)
    qed
  qed
qed

text \<open>
  When every attempt fails the loop ends with an error; \<open>P j\<close> holds before attempt \<open>j\<close>, under a
  context that never ends.
\<close>

lemma retry_loop_fails:
  assumes ctx: "\<And>j v. P j v \<Longrightarrow> \<exists>v'. ctx v = (None, v') \<and> P j v'"
    and fn: "\<And>j v. P j v \<Longrightarrow> j \<le> n \<Longrightarrow> \<exists>e v'. fn v = Some (Some e, v') \<and> P (j + 1) v'"
    and ji: "\<And>j d v. P j v \<Longrightarrow> k < j \<Longrightarrow> P j (snd (ji d v))"
    and sl: "\<And>j d v. P j v \<Longrightarrow> k < j \<Longrightarrow> \<exists>r v'. sl ctx d v = Some (r, v') \<and> P j v'"
    and "P k w" "k \<le> n"
  shows "\<exists>e j v'. retry_loop sl sr ji b m ctx fn n k w = Some (Some e, v') \<and> k < j \<and> P j v'"
proof -
  have "\<exists>e j v'. retry_loop sl sr ji b m ctx fn n i w = Some (Some e, v') \<and> k < j \<and> P j v'"
    if "P i w" "k \<le> i" "i \<le> n" for i w
    using that
  proof (induction "nat (n - i)" arbitrary: i w rule: less_induct)
    case less
    from ctx [OF less.prems(1)] obtain v1 where 1: "ctx w = (None, v1)" "P i v1" by blast
    from fn [OF 1(2) less.prems(3)] obtain e v2 where 2: "fn v1 = Some (Some e, v2)" "P (i + 1) v2" by blast
    obtain d v3 where 3: "ji (backoff b m i) v2 = (d, v3)" by fastforce
    have k: "k < i + 1" using less.prems(2) by simp
    have P3: "P (i + 1) v3" using ji [OF 2(2) k, of "backoff b m i"] 3 by simp
    from sl [OF P3 k] obtain r v4 where 4: "sl ctx d v3 = Some (r, v4)" "P (i + 1) v4" by blast
    note step = retry_loop_step [where ctx = ctx and w = w and sl = sl and sr = sr and ji = ji and b = b and m = m and fn = fn,
      OF less.prems(3) 1(1)]
    show ?case
    proof (cases "i = n \<or> \<not> sr e")
      case True
      with 2 k show ?thesis unfolding step by (intro exI [of _ e] exI [of _ "i + 1"] exI [of _ v2]) auto
    next
      case False
      have IH: "\<exists>e j v'. retry_loop sl sr ji b m ctx fn n (i + 1) v = Some (Some e, v') \<and> k < j \<and> P j v'"
        if "P (i + 1) v" for v
        by (rule less.hyps [OF _ that]) (use False less.prems in auto)
      show ?thesis
      proof (cases "0 < d")
        case True
        show ?thesis
        proof (cases r)
          case None
          with True False 2(1) 3 4(1) IH [OF 4(2)] show ?thesis unfolding step by simp
        next
          case (Some err)
          with True False 2(1) 3 4 k show ?thesis unfolding step
            by (intro exI [of _ err] exI [of _ "i + 1"] exI [of _ v4]) simp
        qed
      next
        case nd: False
        with False 2(1) 3 IH [OF P3] show ?thesis unfolding step by simp
      qed
    qed
  qed
  with assms(5,6) show ?thesis by simp
qed

lemma policy_attempts_max: "policy_attempts p = max 1 (MaxAttempts p)"
  by (simp add: policy_attempts_def)

lemma policy_attempts_pos [simp]: "1 \<le> policy_attempts p"
  by (simp add: policy_attempts_def)

section \<open>Attempts, results, termination\<close>

text \<open>
  A scripted call for the witnesses: the world is the list of results still to come, and
  nil once the list is empty. The runtime of the witnesses has a clock that stands still,
  timers that always fire and a random source that yields 0.
\<close>

definition scripted :: "(go_error option list, go_error option) act" where
  "scripted w = (case w of [] \<Rightarrow> Some (None, []) | r # rs \<Rightarrow> Some (r, rs))"

definition still_runtime :: "'w runtime" where
  "still_runtime = \<lparr>time_Now = Pair 0, select_timer = (\<lambda>_ _. Pair True),
     rand_Int63n = (\<lambda>_. Pair 0)\<rparr>"

definition three_tries :: "'w RetryPolicy" where
  "three_tries = \<lparr>MaxAttempts = 3, BaseDelay = 10, MaxDelay = 15, Jitter = None,
     Sleep = None, ShouldRetry = None\<rparr>"

lemmas retry_witness_defs = scripted_def still_runtime_def three_tries_def
  policy_attempts_def policy_sleep_def policy_jitter_def policy_shouldRetry_def
  ctx_or_background_def context_Background_def sleepWithContext_def defaultJitter_def

text \<open>
  \<open>Do\<close> calls the function at most \<open>MaxAttempts\<close> times, and at most once when
  \<open>MaxAttempts\<close> is below 1. The number of calls is read off any counter that each call
  of the function increments and that the context, the jitter and the sleep leave alone.
\<close>

theorem retry_Do_attempts:
  fixes cnt :: "'w \<Rightarrow> int"
  assumes "retry_Do rt p ctx fn w = Some (r, w')"
    and "\<And>w r w'. fn w = Some (r, w') \<Longrightarrow> cnt w' = cnt w + 1"
    and "\<And>w. cnt (snd (ctx_or_background ctx w)) = cnt w"
    and "\<And>d w. cnt (snd (policy_jitter rt p d w)) = cnt w"
    and "\<And>c d w r w'. policy_sleep rt p c d w = Some (r, w') \<Longrightarrow> cnt w' = cnt w"
  shows "cnt w \<le> cnt w' \<and> cnt w' \<le> cnt w + max 1 (MaxAttempts p)"
proof -
  have "\<exists>j. 1 \<le> j \<and> j \<le> policy_attempts p + 1 \<and> cnt w' = cnt w + (j - 1)"
    by (rule retry_loop_rule [OF assms(1) [unfolded retry_Do_def],
          where P = "\<lambda>j v. cnt v = cnt w + (j - 1)"])
      (auto simp: assms(3,4) dest: assms(2,5))
  then show ?thesis by (auto simp: policy_attempts_max)
qed

theorem retry_Do_attempts_witness:
  "retry_Do still_runtime three_tries None
       (\<lambda>n. Some (if n < 2 then Some (ErrText ''fail'') else None, n + 1)) (0::int) =
     Some (None, 3) \<and> (0::int) \<le> 3 \<and> (3::int) \<le> 0 + max 1 3"
proof -
  let ?fn = "\<lambda>n::int. Some (if n < 2 then Some (ErrText ''fail'') else None, n + 1)"
  have run: "retry_Do still_runtime three_tries None ?fn 0 = Some (None, 3)"
    by (simp add: retry_Do_def retry_loop.simps backoff_def go_shl_def wrap64_def
        retry_witness_defs defaultShouldRetry_def context_Canceled_def
        context_DeadlineExceeded_def ErrCircuitOpen_def)
  have "(0::int) \<le> 3 \<and> (3::int) \<le> 0 + max 1 (MaxAttempts (three_tries :: int RetryPolicy))"
    by (rule retry_Do_attempts [OF run, where cnt = "\<lambda>n. n"])
      (auto simp: retry_witness_defs split: if_splits)
  then show ?thesis using run by (simp add: three_tries_def)
qed

text \<open>
  The result of \<open>Do\<close> is never made up: nil comes back only from a call of the
  function that returned nil, with the world that call left; an error is the one of the
  last call, or the context's error, or the error of an interrupted sleep. In particular
  the \<open>return nil\<close> after the loop is never reached.
\<close>

theorem retry_Do_result:
  assumes "retry_Do rt p ctx fn w = Some (r, w')"
  shows "case r of
      None \<Rightarrow> \<exists>w1. fn w1 = Some (None, w')
    | Some e \<Rightarrow> (\<exists>w1. fn w1 = Some (Some e, w')) \<or>
        (\<exists>w1. ctx_or_background ctx w1 = (Some e, w')) \<or>
        (\<exists>d w1. 0 < d \<and> policy_sleep rt p (ctx_or_background ctx) d w1 = Some (Some e, w'))"
  by (rule retry_loop_result [OF assms [unfolded retry_Do_def]]) simp

theorem retry_Do_result_witness:
  "retry_Do still_runtime three_tries None scripted [Some (ErrText ''fail'')] = Some (None, []) \<and>
   (\<exists>w1. scripted w1 = Some (None, []))"
proof -
  have run: "retry_Do still_runtime three_tries None scripted [Some (ErrText ''fail'')]
      = Some (None, [])"
    by (simp add: retry_Do_def retry_loop.simps backoff_def go_shl_def wrap64_def
        retry_witness_defs defaultShouldRetry_def context_Canceled_def
        context_DeadlineExceeded_def ErrCircuitOpen_def)
  show ?thesis using run retry_Do_result [OF run] by simp
qed

text \<open>
  \<open>Do\<close> always returns, whatever the policy's numbers, when the function and the
  sleep return.
\<close>

theorem retry_Do_returns:
  assumes "\<And>w. fn w \<noteq> None" and "\<And>c d w. policy_sleep rt p c d w \<noteq> None"
  shows "\<exists>r w'. retry_Do rt p ctx fn w = Some (r, w')"
proof -
  have "retry_Do rt p ctx fn w \<noteq> None"
    unfolding retry_Do_def by (rule retry_loop_total) (use assms in auto)
  then show ?thesis by auto
qed

theorem retry_Do_returns_witness:
  "\<exists>r w'. retry_Do still_runtime (three_tries\<lparr>MaxAttempts := 1000000\<rparr>) None scripted
     (replicate 5 (Some (ErrText ''fail''))) = Some (r, w')"
  by (rule retry_Do_returns) (auto simp: retry_witness_defs split: list.splits)

section \<open>Reference behaviour\<close>

text \<open>
  What a caller expects: try up to \<open>n\<close> times, stop at the first success or at the
  first error that is not worth a retry, return the last result. No clock, no delay.
\<close>

fun retry_spec :: "nat \<Rightarrow> (go_error \<Rightarrow> bool) \<Rightarrow> ('w, go_error option) act \<Rightarrow>
    ('w, go_error option) act" where
  "retry_spec 0 worth fn w = Some (None, w)"
| "retry_spec (Suc n) worth fn w = do {
     (r, w) \<leftarrow> fn w;
     case r of
       None \<Rightarrow> Some (None, w)
     | Some e \<Rightarrow> if n = 0 \<or> \<not> worth e then Some (Some e, w) else retry_spec n worth fn w
   }"

lemma retry_loop_spec:
  assumes ctx: "\<And>w. ctx w = (None, w)" and ji: "\<And>d w. snd (ji d w) = w"
    and sl: "\<And>d w. sl ctx d w = Some (None, w)"
  shows "retry_loop sl sr ji b m ctx fn n k w = retry_spec (nat (n - k + 1)) sr fn w"
proof (induction "nat (n - k + 1)" arbitrary: k w)
  case 0
  then show ?case by (simp add: retry_loop_done)
next
  case (Suc t)
  then have le: "k \<le> n" by simp
  have t: "t = nat (n - (k + 1) + 1)" "t = 0 \<longleftrightarrow> k = n"
    using Suc.hyps(2) by auto
  have IH: "retry_loop sl sr ji b m ctx fn n (k + 1) v = retry_spec t sr fn v" for v
    using Suc.hyps(1) [OF t(1)] t(1) by simp
  have ji': "ji d v = (fst (ji d v), v)" for d v
    using ji [of d v] by (cases "ji d v") simp
  have go_on: "(case ji (backoff b m k) v of (delay, w) \<Rightarrow>
      if delay > 0 then do {
        (serr, w) \<leftarrow> sl ctx delay w;
        case serr of Some err \<Rightarrow> Some (Some err, w)
        | None \<Rightarrow> retry_loop sl sr ji b m ctx fn n (k + 1) w
      } else retry_loop sl sr ji b m ctx fn n (k + 1) w) = retry_spec t sr fn v" for v
    by (subst ji') (simp add: sl IH)
  show ?case
    unfolding retry_loop_step [OF le ctx] go_on Suc.hyps(2) [symmetric] retry_spec.simps t(2)
    by simp
qed

text \<open>
  C12: With a context that stays alive, a jitter without side effects and sleeps that
  run to their end without disturbing anything, \<open>Do\<close> is exactly the plain bounded retry
  \<open>retry_spec\<close> of \<open>max 1 MaxAttempts\<close> attempts: the delays decide when, never what.
\<close>

theorem retry_Do_spec:
  assumes "\<And>w. ctx_or_background ctx w = (None, w)"
    and "\<And>d w. snd (policy_jitter rt p d w) = w"
    and "\<And>c d w. policy_sleep rt p c d w = Some (None, w)"
  shows "retry_Do rt p ctx fn w =
    retry_spec (nat (max 1 (MaxAttempts p))) (policy_shouldRetry p) fn w"
  unfolding retry_Do_def
  by (subst retry_loop_spec) (simp_all add: assms policy_attempts_max)

theorem retry_Do_spec_witness:
  "retry_Do still_runtime three_tries None scripted [Some (ErrText ''a''), Some (ErrText ''b'')] =
   retry_spec 3 defaultShouldRetry scripted [Some (ErrText ''a''), Some (ErrText ''b'')]"
  using retry_Do_spec [of None still_runtime three_tries scripted
      "[Some (ErrText ''a''), Some (ErrText ''b'')]"]
  by (simp add: retry_witness_defs)

section \<open>Delays\<close>

lemma backoff_le_MaxDelay: "0 < m \<Longrightarrow> backoff b m k \<le> m"
  by (simp add: backoff_def Let_def)

lemma defaultJitter_range:
  assumes rand: "\<And>n w. 0 < n \<Longrightarrow> 0 \<le> fst (rand_Int63n rt n w) \<and> fst (rand_Int63n rt n w) < n"
    and d: "in64 d" "0 < d"
  shows "d div 2 \<le> fst (defaultJitter rt d w) \<and> fst (defaultJitter rt d w) \<le> d"
proof -
  let ?h = "d div 2"
  have h: "d sdiv 2 = ?h" using d by (simp add: sdiv_nonneg)
  have bounds: "0 \<le> ?h" "2 * ?h \<le> d" "d \<le> int64_max" using d by (auto simp: in64_def)
  then have w1: "wrap64 (?h + 1) = ?h + 1" by (intro wrap64_id) (simp add: in64_def)
  obtain r w' where r: "rand_Int63n rt (?h + 1) w = (r, w')"
    by (cases "rand_Int63n rt (?h + 1) w")
  with rand [of "?h + 1" w] bounds have rb: "0 \<le> r" "r \<le> ?h" by auto
  with bounds have "wrap64 (?h + r) = ?h + r" by (intro wrap64_id) (simp add: in64_def)
  with d h w1 r rb bounds show ?thesis by (simp add: defaultJitter_def)
qed

lemma retry_loop_sleep_cong:
  assumes "\<And>k w. 0 < fst (ji (backoff b m k) w) \<Longrightarrow>
      s1 ctx (fst (ji (backoff b m k) w)) = s2 ctx (fst (ji (backoff b m k) w))"
  shows "retry_loop s1 sr ji b m ctx fn n k w = retry_loop s2 sr ji b m ctx fn n k w"
proof (induction "nat (n - k + 1)" arbitrary: k w rule: less_induct)
  case less
  show ?case
  proof (cases "k \<le> n")
    case False
    then show ?thesis by (simp add: retry_loop_done)
  next
    case True
    have IH: "retry_loop s1 sr ji b m ctx fn n (k + 1) v = retry_loop s2 sr ji b m ctx fn n (k + 1) v"
      for v by (rule less) (use True in simp)
    have pair: "ji (backoff b m k) v = (d, v') \<Longrightarrow> 0 < d \<Longrightarrow> s1 ctx d v' = s2 ctx d v'" for d v v'
      using assms [of k v] by simp
    obtain c w1 where c: "ctx w = (c, w1)" by (cases "ctx w")
    show ?thesis
    proof (cases c)
      case (Some e)
      with c True show ?thesis by (simp add: retry_loop_ctx_done)
    next
      case None
      with c have "ctx w = (None, w1)" by simp
      with True show ?thesis
        by (auto simp: retry_loop_step IH split: prod.splits option.splits
            intro!: Option.bind_cong intro: pair)
    qed
  qed
qed

text \<open>
  C36: With a positive \<open>MaxDelay\<close> and the default jitter, every sleep of \<open>Do\<close> is longer
  than zero and at most \<open>MaxDelay\<close>: two policies whose sleeps agree on such durations
  behave alike, whatever the base delay and the attempt.
\<close>

theorem retry_Do_sleeps_within_MaxDelay:
  assumes "0 < MaxDelay p" "in64 (MaxDelay p)" and "Jitter p = None"
    and rand: "\<And>n w. 0 < n \<Longrightarrow> 0 \<le> fst (rand_Int63n rt n w) \<and> fst (rand_Int63n rt n w) < n"
    and agree: "\<And>c d. 0 < d \<Longrightarrow> d \<le> MaxDelay p \<Longrightarrow> s1 c d = s2 c d"
  shows "retry_Do rt (p\<lparr>Sleep := Some s1\<rparr>) ctx fn w = retry_Do rt (p\<lparr>Sleep := Some s2\<rparr>) ctx fn w"
proof -
  have "fst (defaultJitter rt d v) \<le> MaxDelay p" if "d \<le> MaxDelay p" for d v
  proof (cases "0 < d")
    case True
    with that assms(2) have "in64 d" by (simp add: in64_def)
    from defaultJitter_range [OF rand this True] that show ?thesis by (meson order_trans)
  next
    case False
    with assms(1) show ?thesis by (simp add: defaultJitter_def)
  qed
  then have le: "fst (defaultJitter rt (backoff b (MaxDelay p) k) v) \<le> MaxDelay p" for b k v
    by (simp add: backoff_le_MaxDelay assms(1))
  have "retry_loop s1 (policy_shouldRetry p) (defaultJitter rt) (BaseDelay p) (MaxDelay p)
      (ctx_or_background ctx) fn (policy_attempts p) 1 w =
    retry_loop s2 (policy_shouldRetry p) (defaultJitter rt) (BaseDelay p) (MaxDelay p)
      (ctx_or_background ctx) fn (policy_attempts p) 1 w"
    by (rule retry_loop_sleep_cong) (rule agree, simp_all add: le)
  then show ?thesis
    by (simp add: retry_Do_def policy_sleep_def policy_jitter_def policy_attempts_max
        policy_shouldRetry_def assms(3))
qed

theorem retry_Do_sleeps_within_MaxDelay_witness:
  "retry_Do still_runtime (three_tries\<lparr>Sleep := Some (\<lambda>_ d w. if d \<le> 15 then Some (None, w) else None)\<rparr>)
     None scripted [Some (ErrText ''a'')] =
   retry_Do still_runtime (three_tries\<lparr>Sleep := Some (\<lambda>_ d w. Some (None, w))\<rparr>)
     None scripted [Some (ErrText ''a'')]"
  by (rule retry_Do_sleeps_within_MaxDelay) (auto simp: retry_witness_defs in64_def)

text \<open>Exponential growth as long as the shift stays in range.\<close>

lemma backoff_doubles:
  assumes "0 < b" "1 \<le> k" "in64 (b * 2 ^ nat (k - 1))"
  shows "backoff b m k =
    (if 0 < m then min m (b * 2 ^ nat (k - 1)) else b * 2 ^ nat (k - 1))"
  using assms by (auto simp: backoff_def go_shl_def wrap64_id min_def Let_def)

lemma go_shl_64: "64 \<le> n \<Longrightarrow> go_shl b n = 0"
proof -
  assume "64 \<le> n"
  then have "nat n = 64 + nat (n - 64)" by simp
  then have "b * 2 ^ nat n = (b * 2 ^ nat (n - 64)) * 2 ^ 64" by (simp add: power_add)
  then have "(b * 2 ^ nat n + 2 ^ 63) mod 2 ^ 64 = (2 ^ 63) mod (2 ^ 64 :: int)"
    by (metis mod_mult_self3)
  then show ?thesis by (simp add: go_shl_def wrap64_def)
qed

lemma backoff_1s_1min:
  "backoff 1000000000 60000000000 34 = 60000000000"
  "backoff 1000000000 60000000000 35 = - 1266874889709551616"
  "backoff 1000000000 60000000000 56 = 0"
  by (simp_all add: backoff_def go_shl_def wrap64_def)

text \<open>
  The shift \<open>delay << (attempt - 1)\<close> overflows: from the 65th failed attempt on
  the delay is 0 for every base delay, below every \<open>MaxDelay\<close> cap, so with the default
  jitter \<open>Do\<close> retries without any pause (its sleep is never called, here: it may as well
  never return). A base of 1s capped at 1min is lost from the 35th attempt on.
\<close>

theorem retry_backoff_overflow:
  assumes "65 \<le> k" "0 \<le> b"
  shows "backoff b m k = (if 0 < b then 0 else min 0 b) \<and>
    retry_loop sl sr (defaultJitter rt) b m ctx fn n k w =
    retry_loop (\<lambda>_ _ _. None) sr (defaultJitter rt) b m ctx fn n k w \<and>
    backoff 1000000000 60000000000 34 = 60000000000 \<and>
    backoff 1000000000 60000000000 35 < 0"
proof -
  have zero: "backoff b m j = 0" if "65 \<le> j" for j
    using that assms(2) by (simp add: backoff_def go_shl_64)
  have "retry_loop s1 sr (defaultJitter rt) b m ctx fn n k w =
      retry_loop s2 sr (defaultJitter rt) b m ctx fn n k w" for s1 s2
    using assms(1)
  proof (induction "nat (n - k + 1)" arbitrary: k w rule: less_induct)
    case less
    then have IH: "k \<le> n \<Longrightarrow> retry_loop s1 sr (defaultJitter rt) b m ctx fn n (k + 1) v =
        retry_loop s2 sr (defaultJitter rt) b m ctx fn n (k + 1) v" for v by simp
    show ?case
      using less.prems
      by (subst (1 2) retry_loop.simps)
        (auto simp: zero IH defaultJitter_def split: prod.splits option.splits
          intro!: Option.bind_cong)
  qed
  with zero [OF assms(1)] assms(2) show ?thesis by (simp add: backoff_1s_1min)
qed

theorem retry_backoff_overflow_witness:
  "backoff 1000000000 60000000000 65 = 0 \<and>
   retry_loop (\<lambda>_ _. Some \<circ> Pair None) (\<lambda>_. True) (defaultJitter still_runtime) 1000000000 60000000000
     context_Background scripted 70 65 [Some (ErrText ''a'')] =
   retry_loop (\<lambda>_ _ _. None) (\<lambda>_. True) (defaultJitter still_runtime) 1000000000 60000000000
     context_Background scripted 70 65 [Some (ErrText ''a'')]"
  using retry_backoff_overflow [of 65 1000000000 60000000000 "\<lambda>_ _. Some \<circ> Pair None"
      "\<lambda>_. True" still_runtime context_Background scripted 70 "[Some (ErrText ''a'')]"]
  by simp

end
