(* ===== verification/Breaker.thy ===== *)
theory Breaker
  imports Retry
begin

text \<open>
  \<open>CircuitBreaker\<close> of internal/orders/reliability.go. The mutable fields are a record
  behind a pointer; the fields set once by the constructor are in the handle. \<open>Execute\<close>
  is two critical sections, \<open>breaker_enter\<close> and \<open>breaker_leave\<close>, with the protected
  call between them, outside the lock. The lemmas show what one caller sees (an abstract
  breaker with two states), and what holds when any number of calls overlap.
\<close>

section \<open>The model\<close>

datatype circuitState = circuitClosed | circuitOpen | circuitHalfOpen

record breaker =
  cb_state :: circuitState
  cb_failures :: int
  cb_openedAt :: instant
  cb_halfOpenFlight :: bool

record 'w CircuitBreakerConfig =
  MaxFailures :: int
  ResetTimeout :: duration
  Now :: "('w, instant) prim option"

record 'w CircuitBreaker =
  cb_maxFails :: int
  cb_resetAfter :: duration
  cb_now :: "('w, instant) prim"
  cb_ptr :: "('w, breaker) ref"

text \<open>The constructor; \<open>ptr\<close> is the freshly allocated struct.\<close>

definition new_breaker :: breaker where
  "new_breaker = \<lparr>cb_state = circuitClosed, cb_failures = 0, cb_openedAt = 0,
     cb_halfOpenFlight = False\<rparr>"

definition NewCircuitBreaker ::
  "'w runtime \<Rightarrow> ('w, breaker) ref \<Rightarrow> 'w CircuitBreakerConfig \<Rightarrow> ('w, 'w CircuitBreaker) prim" where
  "NewCircuitBreaker rt ptr cfg w =
     (let maxFails = (if MaxFailures cfg < 1 then 1 else MaxFailures cfg);
          resetAfter = (if ResetTimeout cfg \<le> 0 then 2 * 1000000000 else ResetTimeout cfg);
          now = (case Now cfg of None \<Rightarrow> time_Now rt | Some n \<Rightarrow> n)
      in (\<lparr>cb_maxFails = maxFails, cb_resetAfter = resetAfter, cb_now = now, cb_ptr = ptr\<rparr>,
          wr ptr new_breaker w))"

text \<open>
  The first critical section: whether the call is let through, and the fields after it.
\<close>

definition breaker_enter :: "duration \<Rightarrow> instant \<Rightarrow> breaker \<Rightarrow> bool \<times> breaker" where
  "breaker_enter resetAfter now c =
     (case (case cb_state c of
              circuitOpen \<Rightarrow>
                if time_Sub now (cb_openedAt c) < resetAfter then None
                else Some (c\<lparr>cb_state := circuitHalfOpen\<rparr>)
            | circuitHalfOpen \<Rightarrow> if cb_halfOpenFlight c then None else Some c
            | circuitClosed \<Rightarrow> Some c) of
        None \<Rightarrow> (False, c)
      | Some c \<Rightarrow>
          (True, if cb_state c = circuitHalfOpen then c\<lparr>cb_halfOpenFlight := True\<rparr> else c))"

text \<open>The second critical section, with the \<open>now\<close> read before the call.\<close>

definition breaker_leave :: "int \<Rightarrow> instant \<Rightarrow> go_error option \<Rightarrow> breaker \<Rightarrow> breaker" where
  "breaker_leave maxFails now err c =
     (let c = (if cb_state c = circuitHalfOpen then c\<lparr>cb_halfOpenFlight := False\<rparr> else c)
      in if err = None then c\<lparr>cb_state := circuitClosed, cb_failures := 0\<rparr>
         else if cb_state c = circuitHalfOpen then
           c\<lparr>cb_state := circuitOpen, cb_openedAt := now, cb_failures := 0\<rparr>
         else let c = c\<lparr>cb_failures := wrap64 (cb_failures c + 1)\<rparr>
              in if cb_failures c \<ge> maxFails then
                   c\<lparr>cb_state := circuitOpen, cb_openedAt := now\<rparr>
                 else c)"

definition Execute ::
  "'w CircuitBreaker option \<Rightarrow> ('w, go_error option) act \<Rightarrow> ('w, go_error option) act" where
  "Execute c fn w =
     (case c of
        None \<Rightarrow> fn w
      | Some c \<Rightarrow>
          (let (now, w) = cb_now c w;
               (admitted, b) = breaker_enter (cb_resetAfter c) now (rd (cb_ptr c) w);
               w = wr (cb_ptr c) b w
           in if \<not> admitted then Some (Some ErrCircuitOpen, w)
              else do {
                (err, w) \<leftarrow> fn w;
                let w = wr (cb_ptr c)
                  (breaker_leave (cb_maxFails c) now err (rd (cb_ptr c) w)) w;
                Some (err, w)
              }))"

section \<open>The invariant of the fields\<close>

definition breaker_wf :: "int \<Rightarrow> breaker \<Rightarrow> bool" where
  "breaker_wf maxFails c \<longleftrightarrow>
     (cb_state c = circuitHalfOpen \<longleftrightarrow> cb_halfOpenFlight c) \<and>
     (cb_state c = circuitClosed \<longrightarrow> 0 \<le> cb_failures c \<and> cb_failures c < maxFails)"

lemma breaker_wf_new: "1 \<le> mf \<Longrightarrow> breaker_wf mf new_breaker"
  by (simp add: breaker_wf_def new_breaker_def)

lemma breaker_wf_enter: "breaker_wf mf c \<Longrightarrow> breaker_wf mf (snd (breaker_enter ra now c))"
  by (auto simp: breaker_wf_def breaker_enter_def split: circuitState.splits)

lemma breaker_wf_leave:
  assumes "breaker_wf mf c" "1 \<le> mf" "in64 mf"
  shows "breaker_wf mf (breaker_leave mf now err c)"
proof (cases "cb_state c = circuitClosed")
  case True
  with assms have "wrap64 (cb_failures c + 1) = cb_failures c + 1"
    by (intro wrap64_id) (auto simp: in64_def breaker_wf_def)
  with assms True show ?thesis
    by (auto simp: breaker_wf_def breaker_leave_def Let_def)
next
  case False
  with assms show ?thesis
    by (cases "cb_state c") (auto simp: breaker_wf_def breaker_leave_def Let_def)
qed

lemma breaker_enter_admitted:
  "fst (breaker_enter ra now c) \<longleftrightarrow>
     (case cb_state c of
        circuitClosed \<Rightarrow> True
      | circuitOpen \<Rightarrow> ra \<le> time_Sub now (cb_openedAt c)
      | circuitHalfOpen \<Rightarrow> \<not> cb_halfOpenFlight c)"
  by (auto simp: breaker_enter_def split: circuitState.splits)

lemma breaker_enter_rejected: "\<not> fst (breaker_enter ra now c) \<Longrightarrow> snd (breaker_enter ra now c) = c"
  by (auto simp: breaker_enter_def split: circuitState.splits if_splits)

lemma breaker_leave_state:
  "cb_state (breaker_leave mf now err c) \<noteq> circuitHalfOpen"
  "err = None \<Longrightarrow> cb_state (breaker_leave mf now err c) = circuitClosed"
  by (cases "cb_state c"; simp add: breaker_leave_def Let_def)+

section \<open>One caller at a time: the abstract breaker\<close>

text \<open>
  Between the calls of a sequential client the breaker is closed with a number of
  consecutive failures, or open since an instant; the half-open state is only visible
  while a trial call runs.
\<close>

datatype abs_breaker = AClosed int | AOpen instant

definition abs_of :: "breaker \<Rightarrow> abs_breaker" where
  "abs_of c = (if cb_state c = circuitClosed then AClosed (cb_failures c) else AOpen (cb_openedAt c))"

fun abs_admits :: "duration \<Rightarrow> instant \<Rightarrow> abs_breaker \<Rightarrow> bool" where
  "abs_admits ra now (AClosed k) \<longleftrightarrow> True"
| "abs_admits ra now (AOpen t) \<longleftrightarrow> ra \<le> time_Sub now t"

fun abs_after :: "int \<Rightarrow> instant \<Rightarrow> go_error option \<Rightarrow> abs_breaker \<Rightarrow> abs_breaker" where
  "abs_after mf now None a = AClosed 0"
| "abs_after mf now (Some e) (AClosed k) = (if k + 1 < mf then AClosed (k + 1) else AOpen now)"
| "abs_after mf now (Some e) (AOpen t) = AOpen now"

definition settled :: "int \<Rightarrow> breaker \<Rightarrow> bool" where
  "settled mf c \<longleftrightarrow> breaker_wf mf c \<and> cb_state c \<noteq> circuitHalfOpen"

lemma settled_new: "1 \<le> mf \<Longrightarrow> settled mf new_breaker"
  by (simp add: settled_def breaker_wf_new) (simp add: new_breaker_def)

lemma abs_admits_enter: "settled mf c \<Longrightarrow> fst (breaker_enter ra now c) = abs_admits ra now (abs_of c)"
  by (cases "cb_state c") (auto simp: settled_def breaker_enter_admitted abs_of_def)

lemma abs_after_call:
  fixes err :: "go_error option"
  assumes "settled mf c" "1 \<le> mf" "in64 mf" "fst (breaker_enter ra now c)"
  defines "c' \<equiv> breaker_leave mf now err (snd (breaker_enter ra now c))"
  shows "settled mf c'" and "abs_of c' = abs_after mf now err (abs_of c)"
proof -
  show "settled mf c'"
    using assms(1,2,3) breaker_wf_leave [OF breaker_wf_enter]
    by (simp add: settled_def breaker_leave_state c'_def)
  have "cb_state c = circuitClosed \<Longrightarrow> wrap64 (cb_failures c + 1) = cb_failures c + 1"
    using assms(1,2,3) by (intro wrap64_id) (auto simp: in64_def settled_def breaker_wf_def)
  then show "abs_of c' = abs_after mf now err (abs_of c)"
    using assms(1,4)
    by (cases "cb_state c"; cases err)
      (auto simp: c'_def settled_def breaker_enter_def breaker_leave_def abs_of_def Let_def
        split: if_splits)
qed

text \<open>
  \<open>Execute\<close> over a breaker whose pointer obeys the laws of a memory cell, around a call
  that does not touch the breaker's fields (no overlapping use of this breaker).
\<close>

locale guarded_call = cell "cb_ptr c" for c :: "'w CircuitBreaker" +
  fixes fn :: "('w, go_error option) act"
  assumes maxFails: "1 \<le> cb_maxFails c" "in64 (cb_maxFails c)"
    and now_frame: "rd (cb_ptr c) (snd (cb_now c w)) = rd (cb_ptr c) w"
    and fn_frame: "fn w = Some (r, w') \<Longrightarrow> rd (cb_ptr c) w' = rd (cb_ptr c) w"
begin

abbreviation fields :: "'w \<Rightarrow> breaker" where
  "fields v \<equiv> rd (cb_ptr c) v"
abbreviation view :: "'w \<Rightarrow> abs_breaker" where
  "view v \<equiv> abs_of (fields v)"
abbreviation ok :: "'w \<Rightarrow> bool" where
  "ok v \<equiv> settled (cb_maxFails c) (fields v)"

lemma rejected:
  assumes "ok w" "cb_now c w = (now, w1)" "\<not> abs_admits (cb_resetAfter c) now (view w)"
  shows "Execute (Some c) fn w = Some (Some ErrCircuitOpen, w1)"
proof -
  have same: "fields w1 = fields w" using now_frame [of w] assms(2) by simp
  obtain a b where e: "breaker_enter (cb_resetAfter c) now (fields w1) = (a, b)"
    by (cases "breaker_enter (cb_resetAfter c) now (fields w1)")
  with assms(1,3) abs_admits_enter same have "\<not> a" by (metis fst_conv)
  moreover from this e breaker_enter_rejected have "b = fields w1" by (metis fst_conv snd_conv)
  ultimately show ?thesis
    by (simp add: Execute_def assms(2) e wr_rd)
qed

lemma admitted:
  assumes "ok w" "cb_now c w = (now, w1)" "abs_admits (cb_resetAfter c) now (view w)"
    and run: "Execute (Some c) fn w = Some (r, w')"
  shows "\<exists>w2 w3. fn w2 = Some (r, w3) \<and>
      fields w2 = snd (breaker_enter (cb_resetAfter c) now (fields w)) \<and>
      w' = wr (cb_ptr c) (breaker_leave (cb_maxFails c) now r (fields w2)) w3"
proof -
  have same: "fields w1 = fields w" using now_frame [of w] assms(2) by simp
  obtain a b where e: "breaker_enter (cb_resetAfter c) now (fields w1) = (a, b)"
    by (cases "breaker_enter (cb_resetAfter c) now (fields w1)")
  with assms(1,3) abs_admits_enter same have a by (metis fst_conv)
  with run e obtain w3 where f: "fn (wr (cb_ptr c) b w1) = Some (r, w3)"
    and w': "w' = wr (cb_ptr c) (breaker_leave (cb_maxFails c) now r (fields w3)) w3"
    by (auto simp: Execute_def assms(2) bind_pair_Some_iff Let_def)
  from fn_frame [OF f] have "fields w3 = fields (wr (cb_ptr c) b w1)" .
  with f w' e same rd_wr show ?thesis by (metis snd_conv)
qed

lemma refines:
  assumes "ok w" "cb_now c w = (now, w1)" "Execute (Some c) fn w = Some (r, w')"
  shows "ok w' \<and> view w' = (if abs_admits (cb_resetAfter c) now (view w)
      then abs_after (cb_maxFails c) now r (view w) else view w)"
proof (cases "abs_admits (cb_resetAfter c) now (view w)")
  case False
  from rejected [OF assms(1,2) this] assms(3) have "w' = w1" by simp
  with now_frame [of w] assms(1,2) False show ?thesis by simp
next
  case True
  from admitted [OF assms(1,2) True assms(3)] obtain w2 w3 where
    "fields w2 = snd (breaker_enter (cb_resetAfter c) now (fields w))"
    "w' = wr (cb_ptr c) (breaker_leave (cb_maxFails c) now r (fields w2)) w3" by blast
  then have w': "fields w' = breaker_leave (cb_maxFails c) now r
      (snd (breaker_enter (cb_resetAfter c) now (fields w)))"
    by (simp add: rd_wr)
  have "fst (breaker_enter (cb_resetAfter c) now (fields w))"
    using abs_admits_enter assms(1) True by blast
  from abs_after_call [OF assms(1) maxFails this] w' True show ?thesis by simp
qed

end

subsection \<open>Properties of one caller\<close>

text \<open>A breaker in a world of its own, with a clock and a script of results, for the witnesses.\<close>

record lab =
  lab_breaker :: breaker
  lab_clock :: instant
  lab_script :: "go_error option list"

definition lab_ptr :: "(lab, breaker) ref" where
  "lab_ptr = \<lparr>rd = lab_breaker, wr = (\<lambda>b w. w\<lparr>lab_breaker := b\<rparr>)\<rparr>"

definition lab_cb :: "lab CircuitBreaker" where
  "lab_cb = \<lparr>cb_maxFails = 2, cb_resetAfter = 1000, cb_now = (\<lambda>w. (lab_clock w, w)), cb_ptr = lab_ptr\<rparr>"

definition lab_fn :: "(lab, go_error option) act" where
  "lab_fn w = (case lab_script w of [] \<Rightarrow> Some (None, w)
     | r # rs \<Rightarrow> Some (r, w\<lparr>lab_script := rs\<rparr>))"

lemmas lab_defs = lab_ptr_def lab_cb_def lab_fn_def

interpretation labcb: guarded_call lab_cb lab_fn
  by unfold_locales (auto simp: lab_defs in64_def split: list.splits)

text \<open>
  C9: Seen by one caller, \<open>Execute\<close> implements the abstract breaker: a call is let
  through exactly when the abstract breaker admits it; a rejected call returns
  \<open>ErrCircuitOpen\<close> and does nothing but read the clock; an admitted call runs the
  function once and counts its result as the abstract breaker does.
\<close>

theorem Execute_refines:
  assumes "guarded_call c fn"
    and "settled (cb_maxFails c) (rd (cb_ptr c) w)"
    and "cb_now c w = (now, w1)" and "Execute (Some c) fn w = Some (r, w')"
  shows "settled (cb_maxFails c) (rd (cb_ptr c) w') \<and>
    (if abs_admits (cb_resetAfter c) now (abs_of (rd (cb_ptr c) w))
     then (\<exists>w2 w3. fn w2 = Some (r, w3)) \<and>
       abs_of (rd (cb_ptr c) w') = abs_after (cb_maxFails c) now r (abs_of (rd (cb_ptr c) w))
     else r = Some ErrCircuitOpen \<and> w' = w1 \<and>
       abs_of (rd (cb_ptr c) w') = abs_of (rd (cb_ptr c) w))"
proof (cases "abs_admits (cb_resetAfter c) now (abs_of (rd (cb_ptr c) w))")
  case True
  from guarded_call.refines [OF assms] guarded_call.admitted [OF assms(1,2,3) True assms(4)] True
  show ?thesis by (auto simp: cong: conj_cong)
next
  case False
  from guarded_call.refines [OF assms] guarded_call.rejected [OF assms(1,2,3) False] False assms(4)
  show ?thesis by simp
qed

theorem Execute_refines_witness:
  "let w = \<lparr>lab_breaker = new_breaker, lab_clock = 7, lab_script = [Some (ErrText ''x'')]\<rparr>
   in \<exists>w'. Execute (Some lab_cb) lab_fn w = Some (Some (ErrText ''x''), w') \<and>
      abs_of (lab_breaker w') = AClosed 1"
proof -
  define w where "w = \<lparr>lab_breaker = new_breaker, lab_clock = 7, lab_script = [Some (ErrText ''x'')]\<rparr>"
  obtain r w' where run: "Execute (Some lab_cb) lab_fn w = Some (r, w')" and r: "r = Some (ErrText ''x'')"
    by (simp add: Execute_def lab_defs w_def new_breaker_def breaker_enter_def Let_def)
  have "settled (cb_maxFails lab_cb) (rd (cb_ptr lab_cb) w)"
    by (simp add: lab_defs w_def settled_new)
  from Execute_refines [OF labcb.guarded_call_axioms this _ run, of 7 w]
  have "abs_of (lab_breaker w') = AClosed 1"
    by (auto simp: lab_defs w_def abs_of_def new_breaker_def r split: if_splits)
  with run r show ?thesis by (auto simp: w_def Let_def)
qed

text \<open>A run of calls, each with the clock reading it starts with and the result it would have.\<close>

definition breaker_call ::
  "int \<Rightarrow> duration \<Rightarrow> instant \<times> go_error option \<Rightarrow> breaker \<Rightarrow> breaker" where
  "breaker_call mf ra x c =
     (case x of (now, err) \<Rightarrow>
        let (admitted, c) = breaker_enter ra now c
        in if admitted then breaker_leave mf now err c else c)"

fun breaker_calls ::
  "int \<Rightarrow> duration \<Rightarrow> (instant \<times> go_error option) list \<Rightarrow> breaker \<Rightarrow> breaker" where
  "breaker_calls mf ra [] c = c"
| "breaker_calls mf ra (x # xs) c = breaker_calls mf ra xs (breaker_call mf ra x c)"

lemma breaker_call_abs:
  assumes "settled mf c" "1 \<le> mf" "in64 mf"
  shows "settled mf (breaker_call mf ra (now, err) c)"
    and "abs_of (breaker_call mf ra (now, err) c) =
      (if abs_admits ra now (abs_of c) then abs_after mf now err (abs_of c) else abs_of c)"
proof -
  obtain a d where e: "breaker_enter ra now c = (a, d)" by (cases "breaker_enter ra now c")
  have a: "a = abs_admits ra now (abs_of c)" using abs_admits_enter [OF assms(1)] e by (metis fst_conv)
  show "settled mf (breaker_call mf ra (now, err) c)"
    and "abs_of (breaker_call mf ra (now, err) c) =
      (if abs_admits ra now (abs_of c) then abs_after mf now err (abs_of c) else abs_of c)"
    using abs_after_call [OF assms, of ra now err] breaker_enter_rejected [of ra now c] e a assms(1)
    by (auto simp: breaker_call_def)
qed

lemma breaker_calls_settled:
  "settled mf c \<Longrightarrow> 1 \<le> mf \<Longrightarrow> in64 mf \<Longrightarrow> settled mf (breaker_calls mf ra xs c)"
  by (induction xs arbitrary: c) (auto intro: breaker_call_abs(1))

lemma breaker_failures_count:
  assumes "settled mf c" "1 \<le> mf" "in64 mf" "abs_of c = AClosed k" "k + int (length es) \<le> mf" "es \<noteq> []"
  shows "abs_of (breaker_calls mf ra (map (\<lambda>(now, e). (now, Some e)) es) c) =
    (if k + int (length es) < mf then AClosed (k + int (length es)) else AOpen (fst (last es)))"
  using assms(1,4,5,6)
proof (induction es arbitrary: c k)
  case Nil
  then show ?case by simp
next
  case (Cons x es)
  obtain now e where x: "x = (now, e)" by (cases x)
  let ?c = "breaker_call mf ra (now, Some e) c"
  have c: "settled mf ?c" "abs_of ?c = (if k + 1 < mf then AClosed (k + 1) else AOpen now)"
    using breaker_call_abs [OF Cons.prems(1) assms(2,3)] Cons.prems(2) by simp_all
  show ?case
  proof (cases "es = []")
    case True
    with c Cons.prems x show ?thesis by simp
  next
    case False
    with Cons.prems(3) have "k + 1 < mf" by (cases es) auto
    with c have "abs_of ?c = AClosed (k + 1)" by simp
    from Cons.IH [OF c(1) this _ False] Cons.prems(3) False x show ?thesis
      by (simp add: algebra_simps)
  qed
qed

text \<open>
  C10: From a new breaker, up to \<open>maxFails\<close> consecutive failures are all let through and
  counted; the breaker stays closed below \<open>maxFails\<close> of them and opens exactly at the
  \<open>maxFails\<close>-th, with the opening instant of that call; while it is open and younger
  than \<open>resetAfter\<close>, every call is rejected without changing it.
\<close>

theorem breaker_opens_after_maxFails:
  fixes ra :: duration
  assumes "1 \<le> mf" "in64 mf" "es \<noteq> []" "int (length es) \<le> mf"
  defines "c \<equiv> breaker_calls mf ra (map (\<lambda>(now, e). (now, Some e)) es) new_breaker"
  shows "cb_state c = (if int (length es) < mf then circuitClosed else circuitOpen) \<and>
    (int (length es) < mf \<longrightarrow> cb_failures c = int (length es)) \<and>
    (int (length es) = mf \<longrightarrow> cb_openedAt c = fst (last es) \<and>
      (\<forall>now err. time_Sub now (fst (last es)) < ra \<longrightarrow> breaker_enter ra now c = (False, c) \<and>
        breaker_call mf ra (now, err) c = c))"
proof -
  have c: "settled mf c"
    unfolding c_def by (rule breaker_calls_settled [OF settled_new _ assms(2)]) (use assms(1) in auto)
  have new: "abs_of new_breaker = AClosed 0" by (simp add: abs_of_def new_breaker_def)
  from breaker_failures_count [OF settled_new assms(1,2) new, of es ra] assms
  have "abs_of c = (if int (length es) < mf then AClosed (int (length es)) else AOpen (fst (last es)))"
    by simp
  with c assms(4) show ?thesis
    by (cases "cb_state c")
      (auto simp: abs_of_def settled_def breaker_enter_def breaker_call_def split: if_splits)
qed

theorem breaker_opens_after_maxFails_witness:
  "cb_state (breaker_calls 2 1000 [(5, Some (ErrText ''a'')), (6, Some (ErrText ''b''))] new_breaker)
     = circuitOpen"
  using breaker_opens_after_maxFails [of 2 "[(5, ErrText ''a''), (6, ErrText ''b'')]" 1000]
  by (simp add: in64_def)

text \<open>
  An open breaker recovers: the first call at least \<open>resetAfter\<close> after the opening
  is let through as a trial; its success closes the breaker with no failures counted, its
  failure opens it again from that call's instant, whatever \<open>maxFails\<close>.
\<close>

theorem breaker_recovers:
  fixes mf :: int and err :: "go_error option"
  assumes "cb_state c = circuitOpen" and "ra \<le> time_Sub now (cb_openedAt c)"
  defines "c' \<equiv> breaker_call mf ra (now, err) c"
  shows "fst (breaker_enter ra now c) \<and>
    cb_state (snd (breaker_enter ra now c)) = circuitHalfOpen \<and>
    (err = None \<longrightarrow> cb_state c' = circuitClosed \<and> cb_failures c' = 0) \<and>
    (err \<noteq> None \<longrightarrow> cb_state c' = circuitOpen \<and> cb_openedAt c' = now \<and> cb_failures c' = 0)"
  using assms(1,2) by (auto simp: c'_def breaker_call_def breaker_enter_def breaker_leave_def Let_def)

theorem breaker_recovers_witness:
  "cb_state (breaker_call 1 1000 (2000, None)
     (breaker_calls 1 1000 [(5, Some (ErrText ''a''))] new_breaker)) = circuitClosed"
proof -
  let ?c = "breaker_calls 1 1000 [(5, Some (ErrText ''a''))] new_breaker"
  have "cb_state ?c = circuitOpen" "cb_openedAt ?c = 5"
    by (simp_all add: breaker_call_def breaker_enter_def breaker_leave_def new_breaker_def wrap64_def Let_def)
  with breaker_recovers [of ?c 1000 2000 None 1] show ?thesis
    by (simp add: in64_def time_Sub_def)
qed

section \<open>Any number of callers\<close>

text \<open>
  Overlapping calls of \<open>Execute\<close>: each critical section is atomic (the mutex), the calls
  between them overlap freely. A call in flight remembers the clock reading it entered
  with, and whether it is a trial (it found or made the breaker half-open).
\<close>

record brk_sys =
  sys_breaker :: breaker
  sys_calls :: "nat \<Rightarrow> (instant \<times> bool) option"

datatype brk_event = Enter nat instant | Reject instant | Leave nat "go_error option"

inductive brk_step :: "int \<Rightarrow> duration \<Rightarrow> brk_sys \<Rightarrow> brk_event \<Rightarrow> brk_sys \<Rightarrow> bool"
  for mf :: int and ra :: duration where
  enter: "sys_calls s i = None \<Longrightarrow> breaker_enter ra now (sys_breaker s) = (True, b) \<Longrightarrow>
    brk_step mf ra s (Enter i now) (s\<lparr>sys_breaker := b,
      sys_calls := (sys_calls s)(i \<mapsto> (now, cb_state b = circuitHalfOpen))\<rparr>)"
| reject: "breaker_enter ra now (sys_breaker s) = (False, b) \<Longrightarrow>
    brk_step mf ra s (Reject now) (s\<lparr>sys_breaker := b\<rparr>)"
| leave: "sys_calls s i = Some (now, trial) \<Longrightarrow>
    brk_step mf ra s (Leave i err) (s\<lparr>sys_breaker := breaker_leave mf now err (sys_breaker s),
      sys_calls := (sys_calls s)(i := None)\<rparr>)"

inductive_cases brk_enterE: "brk_step mf ra s (Enter i now) t"
inductive_cases brk_leaveE: "brk_step mf ra s (Leave i err) t"
inductive_simps brk_step_simps: "brk_step mf ra s (Enter i now) t" "brk_step mf ra s (Leave i err) t"

definition brk_init :: brk_sys where
  "brk_init = \<lparr>sys_breaker = new_breaker, sys_calls = (\<lambda>_. None)\<rparr>"

inductive brk_run :: "int \<Rightarrow> duration \<Rightarrow> brk_event list \<Rightarrow> brk_sys \<Rightarrow> bool"
  for mf :: int and ra :: duration where
  start: "brk_run mf ra [] brk_init"
| extend: "brk_run mf ra evs s \<Longrightarrow> brk_step mf ra s ev t \<Longrightarrow> brk_run mf ra (evs @ [ev]) t"

definition brk_inv :: "int \<Rightarrow> brk_sys \<Rightarrow> bool" where
  "brk_inv mf s \<longleftrightarrow> breaker_wf mf (sys_breaker s) \<and>
     (cb_state (sys_breaker s) = circuitHalfOpen \<longrightarrow> (\<exists>i now. sys_calls s i = Some (now, True)))"

lemma brk_step_inv:
  assumes "brk_step mf ra s ev t" "brk_inv mf s" "1 \<le> mf" "in64 mf"
  shows "brk_inv mf t"
  using assms(1)
proof cases
  case (enter i now b)
  with assms(2) breaker_wf_enter [of mf "sys_breaker s" ra now] show ?thesis
    by (auto simp: brk_inv_def intro!: exI [of _ i])
next
  case (reject now b)
  with assms(2) breaker_enter_rejected [of ra now "sys_breaker s"] show ?thesis
    by (simp add: brk_inv_def)
next
  case (leave i now trial err)
  with assms breaker_wf_leave breaker_leave_state(1) show ?thesis
    by (simp add: brk_inv_def)
qed

text \<open>The two steps that change something, as functions, to build concrete runs.\<close>

definition do_enter :: "duration \<Rightarrow> nat \<Rightarrow> instant \<Rightarrow> brk_sys \<Rightarrow> brk_sys" where
  "do_enter ra i now s =
     (let b = snd (breaker_enter ra now (sys_breaker s))
      in s\<lparr>sys_breaker := b,
           sys_calls := (sys_calls s)(i \<mapsto> (now, cb_state b = circuitHalfOpen))\<rparr>)"

definition do_leave :: "int \<Rightarrow> nat \<Rightarrow> go_error option \<Rightarrow> brk_sys \<Rightarrow> brk_sys" where
  "do_leave mf i err s =
     s\<lparr>sys_breaker := breaker_leave mf (fst (the (sys_calls s i))) err (sys_breaker s),
       sys_calls := (sys_calls s)(i := None)\<rparr>"

lemma step_enter: "sys_calls s i = None \<Longrightarrow> fst (breaker_enter ra now (sys_breaker s)) \<Longrightarrow>
    brk_step mf ra s (Enter i now) (do_enter ra i now s)"
  unfolding do_enter_def Let_def by (rule brk_step.enter) (auto simp: prod_eq_iff)

lemma step_leave: "sys_calls s i = Some (now, trial) \<Longrightarrow>
    brk_step mf ra s (Leave i err) (do_leave mf i err s)"
  using brk_step.leave [of s i now trial mf ra err] by (simp add: do_leave_def)

lemmas brk_eval = brk_init_def new_breaker_def do_enter_def do_leave_def breaker_enter_def
  breaker_leave_def Let_def time_Sub_def wrap64_def

definition ab :: go_error where "ab = ErrText ''down''"

text \<open>
  C32: However the calls overlap: the half-open state and the in-flight flag always go
  together, and then some trial call is running whose end will leave that state (the
  breaker cannot get stuck half-open); and a closed breaker never holds \<open>maxFails\<close>
  failures.
\<close>

theorem breaker_concurrent_invariant:
  assumes "brk_run mf ra evs s" "1 \<le> mf" "in64 mf"
  shows "(cb_state (sys_breaker s) = circuitHalfOpen \<longleftrightarrow> cb_halfOpenFlight (sys_breaker s)) \<and>
    (cb_state (sys_breaker s) = circuitHalfOpen \<longrightarrow>
      (\<exists>i now. sys_calls s i = Some (now, True) \<and>
        (\<forall>err t. brk_step mf ra s (Leave i err) t \<longrightarrow>
          cb_state (sys_breaker t) \<noteq> circuitHalfOpen))) \<and>
    (cb_state (sys_breaker s) = circuitClosed \<longrightarrow>
      0 \<le> cb_failures (sys_breaker s) \<and> cb_failures (sys_breaker s) < mf)"
proof -
  from assms(1) have "brk_inv mf s"
  proof induction
    case start
    from assms(2) show ?case by (simp add: brk_inv_def brk_init_def breaker_wf_new) (simp add: new_breaker_def)
  next
    case (extend evs s ev t)
    with assms(2,3) show ?case by (blast intro: brk_step_inv)
  qed
  then show ?thesis
    by (auto simp: brk_inv_def breaker_wf_def brk_step_simps breaker_leave_state)
qed

theorem breaker_concurrent_invariant_witness:
  "brk_run 1 1000 [Enter 0 0, Leave 0 (Some ab), Enter 1 2000]
     (do_enter 1000 1 2000 (do_leave 1 0 (Some ab) (do_enter 1000 0 0 brk_init))) \<and>
   cb_halfOpenFlight (sys_breaker
     (do_enter 1000 1 2000 (do_leave 1 0 (Some ab) (do_enter 1000 0 0 brk_init))))"
proof -
  let ?s1 = "do_enter 1000 0 0 brk_init" let ?s2 = "do_leave 1 0 (Some ab) ?s1"
  let ?s3 = "do_enter 1000 1 2000 ?s2"
  have "brk_run 1 1000 ([] @ [Enter 0 0]) ?s1"
    by (rule brk_run.extend [OF brk_run.start step_enter]) (simp_all add: brk_eval)
  then have "brk_run 1 1000 (([] @ [Enter 0 0]) @ [Leave 0 (Some ab)]) ?s2"
    by (rule brk_run.extend [OF _ step_leave [of _ _ 0 False]]) (simp add: brk_eval)
  then have "brk_run 1 1000 ((([] @ [Enter 0 0]) @ [Leave 0 (Some ab)]) @ [Enter 1 2000]) ?s3"
    by (rule brk_run.extend [OF _ step_enter]) (simp_all add: brk_eval)
  then have run: "brk_run 1 1000 [Enter 0 0, Leave 0 (Some ab), Enter 1 2000] ?s3" by simp
  have "cb_state (sys_breaker ?s3) = circuitHalfOpen" by (simp add: brk_eval)
  with breaker_concurrent_invariant [OF run] run show ?thesis by (simp add: in64_def)
qed

text \<open>
  C34: Without calmness the half-open state lets more than one trial through. With
  \<open>maxFails\<close> 1: calls 0 and 1 enter a closed breaker; 1 fails and opens it; after
  \<open>resetAfter\<close> call 2 enters as the trial; call 0 then fails late, which clears the
  trial's flag and opens the breaker again with call 0's own old instant, so call 3 is
  let through as a second trial while call 2 still runs.
\<close>

theorem breaker_two_trials:
  "\<exists>s. brk_run 1 1000 [Enter 0 0, Enter 1 0, Leave 1 (Some ab), Enter 2 1000, Leave 0 (Some ab),
        Enter 3 1000] s \<and>
      sys_calls s 2 = Some (1000, True) \<and> sys_calls s 3 = Some (1000, True)"
proof -
  let ?s1 = "do_enter 1000 0 0 brk_init" let ?s2 = "do_enter 1000 1 0 ?s1"
  let ?s3 = "do_leave 1 1 (Some ab) ?s2" let ?s4 = "do_enter 1000 2 1000 ?s3"
  let ?s5 = "do_leave 1 0 (Some ab) ?s4" let ?s6 = "do_enter 1000 3 1000 ?s5"
  have "brk_run 1 1000 ([] @ [Enter 0 0]) ?s1"
    by (rule brk_run.extend [OF brk_run.start step_enter]) (simp_all add: brk_eval)
  then have "brk_run 1 1000 (([] @ [Enter 0 0]) @ [Enter 1 0]) ?s2"
    by (rule brk_run.extend [OF _ step_enter]) (simp_all add: brk_eval)
  then have "brk_run 1 1000 ((([] @ [Enter 0 0]) @ [Enter 1 0]) @ [Leave 1 (Some ab)]) ?s3"
    by (rule brk_run.extend [OF _ step_leave [of _ _ 0 False]]) (simp add: brk_eval)
  then have "brk_run 1 1000 (((([] @ [Enter 0 0]) @ [Enter 1 0]) @ [Leave 1 (Some ab)]) @
      [Enter 2 1000]) ?s4"
    by (rule brk_run.extend [OF _ step_enter]) (simp_all add: brk_eval)
  then have "brk_run 1 1000 ((((([] @ [Enter 0 0]) @ [Enter 1 0]) @ [Leave 1 (Some ab)]) @
      [Enter 2 1000]) @ [Leave 0 (Some ab)]) ?s5"
    by (rule brk_run.extend [OF _ step_leave [of _ _ 0 False]]) (simp add: brk_eval)
  then have "brk_run 1 1000 (((((([] @ [Enter 0 0]) @ [Enter 1 0]) @ [Leave 1 (Some ab)]) @
      [Enter 2 1000]) @ [Leave 0 (Some ab)]) @ [Enter 3 1000]) ?s6"
    by (rule brk_run.extend [OF _ step_enter]) (simp_all add: brk_eval)
  moreover have "sys_calls ?s6 2 = Some (1000, True) \<and> sys_calls ?s6 3 = Some (1000, True)"
    by (simp add: brk_eval)
  ultimately show ?thesis by (intro exI [of _ ?s6]) simp
qed

text \<open>
  A run is calm when no call admitted before the trial ends while the trial is running.
\<close>

fun calm :: "brk_sys \<Rightarrow> brk_event \<Rightarrow> bool" where
  "calm s (Leave i err) \<longleftrightarrow> (cb_state (sys_breaker s) = circuitHalfOpen \<longrightarrow>
     (\<exists>now. sys_calls s i = Some (now, True)))"
| "calm s _ \<longleftrightarrow> True"

inductive calm_run :: "int \<Rightarrow> duration \<Rightarrow> brk_sys \<Rightarrow> bool"
  for mf :: int and ra :: duration where
  calm_start: "calm_run mf ra brk_init"
| calm_extend: "calm_run mf ra s \<Longrightarrow> brk_step mf ra s ev t \<Longrightarrow> calm s ev \<Longrightarrow> calm_run mf ra t"

definition one_trial :: "brk_sys \<Rightarrow> bool" where
  "one_trial s \<longleftrightarrow>
     (cb_state (sys_breaker s) = circuitHalfOpen \<longleftrightarrow> (\<exists>i now. sys_calls s i = Some (now, True))) \<and>
     (\<forall>i j n m. sys_calls s i = Some (n, True) \<longrightarrow> sys_calls s j = Some (m, True) \<longrightarrow> i = j)"

lemma one_trial_step:
  assumes "brk_step mf ra s ev t" "calm s ev" "one_trial s" "brk_inv mf s"
  shows "one_trial t"
  using assms(1)
proof cases
  case (enter i now b)
  show ?thesis
  proof (cases "cb_state b = circuitHalfOpen")
    case True
    with enter(4) assms(4) have "cb_state (sys_breaker s) \<noteq> circuitHalfOpen"
      by (auto simp: breaker_enter_def brk_inv_def breaker_wf_def split: if_splits)
    with assms(3) have none: "\<not> (\<exists>j now. sys_calls s j = Some (now, True))"
      by (auto simp: one_trial_def)
    with True enter(2) show ?thesis by (auto simp: one_trial_def)
  next
    case False
    with enter(4) have "cb_state (sys_breaker s) \<noteq> circuitHalfOpen"
      by (auto simp: breaker_enter_def split: circuitState.splits if_splits)
    with False enter(2,3) assms(3) show ?thesis by (auto simp: one_trial_def)
  qed
next
  case (reject now b)
  with assms(3) breaker_enter_rejected [of ra now "sys_breaker s"] show ?thesis
    by (simp add: one_trial_def)
next
  case (leave i now trial err)
  have "\<not> (\<exists>j now. j \<noteq> i \<and> sys_calls s j = Some (now, True))"
    using assms(2,3) leave by (auto simp: one_trial_def)
  then show ?thesis
    using leave by (auto simp: one_trial_def breaker_leave_state)
qed

text \<open>
  C33: In a calm run at most one trial call is in flight, and exactly when the breaker is
  half-open.
\<close>

theorem breaker_one_trial_when_calm:
  assumes "calm_run mf ra s" "1 \<le> mf" "in64 mf"
  shows "(cb_state (sys_breaker s) = circuitHalfOpen \<longleftrightarrow> (\<exists>i now. sys_calls s i = Some (now, True))) \<and>
    (sys_calls s i = Some (n, True) \<longrightarrow> sys_calls s j = Some (m, True) \<longrightarrow> i = j)"
proof -
  from assms(1) have "one_trial s \<and> brk_inv mf s"
  proof induction
    case calm_start
    from assms(2) show ?case
      by (simp add: brk_inv_def one_trial_def brk_init_def breaker_wf_new) (simp add: new_breaker_def)
  next
    case (calm_extend s ev t)
    with assms(2,3) show ?case by (blast intro: brk_step_inv one_trial_step)
  qed
  then show ?thesis unfolding one_trial_def by blast
qed

theorem breaker_one_trial_when_calm_witness:
  "calm_run 1 1000 (do_enter 1000 0 0 brk_init) \<and>
   cb_state (sys_breaker (do_enter 1000 0 0 brk_init)) \<noteq> circuitHalfOpen"
proof -
  have run: "calm_run 1 1000 (do_enter 1000 0 0 brk_init)"
    by (rule calm_run.calm_extend [OF calm_run.calm_start step_enter]) (simp_all add: brk_eval)
  have "\<not> (\<exists>i now. sys_calls (do_enter 1000 0 0 brk_init) i = Some (now, True))"
    by (simp add: brk_eval)
  with breaker_one_trial_when_calm [OF run] run show ?thesis by (simp add: in64_def)
qed

end
