(* ===== verification/Limiter.thy ===== *)
theory Limiter
  imports Retry
begin

text \<open>
  \<open>RateLimiter\<close> of internal/orders/reliability.go, a token bucket: the constructor, the
  refill, the critical section of one round of \<open>Wait\<close>, and the loop of \<open>Wait\<close>, which
  may in principle spin for ever and is a partial function. The lemmas show that the
  bucket never overfills, how many tokens any run of rounds can grant, when a round
  grants one, and that \<open>Wait\<close> returns when time passes.
\<close>

section \<open>The model\<close>

record limiter =
  rl_tokens :: int
  rl_last :: instant

record 'w RateLimiter =
  rl_rate :: duration
  rl_burst :: int
  rl_now :: "('w, instant) prim"
  rl_sleep :: "'w ctx \<Rightarrow> duration \<Rightarrow> ('w, go_error option) act"
  rl_onWait :: "(duration \<Rightarrow> 'w \<Rightarrow> 'w) option"
  rl_ptr :: "('w, limiter) ref"

definition NewRateLimiterWithHook ::
  "'w runtime \<Rightarrow> ('w, limiter) ref \<Rightarrow> duration \<Rightarrow> int \<Rightarrow> (duration \<Rightarrow> 'w \<Rightarrow> 'w) option \<Rightarrow>
   ('w, 'w RateLimiter) prim" where
  "NewRateLimiterWithHook rt ptr rate burst onWait w =
     (let limiter = \<lparr>rl_rate = rate, rl_burst = burst, rl_now = time_Now rt,
            rl_sleep = sleepWithContext rt, rl_onWait = onWait, rl_ptr = ptr\<rparr>;
          (last, w) = rl_now limiter w
      in (limiter, wr ptr \<lparr>rl_tokens = burst, rl_last = last\<rparr> w))"

definition NewRateLimiter ::
  "'w runtime \<Rightarrow> ('w, limiter) ref \<Rightarrow> duration \<Rightarrow> int \<Rightarrow> ('w, 'w RateLimiter) prim" where
  "NewRateLimiter rt ptr rate burst = NewRateLimiterWithHook rt ptr rate burst None"

definition refill :: "duration \<Rightarrow> int \<Rightarrow> instant \<Rightarrow> limiter \<Rightarrow> limiter" where
  "refill rate burst now r =
     (if rate \<le> 0 then r\<lparr>rl_tokens := burst, rl_last := now\<rparr>
      else let elapsed = time_Sub now (rl_last r)
        in if elapsed < rate then r
        else let add = elapsed sdiv rate
          in if add \<le> 0 then r
          else let tokens = wrap64 (rl_tokens r + add);
                   tokens = (if tokens > burst then burst else tokens)
            in r\<lparr>rl_tokens := tokens, rl_last := rl_last r + wrap64 (add * rate)\<rparr>)"

text \<open>
  One round under the lock: \<^const>\<open>None\<close> when a token was taken, otherwise the time to
  wait before the next round.
\<close>

definition limiter_round :: "duration \<Rightarrow> int \<Rightarrow> instant \<Rightarrow> limiter \<Rightarrow> duration option \<times> limiter" where
  "limiter_round rate burst now r =
     (let r = refill rate burst now r
      in if rl_tokens r > 0 then (None, r\<lparr>rl_tokens := rl_tokens r - 1\<rparr>)
         else (Some (wrap64 (rate - time_Sub now (rl_last r))), r))"

partial_function (option) wait_loop ::
  "'w RateLimiter \<Rightarrow> 'w ctx \<Rightarrow> 'w \<Rightarrow> (go_error option \<times> 'w) option" where
  "wait_loop r ctx w =
     (case ctx w of
        (Some err, w) \<Rightarrow> Some (Some err, w)
      | (None, w) \<Rightarrow>
          (case rl_now r w of (now, w) \<Rightarrow>
            (case limiter_round (rl_rate r) (rl_burst r) now (rd (rl_ptr r) w) of
               (None, l) \<Rightarrow> Some (None, wr (rl_ptr r) l w)
             | (Some wait, l) \<Rightarrow>
                 if wait \<le> 0 then wait_loop r ctx (wr (rl_ptr r) l w)
                 else do {
                   (serr, w) \<leftarrow> rl_sleep r ctx wait
                     (case rl_onWait r of None \<Rightarrow> wr (rl_ptr r) l w
                      | Some hook \<Rightarrow> hook wait (wr (rl_ptr r) l w));
                   case serr of
                     Some err \<Rightarrow> Some (Some err, w)
                   | None \<Rightarrow> wait_loop r ctx w
                 })))"

declare wait_loop.simps [code]

definition Wait :: "'w RateLimiter option \<Rightarrow> 'w ctx option \<Rightarrow> ('w, go_error option) act" where
  "Wait r ctx w =
     (if (case r of None \<Rightarrow> True | Some r \<Rightarrow> rl_rate r \<le> 0 \<or> rl_burst r \<le> 0) then
        (case ctx of None \<Rightarrow> Some (None, w) | Some c \<Rightarrow> Some (c w))
      else wait_loop (the r) (ctx_or_background ctx) w)"

section \<open>The bucket\<close>

definition bucket_wf :: "int \<Rightarrow> limiter \<Rightarrow> bool" where
  "bucket_wf burst l \<longleftrightarrow> 0 \<le> rl_tokens l \<and> rl_tokens l \<le> burst"

text \<open>
  The sum of a full bucket and the tokens of the longest measurable time fits 64 bits:
  for a rate of 2ns or more, every burst up to \<open>2^62\<close>.
\<close>

definition sane_rate :: "duration \<Rightarrow> int \<Rightarrow> bool" where
  "sane_rate rate burst \<longleftrightarrow> 0 < rate \<and> rate \<le> int64_max \<and> 1 \<le> burst \<and>
     burst + int64_max div rate \<le> int64_max"

lemma refill_cases:
  assumes "0 < rate"
  obtains (early) "time_Sub now (rl_last r) < rate" "refill rate burst now r = r"
  | (filled) add where "rate \<le> time_Sub now (rl_last r)" "add = time_Sub now (rl_last r) div rate"
      "1 \<le> add" "add \<le> int64_max div rate" "rl_last r + add * rate \<le> now"
      "refill rate burst now r = r\<lparr>rl_tokens := min burst (wrap64 (rl_tokens r + add)),
         rl_last := rl_last r + add * rate\<rparr>"
proof (cases "time_Sub now (rl_last r) < rate")
  case True
  with assms that(1) show thesis by (simp add: refill_def)
next
  case False
  let ?e = "time_Sub now (rl_last r)" let ?a = "?e div rate"
  have e: "rate \<le> ?e" "?e \<le> int64_max" using False time_Sub_in64 [of now "rl_last r"]
    by (simp_all add: in64_def)
  have pos: "1 \<le> ?a" using e assms by (simp add: pos_imp_zdiv_pos_iff int_one_le_iff_zero_less)
  have "?a * rate = ?e - ?e mod rate" by (simp add: minus_mod_eq_div_mult)
  moreover have "0 \<le> ?e mod rate" using assms by simp
  ultimately have mult: "?a * rate \<le> ?e" by simp
  have le: "?a \<le> int64_max div rate" using e(2) assms by (rule zdiv_mono1)
  have "0 \<le> ?a * rate" using pos assms by simp
  with mult e have "in64 (?a * rate)" by (simp add: in64_def)
  moreover have "?a * rate \<le> now - rl_last r"
    using time_Sub_le [OF _ mult] \<open>0 \<le> ?a * rate\<close> by blast
  moreover have "?e sdiv rate = ?a" using e assms by (simp add: sdiv_nonneg)
  ultimately show thesis
    using False assms pos le e
    by (intro that(2) [of ?a]) (auto simp: refill_def Let_def wrap64_id min_def)
qed

lemma refill_wf:
  assumes "sane_rate rate burst" "bucket_wf burst l"
  shows "bucket_wf burst (refill rate burst now l)"
proof -
  have "0 < rate" using assms(1) by (simp add: sane_rate_def)
  then show ?thesis
  proof (cases rule: refill_cases [of rate now l burst])
    case early
    with assms show ?thesis by simp
  next
    case (filled add)
    have "in64 (rl_tokens l + add)" using assms filled by (simp add: sane_rate_def bucket_wf_def in64_def)
    with assms filled show ?thesis by (simp add: bucket_wf_def wrap64_id sane_rate_def)
  qed
qed

lemma limiter_round_wf:
  "sane_rate rate burst \<Longrightarrow> bucket_wf burst l \<Longrightarrow> bucket_wf burst (snd (limiter_round rate burst now l))"
  using refill_wf [of rate burst l now]
  by (simp add: limiter_round_def Let_def bucket_wf_def)

text \<open>A round grants a token exactly when one is left or a full interval has passed.\<close>

lemma limiter_round_grants_iff:
  assumes "sane_rate rate burst" "bucket_wf burst l"
  shows "fst (limiter_round rate burst now l) = None \<longleftrightarrow>
    0 < rl_tokens l \<or> rate \<le> time_Sub now (rl_last l)"
proof -
  have "0 < rate" using assms(1) by (simp add: sane_rate_def)
  then show ?thesis
  proof (cases rule: refill_cases [of rate now l burst])
    case early
    with assms show ?thesis by (simp add: limiter_round_def)
  next
    case (filled add)
    have "in64 (rl_tokens l + add)" using assms filled by (simp add: sane_rate_def bucket_wf_def in64_def)
    with assms filled show ?thesis
      by (simp add: bucket_wf_def wrap64_id sane_rate_def limiter_round_def Let_def)
  qed
qed

lemma limiter_round_wait:
  assumes "sane_rate rate burst" "bucket_wf burst l" "rl_last l \<le> now"
    and "limiter_round rate burst now l = (Some d, l')"
  shows "l' = l \<and> 0 < d \<and> d \<le> rate \<and> rl_last l + rate = now + d \<and> rl_tokens l = 0"
proof -
  have rate: "0 < rate" "rate \<le> int64_max" using assms(1) by (simp_all add: sane_rate_def)
  have tok: "rl_tokens l = 0" and early: "time_Sub now (rl_last l) < rate"
    using limiter_round_grants_iff [OF assms(1,2), of now] assms(2,4) by (auto simp: bucket_wf_def)
  from early rate have l': "refill rate burst now l = l" by (simp add: refill_def)
  have sub: "time_Sub now (rl_last l) = now - rl_last l"
  proof -
    have "now - rl_last l < rate"
      using early time_Sub_ge [of rate now "rl_last l"] rate by fastforce
    with rate assms(3) show ?thesis by (intro time_Sub_id) (simp add: in64_def)
  qed
  with rate early assms(3) have "in64 (rate - time_Sub now (rl_last l))" by (simp add: in64_def)
  with assms(3,4) l' tok sub early show ?thesis
    by (auto simp: limiter_round_def wrap64_id)
qed

lemma limiter_round_last: "0 < rate \<Longrightarrow> rl_last l \<le> now \<Longrightarrow>
    rl_last l \<le> rl_last (snd (limiter_round rate burst now l)) \<and>
    rl_last (snd (limiter_round rate burst now l)) \<le> now"
  by (cases rule: refill_cases [of rate now l burst])
    (auto simp: limiter_round_def Let_def mult_nonneg_nonneg intro: order_trans)

section \<open>How much a limiter lets through\<close>

lemma wrap64_le: "int64_min \<le> x \<Longrightarrow> wrap64 x \<le> x"
  using zmod_le_nonneg_dividend [of "x + 2 ^ 63" "2 ^ 64"] by (simp add: wrap64_def)

text \<open>A run of rounds at the given clock readings: the number of tokens granted.\<close>

fun limiter_rounds :: "duration \<Rightarrow> int \<Rightarrow> instant list \<Rightarrow> limiter \<Rightarrow> nat \<times> limiter" where
  "limiter_rounds rate burst [] l = (0, l)"
| "limiter_rounds rate burst (now # ts) l =
     (case limiter_round rate burst now l of
        (d, l) \<Rightarrow> (case limiter_rounds rate burst ts l of
          (n, l) \<Rightarrow> (if d = None then Suc n else n, l)))"

lemma limiter_round_budget:
  assumes "0 < rate" "0 \<le> burst" "int64_min \<le> rl_tokens l" "now \<le> T" "rl_last l \<le> T"
    and "limiter_round rate burst now l = (d, l')"
  shows "(rl_tokens l' + (if d = None then 1 else 0)) * rate + (T - rl_last l') \<le>
      rl_tokens l * rate + (T - rl_last l)"
    and "int64_min \<le> rl_tokens l'" and "rl_last l' \<le> T"
proof -
  let ?l = "refill rate burst now l"
  have l': "rl_last l' = rl_last ?l" "rl_tokens l' + (if d = None then 1 else 0) = rl_tokens ?l"
    "int64_min \<le> rl_tokens ?l \<Longrightarrow> int64_min \<le> rl_tokens l'"
    using assms(6) by (auto simp: limiter_round_def Let_def split: if_splits)
  have "rl_tokens ?l * rate + (T - rl_last ?l) \<le> rl_tokens l * rate + (T - rl_last l) \<and>
      int64_min \<le> rl_tokens ?l \<and> rl_last ?l \<le> T"
    using assms(1)
  proof (cases rule: refill_cases [of rate now l burst])
    case early
    with assms show ?thesis by simp
  next
    case (filled add)
    have "rl_tokens ?l \<le> rl_tokens l + add"
      using filled wrap64_le [of "rl_tokens l + add"] assms(3) by simp
    with assms(1) have "rl_tokens ?l * rate \<le> (rl_tokens l + add) * rate"
      by (intro mult_right_mono) auto
    then have "rl_tokens ?l * rate \<le> rl_tokens l * rate + add * rate"
      by (simp add: distrib_right)
    moreover have "int64_min \<le> rl_tokens ?l"
      using filled wrap64_in64 [of "rl_tokens l + add"] assms(2) by (auto simp: in64_def)
    ultimately show ?thesis using filled assms(4) by simp
  qed
  with l' show "(rl_tokens l' + (if d = None then 1 else 0)) * rate + (T - rl_last l') \<le>
      rl_tokens l * rate + (T - rl_last l)"
    and "int64_min \<le> rl_tokens l'" and "rl_last l' \<le> T" by auto
qed

lemma limiter_rounds_budget:
  assumes "0 < rate" "0 \<le> burst" "int64_min \<le> rl_tokens l" "\<forall>t \<in> set ts. t \<le> T" "rl_last l \<le> T"
    and "limiter_rounds rate burst ts l = (n, l')"
  shows "(rl_tokens l' + int n) * rate + (T - rl_last l') \<le> rl_tokens l * rate + (T - rl_last l) \<and>
    rl_last l' \<le> T"
  using assms(3-6)
proof (induction ts arbitrary: l n)
  case Nil
  then show ?case by simp
next
  case (Cons now ts)
  obtain d l1 where r: "limiter_round rate burst now l = (d, l1)"
    by (cases "limiter_round rate burst now l")
  obtain k where rs: "limiter_rounds rate burst ts l1 = (k, l')" and n: "n = (if d = None then Suc k else k)"
    using Cons.prems(4) r by (auto split: prod.splits)
  have now: "now \<le> T" using Cons.prems(2) by simp
  note step = limiter_round_budget [OF assms(1,2) Cons.prems(1) now Cons.prems(3) r]
  from Cons.IH [OF step(2) _ step(3) rs] Cons.prems(2)
  have "(rl_tokens l' + int k) * rate + (T - rl_last l') \<le> rl_tokens l1 * rate + (T - rl_last l1)
      \<and> rl_last l' \<le> T" by simp
  with step(1) n show ?case by (auto simp: distrib_right)
qed

text \<open>
  C11: Rate limit: from a bucket last refilled at \<open>last\<close>, however many rounds are run, at
  whatever clock readings up to \<open>T\<close> (the clock may even step back in between), the
  number of calls let through is at most the tokens in the bucket plus one for every full
  \<open>rate\<close> interval from \<open>last\<close> to \<open>T\<close>.
\<close>

theorem limiter_grants_bounded:
  assumes "sane_rate rate burst" "bucket_wf burst l" "\<forall>t \<in> set ts. t \<le> T" "rl_last l \<le> T"
  shows "int (fst (limiter_rounds rate burst ts l)) \<le> rl_tokens l + (T - rl_last l) div rate \<and>
    bucket_wf burst (snd (limiter_rounds rate burst ts l))"
proof
  have rate: "0 < rate" "0 \<le> burst" using assms(1) by (simp_all add: sane_rate_def)
  obtain n l' where r: "limiter_rounds rate burst ts l = (n, l')"
    by (cases "limiter_rounds rate burst ts l")
  show wf: "bucket_wf burst (snd (limiter_rounds rate burst ts l))"
    using assms(2)
  proof (induction ts arbitrary: l)
    case (Cons now ts)
    from Cons.IH [OF limiter_round_wf [OF assms(1) Cons.prems, of now]] show ?case
      by (auto split: prod.splits)
  qed simp
  have "int64_min \<le> rl_tokens l" using assms(2) by (simp add: bucket_wf_def)
  from limiter_rounds_budget [OF rate this assms(3,4) r] wf r
  have "(rl_tokens l' + int n) * rate \<le> rl_tokens l * rate + (T - rl_last l)" "0 \<le> rl_tokens l'"
    by (auto simp: bucket_wf_def)
  moreover from this(2) rate have "int n * rate \<le> (rl_tokens l' + int n) * rate"
    by (intro mult_right_mono) auto
  ultimately have "int n * rate \<le> rl_tokens l * rate + (T - rl_last l)" by simp
  then have "int n * rate div rate \<le> (rl_tokens l * rate + (T - rl_last l)) div rate"
    using rate by (intro zdiv_mono1) auto
  with rate r show "int (fst (limiter_rounds rate burst ts l)) \<le> rl_tokens l + (T - rl_last l) div rate"
    by simp
qed

theorem limiter_grants_bounded_witness:
  "int (fst (limiter_rounds 100 2 [0, 1, 2, 3, 250] \<lparr>rl_tokens = 2, rl_last = 0\<rparr>)) \<le> 2 + 250 div 100 \<and>
   fst (limiter_rounds 100 2 [0, 1, 2, 3, 250] \<lparr>rl_tokens = 2, rl_last = 0\<rparr>) = 3"
proof -
  have "int (fst (limiter_rounds 100 2 [0, 1, 2, 3, 250] \<lparr>rl_tokens = 2, rl_last = 0\<rparr>)) \<le>
      rl_tokens \<lparr>rl_tokens = 2, rl_last = 0\<rparr> + (250 - rl_last \<lparr>rl_tokens = 2, rl_last = 0\<rparr>) div 100"
    by (rule limiter_grants_bounded [THEN conjunct1, of 100 2])
      (auto simp: sane_rate_def bucket_wf_def)
  moreover have "fst (limiter_rounds 100 2 [0, 1, 2, 3, 250] \<lparr>rl_tokens = 2, rl_last = 0\<rparr>) = 3"
    by (simp add: limiter_round_def refill_def time_Sub_def wrap64_def Let_def)
  ultimately show ?thesis by simp
qed

text \<open>
  C29: And no less. A round first adds a token for every full interval since the last refill, up
  to the burst; it grants one exactly when there is one then, takes it and moves the refill
  instant on by those intervals; otherwise it leaves the bucket alone and asks for exactly the
  rest of the running interval.
\<close>

theorem limiter_round_exact:
  assumes "sane_rate rate burst" "bucket_wf burst l" "rl_last l \<le> now"
    and "add = time_Sub now (rl_last l) div rate" "avail = min burst (rl_tokens l + add)"
  shows "limiter_round rate burst now l =
    (if 0 < avail then (None, l\<lparr>rl_tokens := avail - 1, rl_last := rl_last l + add * rate\<rparr>)
     else (Some (rl_last l + rate - now), l))"
proof -
  have rate: "0 < rate" using assms(1) by (simp add: sane_rate_def)
  then show ?thesis
  proof (cases rule: refill_cases [of rate now l burst])
    case early
    have "0 \<le> time_Sub now (rl_last l)" using assms(3) by (simp add: time_Sub_def)
    with early have add: "add = 0" by (simp add: assms(4))
    with assms(2,5) have av: "avail = rl_tokens l" by (simp add: bucket_wf_def)
    show ?thesis
    proof (cases "0 < avail")
      case True
      with early av add show ?thesis by (simp add: limiter_round_def)
    next
      case False
      with early av obtain d where r: "limiter_round rate burst now l = (Some d, l)" by (simp add: limiter_round_def)
      from limiter_round_wait [OF assms(1-3) this] False r show ?thesis by simp
    qed
  next
    case (filled n)
    have "in64 (rl_tokens l + n)" using assms filled by (simp add: sane_rate_def bucket_wf_def in64_def)
    moreover have "0 < avail" using filled(2,3) assms(1,2,4,5) by (simp add: sane_rate_def bucket_wf_def)
    ultimately show ?thesis
      using filled assms(4,5) by (simp add: limiter_round_def Let_def wrap64_id)
  qed
qed

theorem limiter_round_exact_witness:
  "limiter_round 100 2 30 \<lparr>rl_tokens = 0, rl_last = 0\<rparr> = (Some 70, \<lparr>rl_tokens = 0, rl_last = 0\<rparr>) \<and>
   limiter_round 100 2 330 \<lparr>rl_tokens = 0, rl_last = 0\<rparr> = (None, \<lparr>rl_tokens = 1, rl_last = 300\<rparr>)"
  using limiter_round_exact [of 100 2 "\<lparr>rl_tokens = 0, rl_last = 0\<rparr>" 30]
    limiter_round_exact [of 100 2 "\<lparr>rl_tokens = 0, rl_last = 0\<rparr>" 330]
  by (simp add: sane_rate_def bucket_wf_def time_Sub_def)

section \<open>Wait\<close>

text \<open>
  A limiter in an environment where time passes: the clock never steps back, a sleep that
  is not interrupted lasts at least as long as asked, sleeps end, and nothing but the
  limiter itself writes its bucket. \<open>trail\<close> records the readings of the clock, one in each
  round, and the sleeps.
\<close>

datatype wait_step = Round | Slept duration

locale ticking_limiter = cell "rl_ptr r" for r :: "'w RateLimiter" +
  fixes ctx :: "'w ctx" and clk :: "'w \<Rightarrow> instant" and trail :: "'w \<Rightarrow> wait_step list"
  assumes sane: "sane_rate (rl_rate r) (rl_burst r)"
    and ctx_frame: "rd (rl_ptr r) (snd (ctx w)) = rd (rl_ptr r) w" "clk w \<le> clk (snd (ctx w))"
    and now_clk: "rl_now r w = (t, w') \<Longrightarrow> clk w \<le> t \<and> t \<le> clk w'"
    and now_frame: "rd (rl_ptr r) (snd (rl_now r w)) = rd (rl_ptr r) w"
    and wr_clk: "clk (wr (rl_ptr r) l w) = clk w"
    and hook_frame: "rl_onWait r = Some h \<Longrightarrow> rd (rl_ptr r) (h d w) = rd (rl_ptr r) w"
    and hook_clk: "rl_onWait r = Some h \<Longrightarrow> clk w \<le> clk (h d w)"
    and sleep_returns: "rl_sleep r ctx d w \<noteq> None"
    and sleep_frame: "rl_sleep r ctx d w = Some (e, w') \<Longrightarrow> rd (rl_ptr r) w' = rd (rl_ptr r) w"
    and sleep_clk: "rl_sleep r ctx d w = Some (None, w') \<Longrightarrow> clk w + d \<le> clk w'"
    and trail_kept: "trail (snd (ctx w)) = trail w" "trail (wr (rl_ptr r) l w) = trail w"
      "rl_onWait r = Some h \<Longrightarrow> trail (h d w) = trail w"
    and trail_round: "trail (snd (rl_now r w)) = trail w @ [Round]"
    and trail_slept: "rl_sleep r ctx d w = Some (e, w') \<Longrightarrow> trail w' = trail w @ [Slept d]"
begin

abbreviation bucket :: "'w \<Rightarrow> limiter" where
  "bucket v \<equiv> rd (rl_ptr r) v"

definition fit :: "'w \<Rightarrow> bool" where
  "fit v \<longleftrightarrow> bucket_wf (rl_burst r) (bucket v) \<and> rl_last (bucket v) \<le> clk v"

definition ends :: "'w \<Rightarrow> go_error option \<times> 'w \<Rightarrow> bool" where
  "ends v y \<longleftrightarrow> (case y of
      (None, v') \<Rightarrow> bucket_wf (rl_burst r) (bucket v') \<and> rl_last (bucket v') \<le> clk v'
    | (Some e, v') \<Rightarrow> (\<exists>u. ctx u = (Some e, v')) \<or>
        (\<exists>u d. 0 < d \<and> rl_sleep r ctx d u = Some (Some e, v')))"

lemma granted:
  assumes "fit v" "0 < rl_tokens (bucket v) \<or> rl_last (bucket v) + rl_rate r \<le> clk v"
  shows "\<exists>y k. wait_loop r ctx v = Some y \<and> ends v y \<and> k \<le> 1 \<and> (fst y = None \<longrightarrow> k = 1) \<and>
    trail (snd y) = trail v @ take k [Round]"
proof -
  obtain c v1 where c: "ctx v = (c, v1)" by (cases "ctx v")
  have l1: "trail v1 = trail v" using trail_kept(1) [of v] c by simp
  show ?thesis
  proof (cases c)
    case (Some e)
    with c l1 show ?thesis by (subst wait_loop.simps) (auto simp: ends_def intro!: exI [of _ 0])
  next
    case None
    obtain t v2 where n: "rl_now r v1 = (t, v2)" by (cases "rl_now r v1")
    have b: "bucket v2 = bucket v" using ctx_frame(1) [of v] now_frame [of v1] c n by simp
    have t: "clk v \<le> t" "t \<le> clk v2" using ctx_frame(2) [of v] now_clk [OF n] c by auto
    obtain d l where rd: "limiter_round (rl_rate r) (rl_burst r) t (bucket v2) = (d, l)"
      by (cases "limiter_round (rl_rate r) (rl_burst r) t (bucket v2)")
    have wf: "bucket_wf (rl_burst r) (bucket v)" "rl_last (bucket v) \<le> t"
      using assms(1) t by (auto simp: fit_def)
    have "rl_last (bucket v) + rl_rate r \<le> clk v \<Longrightarrow> rl_rate r \<le> time_Sub t (rl_last (bucket v))"
      using t sane by (intro time_Sub_ge) (auto simp: sane_rate_def)
    with assms(2) limiter_round_grants_iff [OF sane wf(1), of t] rd b have d: "d = None" by auto
    have "bucket_wf (rl_burst r) l" "rl_last l \<le> t"
      using limiter_round_wf [OF sane wf(1), of t] limiter_round_last [OF _ wf(2), of "rl_rate r" "rl_burst r"]
        rd b sane by (auto simp: sane_rate_def)
    moreover have "trail v2 = trail v @ [Round]" using trail_round [of v1] n l1 by simp
    ultimately show ?thesis using t d None c n rd
      by (subst wait_loop.simps) (auto simp: ends_def rd_wr wr_clk trail_kept(2) intro!: exI [of _ 1])
  qed
qed

lemma returns:
  assumes "fit v"
  shows "\<exists>y k d. wait_loop r ctx v = Some y \<and> ends v y \<and> k \<le> 3 \<and> (fst y = None \<longrightarrow> k = 1 \<or> k = 3) \<and>
    0 < d \<and> d \<le> rl_rate r \<and> trail (snd y) = trail v @ take k [Round, Slept d, Round]"
proof (cases "0 < rl_tokens (bucket v) \<or> rl_last (bucket v) + rl_rate r \<le> clk v")
  case True
  from granted [OF assms this] obtain y k where y: "wait_loop r ctx v = Some y" "ends v y" "k \<le> 1"
    "fst y = None \<longrightarrow> k = 1" "trail (snd y) = trail v @ take k [Round]" by (elim exE conjE) (rule that)
  then have "take k [Round, Slept 1, Round] = take k [Round]" by (cases k) auto
  with y sane show ?thesis by (intro exI [of _ y] exI [of _ k] exI [of _ 1]) (auto simp: sane_rate_def)
next
  case False
  obtain c v1 where c: "ctx v = (c, v1)" by (cases "ctx v")
  have l1: "trail v1 = trail v" using trail_kept(1) [of v] c by simp
  have one: "0 < (1::int)" "1 \<le> rl_rate r" using sane by (auto simp: sane_rate_def)
  show ?thesis
  proof (cases c)
    case (Some e)
    with c have "wait_loop r ctx v = Some (Some e, v1)" by (subst wait_loop.simps) simp
    with c l1 one Some show ?thesis
      by (intro exI [of _ "(Some e, v1)"] exI [of _ 0] exI [of _ 1]) (auto simp: ends_def)
  next
    case None
    obtain t v2 where n: "rl_now r v1 = (t, v2)" by (cases "rl_now r v1")
    have b: "bucket v2 = bucket v" using ctx_frame(1) [of v] now_frame [of v1] c n by simp
    have t: "clk v \<le> t" "t \<le> clk v2" using ctx_frame(2) [of v] now_clk [OF n] c by auto
    have wf: "bucket_wf (rl_burst r) (bucket v)" "rl_last (bucket v) \<le> t"
      using assms t by (auto simp: fit_def)
    have l2: "trail v2 = trail v @ [Round]" using trail_round [of v1] n l1 by simp
    obtain d l where rd: "limiter_round (rl_rate r) (rl_burst r) t (bucket v2) = (d, l)"
      by (cases "limiter_round (rl_rate r) (rl_burst r) t (bucket v2)")
    show ?thesis
    proof (cases d)
      case None
      have "bucket_wf (rl_burst r) l" "rl_last l \<le> t"
        using limiter_round_wf [OF sane wf(1), of t]
          limiter_round_last [OF _ wf(2), of "rl_rate r" "rl_burst r"] rd b sane
        by (auto simp: sane_rate_def)
      moreover have "wait_loop r ctx v = Some (None, wr (rl_ptr r) l v2)"
        using None \<open>c = None\<close> c n rd by (subst wait_loop.simps) simp
      ultimately show ?thesis using t l2 one
        by (intro exI [of _ "(None, wr (rl_ptr r) l v2)"] exI [of _ 1] exI [of _ 1])
          (auto simp: ends_def rd_wr wr_clk trail_kept(2))
    next
      case (Some wait)
      with limiter_round_wait [OF sane wf] rd b
      have w: "l = bucket v" "0 < wait" "wait \<le> rl_rate r" "rl_last (bucket v) + rl_rate r = t + wait"
        by auto
      define v3 where "v3 = (case rl_onWait r of None \<Rightarrow> wr (rl_ptr r) l v2
          | Some h \<Rightarrow> h wait (wr (rl_ptr r) l v2))"
      have v3: "bucket v3 = bucket v" "clk v2 \<le> clk v3"
        using hook_frame hook_clk [of _ "wr (rl_ptr r) l v2" wait] w(1)
        by (auto simp: v3_def rd_wr wr_clk split: option.splits)
      have l3: "trail v3 = trail v2"
        using trail_kept(2,3) by (auto simp: v3_def split: option.splits)
      obtain e v4 where s: "rl_sleep r ctx wait v3 = Some (e, v4)"
        using sleep_returns [of wait v3] by auto
      have l4: "trail v4 = trail v @ [Round, Slept wait]" using trail_slept [OF s] l3 l2 by simp
      have eq: "wait_loop r ctx v =
          (case e of Some err \<Rightarrow> Some (Some err, v4) | None \<Rightarrow> wait_loop r ctx v4)"
        using s Some \<open>c = None\<close> c n rd w(2)
        by (subst wait_loop.simps) (simp add: v3_def)
      show ?thesis
      proof (cases e)
        case (Some err)
        with eq s w(2,3) l4 show ?thesis
          by (intro exI [of _ "(Some err, v4)"] exI [of _ 2] exI [of _ wait]) (auto simp: ends_def)
      next
        case None
        with s sleep_clk sleep_frame have v4: "clk v3 + wait \<le> clk v4" "bucket v4 = bucket v3" by auto
        with v3 t w wf(1) sane have "fit v4" "rl_last (bucket v4) + rl_rate r \<le> clk v4"
          by (auto simp: fit_def sane_rate_def)
        from granted [OF this(1) disjI2 [OF this(2)]] obtain y k where y: "wait_loop r ctx v4 = Some y" "ends v4 y" "k \<le> 1"
          "fst y = None \<longrightarrow> k = 1" "trail (snd y) = trail v4 @ take k [Round]" by (elim exE conjE) (rule that)
        then have "[Round, Slept wait] @ take k [Round] = take (k + 2) [Round, Slept wait, Round]" by (cases k) auto
        with y eq None w(2,3) l4 show ?thesis
          by (intro exI [of _ y] exI [of _ "k + 2"] exI [of _ wait]) (auto simp: ends_def)
      qed
    qed
  qed
qed

end

text \<open>The limiter of the test suite: a bench world with a clock that the sleep moves on.\<close>

record bench =
  bench_limiter :: limiter
  bench_clock :: instant
  bench_trail :: "wait_step list"

definition bench_rl :: "bench RateLimiter" where
  "bench_rl = \<lparr>rl_rate = 100, rl_burst = 1, rl_now = (\<lambda>w. (bench_clock w, w\<lparr>bench_trail := bench_trail w @ [Round]\<rparr>)),
     rl_sleep = (\<lambda>_ d w. Some (None, w\<lparr>bench_clock := bench_clock w + max 0 d,
       bench_trail := bench_trail w @ [Slept d]\<rparr>)),
     rl_onWait = None,
     rl_ptr = \<lparr>rd = bench_limiter, wr = (\<lambda>l w. w\<lparr>bench_limiter := l\<rparr>)\<rparr>\<rparr>"

interpretation benchrl: ticking_limiter bench_rl context_Background bench_clock bench_trail
  by unfold_locales (auto simp: bench_rl_def context_Background_def sane_rate_def)



end
