(* ===== verification/Reliable.thy ===== *)
theory Reliable
  imports Float64 Breaker Limiter
begin

text \<open>
  The interfaces \<open>PaymentClient\<close> and \<open>DriverClient\<close> of internal/orders/order.go, and
  the clients of internal/orders/reliability.go that wrap them with a rate limiter, a
  circuit breaker and retries. The lemmas show how the three compose.
\<close>

section \<open>Interfaces\<close>

record 'w PaymentClient =
  pc_Charge :: "'w ctx \<Rightarrow> string \<Rightarrow> float64 \<Rightarrow> ('w, go_error option) act"
  pc_Refund :: "'w ctx \<Rightarrow> string \<Rightarrow> float64 \<Rightarrow> ('w, go_error option) act"

record 'w DriverClient =
  dc_Assign :: "'w ctx \<Rightarrow> string \<Rightarrow> string \<Rightarrow> ('w, go_error option) act"

section \<open>The wrapped clients\<close>

record 'w ReliablePaymentClient =
  rp_base :: "'w PaymentClient"
  rp_limiter :: "'w RateLimiter option"
  rp_breaker :: "'w CircuitBreaker option"
  rp_retry :: "'w RetryPolicy"

definition NewReliablePaymentClient ::
  "'w PaymentClient \<Rightarrow> 'w RateLimiter option \<Rightarrow> 'w CircuitBreaker option \<Rightarrow> 'w RetryPolicy \<Rightarrow>
   'w ReliablePaymentClient" where
  "NewReliablePaymentClient base limiter breaker retry =
     \<lparr>rp_base = base, rp_limiter = limiter, rp_breaker = breaker, rp_retry = retry\<rparr>"

definition payment_attempt ::
  "'w ReliablePaymentClient \<Rightarrow> 'w ctx \<Rightarrow> ('w, go_error option) act \<Rightarrow> ('w, go_error option) act" where
  "payment_attempt c ctx fn w =
     (case rp_limiter c of
        None \<Rightarrow> (if rp_breaker c \<noteq> None then Execute (rp_breaker c) fn w else fn w)
      | Some limiter \<Rightarrow> do {
          (err, w) \<leftarrow> Wait (Some limiter) (Some ctx) w;
          case err of
            Some err \<Rightarrow> Some (Some err, w)
          | None \<Rightarrow> if rp_breaker c \<noteq> None then Execute (rp_breaker c) fn w else fn w
        })"

definition payment_do ::
  "'w runtime \<Rightarrow> 'w ReliablePaymentClient \<Rightarrow> 'w ctx \<Rightarrow> ('w, go_error option) act \<Rightarrow>
   ('w, go_error option) act" where
  "payment_do rt c ctx fn = retry_Do rt (rp_retry c) (Some ctx) (payment_attempt c ctx fn)"

definition reliable_Charge ::
  "'w runtime \<Rightarrow> 'w ReliablePaymentClient \<Rightarrow> 'w ctx \<Rightarrow> string \<Rightarrow> float64 \<Rightarrow> ('w, go_error option) act" where
  "reliable_Charge rt c ctx orderID amount =
     payment_do rt c ctx (pc_Charge (rp_base c) ctx orderID amount)"

definition reliable_Refund ::
  "'w runtime \<Rightarrow> 'w ReliablePaymentClient \<Rightarrow> 'w ctx \<Rightarrow> string \<Rightarrow> float64 \<Rightarrow> ('w, go_error option) act" where
  "reliable_Refund rt c ctx orderID amount =
     payment_do rt c ctx (pc_Refund (rp_base c) ctx orderID amount)"

record 'w ReliableDriverClient =
  rd_base :: "'w DriverClient"
  rd_limiter :: "'w RateLimiter option"
  rd_breaker :: "'w CircuitBreaker option"
  rd_retry :: "'w RetryPolicy"

definition NewReliableDriverClient ::
  "'w DriverClient \<Rightarrow> 'w RateLimiter option \<Rightarrow> 'w CircuitBreaker option \<Rightarrow> 'w RetryPolicy \<Rightarrow>
   'w ReliableDriverClient" where
  "NewReliableDriverClient base limiter breaker retry =
     \<lparr>rd_base = base, rd_limiter = limiter, rd_breaker = breaker, rd_retry = retry\<rparr>"

definition driver_attempt ::
  "'w ReliableDriverClient \<Rightarrow> 'w ctx \<Rightarrow> ('w, go_error option) act \<Rightarrow> ('w, go_error option) act" where
  "driver_attempt c ctx fn w =
     (case rd_limiter c of
        None \<Rightarrow> (if rd_breaker c \<noteq> None then Execute (rd_breaker c) fn w else fn w)
      | Some limiter \<Rightarrow> do {
          (err, w) \<leftarrow> Wait (Some limiter) (Some ctx) w;
          case err of
            Some err \<Rightarrow> Some (Some err, w)
          | None \<Rightarrow> if rd_breaker c \<noteq> None then Execute (rd_breaker c) fn w else fn w
        })"

definition driver_do ::
  "'w runtime \<Rightarrow> 'w ReliableDriverClient \<Rightarrow> 'w ctx \<Rightarrow> ('w, go_error option) act \<Rightarrow>
   ('w, go_error option) act" where
  "driver_do rt c ctx fn = retry_Do rt (rd_retry c) (Some ctx) (driver_attempt c ctx fn)"

definition reliable_Assign ::
  "'w runtime \<Rightarrow> 'w ReliableDriverClient \<Rightarrow> 'w ctx \<Rightarrow> string \<Rightarrow> string \<Rightarrow> ('w, go_error option) act" where
  "reliable_Assign rt c ctx orderID driverID =
     driver_do rt c ctx (dc_Assign (rd_base c) ctx orderID driverID)"

text \<open>The wrapped clients as values of the interfaces.\<close>

definition reliable_payments :: "'w runtime \<Rightarrow> 'w ReliablePaymentClient \<Rightarrow> 'w PaymentClient" where
  "reliable_payments rt c = \<lparr>pc_Charge = reliable_Charge rt c, pc_Refund = reliable_Refund rt c\<rparr>"

definition reliable_drivers :: "'w runtime \<Rightarrow> 'w ReliableDriverClient \<Rightarrow> 'w DriverClient" where
  "reliable_drivers rt c = \<lparr>dc_Assign = reliable_Assign rt c\<rparr>"

section \<open>How the layers compose\<close>

text \<open>Both clients make their attempts in the same way.\<close>

definition attempt_of ::
  "'w RateLimiter option \<Rightarrow> 'w CircuitBreaker option \<Rightarrow> 'w ctx \<Rightarrow> ('w, go_error option) act \<Rightarrow>
   ('w, go_error option) act" where
  "attempt_of lim brk ctx fn w =
     (case lim of
        None \<Rightarrow> Execute brk fn w
      | Some l \<Rightarrow> do {
          (err, w) \<leftarrow> Wait (Some l) (Some ctx) w;
          case err of Some err \<Rightarrow> Some (Some err, w) | None \<Rightarrow> Execute brk fn w
        })"

lemma payment_attempt_eq: "payment_attempt c = attempt_of (rp_limiter c) (rp_breaker c)"
  by (auto simp: fun_eq_iff payment_attempt_def attempt_of_def Execute_def cong: option.case_cong)

lemma driver_attempt_eq: "driver_attempt c = attempt_of (rd_limiter c) (rd_breaker c)"
  by (auto simp: fun_eq_iff driver_attempt_def attempt_of_def Execute_def cong: option.case_cong)

lemma payment_do_eq: "payment_do rt c ctx fn =
    retry_Do rt (rp_retry c) (Some ctx) (attempt_of (rp_limiter c) (rp_breaker c) ctx fn)"
  by (simp add: payment_do_def payment_attempt_eq)

lemma driver_do_eq: "driver_do rt c ctx fn =
    retry_Do rt (rd_retry c) (Some ctx) (attempt_of (rd_limiter c) (rd_breaker c) ctx fn)"
  by (simp add: driver_do_def driver_attempt_eq)

lemma attempt_of_cases [consumes 1, case_names limited executed]:
  assumes "attempt_of lim brk ctx fn w = Some (r, w')"
  obtains (limited) l e where "lim = Some l" "Wait (Some l) (Some ctx) w = Some (Some e, w')" "r = Some e"
  | (executed) w1 where "Execute brk fn w1 = Some (r, w')"
      "lim = None \<and> w1 = w \<or> (\<exists>l. lim = Some l \<and> Wait (Some l) (Some ctx) w = Some (None, w1))"
proof (cases lim)
  case None
  with assms that(2) show thesis by (simp add: attempt_of_def)
next
  case (Some l)
  with assms obtain e w1 where w: "Wait (Some l) (Some ctx) w = Some (e, w1)"
    by (auto simp: attempt_of_def bind_pair_Some_iff)
  with assms Some that show thesis by (cases e) (auto simp: attempt_of_def)
qed

lemma Execute_cases [consumes 1, case_names plain rejected called]:
  assumes "Execute brk fn w = Some (r, w')"
  obtains (plain) "brk = None" "fn w = Some (r, w')"
  | (rejected) c now w1 b where "brk = Some c" "cb_now c w = (now, w1)" "r = Some ErrCircuitOpen"
      "w' = wr (cb_ptr c) b w1"
  | (called) c now w1 b w2 b' where "brk = Some c" "cb_now c w = (now, w1)"
      "fn (wr (cb_ptr c) b w1) = Some (r, w2)" "w' = wr (cb_ptr c) b' w2"
proof (cases brk)
  case None
  with assms that(1) show thesis by (simp add: Execute_def)
next
  case (Some c)
  obtain now w1 where n: "cb_now c w = (now, w1)" by (cases "cb_now c w")
  obtain a b where e: "breaker_enter (cb_resetAfter c) now (rd (cb_ptr c) w1) = (a, b)"
    by (cases "breaker_enter (cb_resetAfter c) now (rd (cb_ptr c) w1)")
  show thesis
  proof (cases a)
    case False
    with assms Some n e that(2) show thesis by (auto simp: Execute_def)
  next
    case True
    with assms Some n e obtain w2 where "fn (wr (cb_ptr c) b w1) = Some (r, w2)"
      "w' = wr (cb_ptr c) (breaker_leave (cb_maxFails c) now r (rd (cb_ptr c) w2)) w2"
      by (auto simp: Execute_def bind_pair_Some_iff Let_def)
    with Some n that(3) show thesis by blast
  qed
qed

text \<open>
  A predicate of the world that the machinery around a call keeps: contexts, clocks,
  timers, random numbers, hooks, and the fields of limiters and breakers.
\<close>

definition limiter_keeps :: "('w \<Rightarrow> bool) \<Rightarrow> 'w ctx \<Rightarrow> 'w RateLimiter \<Rightarrow> bool" where
  "limiter_keeps P ctx l \<longleftrightarrow>
     (\<forall>w. P w \<longrightarrow> P (snd (rl_now l w))) \<and> (\<forall>w b. P w \<longrightarrow> P (wr (rl_ptr l) b w)) \<and>
     (\<forall>w h d. P w \<longrightarrow> rl_onWait l = Some h \<longrightarrow> P (h d w)) \<and>
     (\<forall>w d r w'. P w \<longrightarrow> rl_sleep l ctx d w = Some (r, w') \<longrightarrow> P w')"

definition breaker_keeps :: "('w \<Rightarrow> bool) \<Rightarrow> 'w CircuitBreaker \<Rightarrow> bool" where
  "breaker_keeps P c \<longleftrightarrow>
     (\<forall>w. P w \<longrightarrow> P (snd (cb_now c w))) \<and> (\<forall>w b. P w \<longrightarrow> P (wr (cb_ptr c) b w))"

definition retry_keeps :: "('w \<Rightarrow> bool) \<Rightarrow> 'w runtime \<Rightarrow> 'w ctx \<Rightarrow> 'w RetryPolicy \<Rightarrow> bool" where
  "retry_keeps P rt ctx p \<longleftrightarrow>
     (\<forall>w. P w \<longrightarrow> P (snd (ctx w))) \<and> (\<forall>w d. P w \<longrightarrow> P (snd (policy_jitter rt p d w))) \<and>
     (\<forall>w d r w'. P w \<longrightarrow> policy_sleep rt p ctx d w = Some (r, w') \<longrightarrow> P w')"

lemma retry_keepsD:
  assumes "retry_keeps P rt ctx p" "P w"
  shows "P (snd (ctx w))" "P (snd (policy_jitter rt p d w))"
    "policy_sleep rt p ctx d w = Some (r, w') \<Longrightarrow> P w'"
  using assms unfolding retry_keeps_def by blast+

lemma wait_loop_keeps:
  assumes keeps: "limiter_keeps P ctx l" and ctx: "\<And>w. P w \<Longrightarrow> P (snd (ctx w))"
    and run: "wait_loop l ctx w = Some y" and P: "P w"
  shows "P (snd y)"
proof -
  have "l' = l \<longrightarrow> c = ctx \<longrightarrow> P v \<longrightarrow> P (snd y)" if "wait_loop l' c v = Some y" for l' c v y
  proof (rule wait_loop.raw_induct [where P = "\<lambda>l' c v y. l' = l \<longrightarrow> c = ctx \<longrightarrow> P v \<longrightarrow> P (snd y)", OF _ that])
    fix loop l' c v y
    assume IH: "\<And>l' c v y. loop l' c v = Some y \<Longrightarrow> l' = l \<longrightarrow> c = ctx \<longrightarrow> P v \<longrightarrow> P (snd y)"
      and eq: "(case c v of (None, w) \<Rightarrow>
          (case rl_now l' w of (now, w) \<Rightarrow>
            (case limiter_round (rl_rate l') (rl_burst l') now (rd (rl_ptr l') w) of
               (None, b) \<Rightarrow> Some (None, wr (rl_ptr l') b w)
             | (Some wait, b) \<Rightarrow>
                 if wait \<le> 0 then loop l' c (wr (rl_ptr l') b w)
                 else do {
                   (serr, w) \<leftarrow> rl_sleep l' c wait
                     (case rl_onWait l' of None \<Rightarrow> wr (rl_ptr l') b w
                      | Some hook \<Rightarrow> hook wait (wr (rl_ptr l') b w));
                   case serr of None \<Rightarrow> loop l' c w | Some err \<Rightarrow> Some (Some err, w)
                 }))
        | (Some err, w) \<Rightarrow> Some (Some err, w)) = Some y"
    show "l' = l \<longrightarrow> c = ctx \<longrightarrow> P v \<longrightarrow> P (snd y)"
    proof (intro impI)
      assume l: "l' = l" and c: "c = ctx" and v: "P v"
      obtain e v1 where c1: "ctx v = (e, v1)" by (cases "ctx v")
      with ctx [OF v] have v1: "P v1" by simp
      obtain t v2 where n: "rl_now l v1 = (t, v2)" by (cases "rl_now l v1")
      with keeps v1 have v2: "P v2" by (auto simp: limiter_keeps_def dest: spec [of _ v1])
      obtain d b where r: "limiter_round (rl_rate l) (rl_burst l) t (rd (rl_ptr l) v2) = (d, b)"
        by (cases "limiter_round (rl_rate l) (rl_burst l) t (rd (rl_ptr l) v2)")
      have v3: "P (wr (rl_ptr l) b v2)"
        using keeps v2 by (simp add: limiter_keeps_def)
      then have v4: "P (case rl_onWait l of None \<Rightarrow> wr (rl_ptr l) b v2
          | Some hook \<Rightarrow> hook wait (wr (rl_ptr l) b v2))" for wait
        using keeps by (auto simp: limiter_keeps_def split: option.splits)
      have sleep: "P v'" if "rl_sleep l ctx wait (case rl_onWait l of None \<Rightarrow> wr (rl_ptr l) b v2
          | Some hook \<Rightarrow> hook wait (wr (rl_ptr l) b v2)) = Some (s, v')" for wait s v'
        using keeps v4 [of wait] that unfolding limiter_keeps_def by blast
      show "P (snd y)"
      proof (cases e)
        case (Some err)
        with eq l c c1 v1 show ?thesis by auto
      next
        case alive: None
        show ?thesis
        proof (cases d)
          case None
          with eq l c c1 n r v3 alive show ?thesis by auto
        next
          case (Some wait)
          show ?thesis
          proof (cases "wait \<le> 0")
            case True
            with eq l c c1 n r alive Some have "loop l ctx (wr (rl_ptr l) b v2) = Some y" by simp
            from IH [OF this] v3 show ?thesis by simp
          next
            case False
            with eq l c c1 n r alive Some obtain s v5 where
              s: "rl_sleep l ctx wait (case rl_onWait l of None \<Rightarrow> wr (rl_ptr l) b v2
                | Some hook \<Rightarrow> hook wait (wr (rl_ptr l) b v2)) = Some (s, v5)"
              and y: "(case s of None \<Rightarrow> loop l ctx v5 | Some err \<Rightarrow> Some (Some err, v5)) = Some y"
              by (auto simp: bind_pair_Some_iff)
            from sleep [OF s] y IH [of l ctx v5 y] show ?thesis by (cases s) auto
          qed
        qed
      qed
    qed
  qed
  with run P show ?thesis by blast
qed

text \<open>
  An attempt calls the function at most once: either it is not called, the world keeps
  \<open>P\<close> and an error comes back, or the call leads from \<open>P\<close> to \<open>Q\<close>.
\<close>

lemma attempt_of_once:
  assumes "attempt_of lim brk ctx fn w = Some (r, w')" "P w"
    and lim: "\<And>l. lim = Some l \<Longrightarrow> limiter_keeps P ctx l" and ctx: "\<And>w. P w \<Longrightarrow> P (snd (ctx w))"
    and brk: "\<And>c. brk = Some c \<Longrightarrow> breaker_keeps P c" "\<And>c. brk = Some c \<Longrightarrow> breaker_keeps Q c"
    and fn: "\<And>w w'. P w \<Longrightarrow> fn w = Some (r, w') \<Longrightarrow> Q w'"
  shows "(P w' \<and> r \<noteq> None) \<or> (Q w' \<and> (\<exists>v v'. P v \<and> fn v = Some (r, v')))"
proof -
  have wait: "P v'" if "Wait (Some l) (Some ctx) v = Some (e, v')" "lim = Some l" "P v" for l v e v'
    using that lim [OF that(2)] ctx wait_loop_keeps [of P ctx l v]
    by (auto simp: Wait_def ctx_or_background_def split: if_splits)
      (metis snd_conv)+
  from assms(1) show ?thesis
  proof (cases rule: attempt_of_cases)
    case (limited l e)
    with wait assms(2) show ?thesis by blast
  next
    case (executed w1)
    with wait assms(2) have w1: "P w1" by blast
    from executed(1) show ?thesis
    proof (cases rule: Execute_cases)
      case plain
      with fn w1 show ?thesis by blast
    next
      case (rejected c now v b)
      with brk(1) w1 show ?thesis by (metis breaker_keeps_def snd_conv option.distinct(1))
    next
      case (called c now v b v2 b')
      with brk(1) w1 have v: "P (wr (cb_ptr c) b v)" by (metis breaker_keeps_def snd_conv)
      with fn called have "Q v2" by blast
      with brk(2) called v show ?thesis by (auto simp: breaker_keeps_def)
    qed
  qed
qed

lemma attempt_of_keeps:
  assumes "attempt_of lim brk ctx fn w = Some (r, w')" "P w"
    and "\<And>l. lim = Some l \<Longrightarrow> limiter_keeps P ctx l" "\<And>w. P w \<Longrightarrow> P (snd (ctx w))"
    and "\<And>c. brk = Some c \<Longrightarrow> breaker_keeps P c"
    and "\<And>w r w'. P w \<Longrightarrow> fn w = Some (r, w') \<Longrightarrow> P w'"
  shows "P w'"
proof -
  have "(P w' \<and> r \<noteq> None) \<or> (P w' \<and> (\<exists>v v'. P v \<and> fn v = Some (r, v')))"
    by (rule attempt_of_once [where P = P and Q = P, OF assms(1,2)]) (use assms(3-6) in blast)+
  then show ?thesis by blast
qed

lemma reliable_keeps:
  assumes "retry_Do rt p (Some ctx) (attempt_of lim brk ctx fn) w = Some (r, w')" "P w"
    and p: "retry_keeps P rt ctx p"
    and lim: "\<And>l. lim = Some l \<Longrightarrow> limiter_keeps P ctx l"
    and brk: "\<And>c. brk = Some c \<Longrightarrow> breaker_keeps P c"
    and fn: "\<And>w r w'. P w \<Longrightarrow> fn w = Some (r, w') \<Longrightarrow> P w'"
  shows "P w'"
proof -
  have ctx: "P v \<Longrightarrow> P (snd (ctx v))" for v using p by (simp add: retry_keeps_def)
  have "\<exists>j. 1 \<le> j \<and> j \<le> policy_attempts p + 1 \<and> P w'"
  proof (rule retry_loop_rule [OF assms(1) [unfolded retry_Do_def], where P = "\<lambda>_. P"])
    show "P (snd (ctx_or_background (Some ctx) v))" if "P v" for v :: 'a and j :: int
      using ctx that by (simp add: ctx_or_background_def)
    show "P v'" if "P v" "attempt_of lim brk ctx fn v = Some (s, v')" for v s v'
      by (rule attempt_of_keeps [where P = P, OF that(2,1)]) (erule lim ctx brk fn, (assumption)?)+
    show "P (snd (policy_jitter rt p d v))" if "P v" for d v
      using p that by (simp add: retry_keeps_def)
    show "P v'" if "P v" "policy_sleep rt p (ctx_or_background (Some ctx)) d v = Some (s, v')" for d v s v'
      using p that by (auto simp: retry_keeps_def ctx_or_background_def)
  qed (use assms(2) in auto)
  then show ?thesis by blast
qed

text \<open>The base client is called at most once per attempt.\<close>

lemma reliable_calls:
  fixes cnt :: "'w \<Rightarrow> int"
  assumes run: "retry_Do rt p (Some ctx) (attempt_of lim brk ctx fn) w = Some (r, w')"
    and p: "\<And>k. retry_keeps (\<lambda>v. cnt v = k) rt ctx p"
    and lim: "\<And>k l. lim = Some l \<Longrightarrow> limiter_keeps (\<lambda>v. cnt v = k) ctx l"
    and brk: "\<And>k c. brk = Some c \<Longrightarrow> breaker_keeps (\<lambda>v. cnt v = k) c"
    and fn: "\<And>w r w'. fn w = Some (r, w') \<Longrightarrow> cnt w' = cnt w + 1"
  shows "cnt w \<le> cnt w' \<and> cnt w' \<le> cnt w + max 1 (MaxAttempts p)"
proof -
  have ctx: "cnt (snd (ctx v)) = cnt v" for v by (rule retry_keepsD(1) [OF p refl])
  have att: "cnt v \<le> cnt v' \<and> cnt v' \<le> cnt v + 1" if "attempt_of lim brk ctx fn v = Some (s, v')" for v s v'
  proof -
    have "(cnt v' = cnt v \<and> s \<noteq> None) \<or> (cnt v' = cnt v + 1 \<and>
        (\<exists>u u'. cnt u = cnt v \<and> attempt_fn u = Some (s, u')))"
      if "attempt_fn = fn" for attempt_fn
      unfolding that
      by (rule attempt_of_once [where P = "\<lambda>u. cnt u = cnt v" and Q = "\<lambda>u. cnt u = cnt v + 1",
            OF \<open>attempt_of lim brk ctx fn v = Some (s, v')\<close> refl])
        (auto simp: ctx intro: lim brk dest: fn)
    from this [OF refl] show ?thesis by auto
  qed
  have "\<exists>j. 1 \<le> j \<and> j \<le> policy_attempts p + 1 \<and> cnt w \<le> cnt w' \<and> cnt w' \<le> cnt w + (j - 1)"
  proof (rule retry_loop_rule [OF run [unfolded retry_Do_def],
        where P = "\<lambda>j v. cnt w \<le> cnt v \<and> cnt v \<le> cnt w + (j - 1)"])
    show "cnt w \<le> cnt v' \<and> cnt v' \<le> cnt w + (j + 1 - 1)"
      if "cnt w \<le> cnt v \<and> cnt v \<le> cnt w + (j - 1)" "attempt_of lim brk ctx fn v = Some (s, v')"
      for j v s v'
      using att [OF that(2)] that(1) by auto
    show "cnt w \<le> cnt v' \<and> cnt v' \<le> cnt w + (j - 1)"
      if "cnt w \<le> cnt v \<and> cnt v \<le> cnt w + (j - 1)" "0 < d"
        "policy_sleep rt p (ctx_or_background (Some ctx)) d v = Some (s, v')" for j d v s v'
      using retry_keepsD(3) [OF p refl, of d v s v'] that by (simp add: ctx_or_background_def)
    show "cnt w \<le> cnt (snd (policy_jitter rt p d v)) \<and> cnt (snd (policy_jitter rt p d v)) \<le> cnt w + (j - 1)"
      if "cnt w \<le> cnt v \<and> cnt v \<le> cnt w + (j - 1)" for j d v
      using retry_keepsD(2) [OF p refl, of d v] that by simp
  qed (simp_all add: ctx_or_background_def ctx)
  then show ?thesis by (auto simp: policy_attempts_max)
qed

text \<open>
  C13: The wrapped payment client charges the base client at most \<open>max 1 MaxAttempts\<close>
  times per call, and reports success only after a base call that succeeded; limiter,
  breaker and retry loop never charge by themselves. The number of base calls is read off
  a counter that only base calls change.
\<close>

theorem reliable_Charge_calls:
  fixes cnt :: "'w \<Rightarrow> int"
  assumes run: "reliable_Charge rt c ctx orderID amount w = Some (r, w')"
    and "\<And>w r w'. pc_Charge (rp_base c) ctx orderID amount w = Some (r, w') \<Longrightarrow> cnt w' = cnt w + 1"
    and p: "\<And>k. retry_keeps (\<lambda>v. cnt v = k) rt ctx (rp_retry c)"
    and lim: "\<And>k l. rp_limiter c = Some l \<Longrightarrow> limiter_keeps (\<lambda>v. cnt v = k) ctx l"
    and brk: "\<And>k b. rp_breaker c = Some b \<Longrightarrow> breaker_keeps (\<lambda>v. cnt v = k) b"
  shows "cnt w \<le> cnt w' \<and> cnt w' \<le> cnt w + max 1 (MaxAttempts (rp_retry c)) \<and>
    (r = None \<longrightarrow> (\<exists>v v'. pc_Charge (rp_base c) ctx orderID amount v = Some (None, v')))"
proof -
  let ?fn = "pc_Charge (rp_base c) ctx orderID amount"
  let ?att = "attempt_of (rp_limiter c) (rp_breaker c) ctx ?fn"
  have run': "retry_Do rt (rp_retry c) (Some ctx) ?att w = Some (r, w')"
    using run by (simp add: reliable_Charge_def payment_do_eq)
  have "\<exists>v v'. ?fn v = Some (None, v')" if nil: "r = None"
  proof -
    obtain u where u: "?att u = Some (None, w')"
      using retry_loop_result [OF run' [unfolded retry_Do_def nil]] by auto
    show ?thesis
      using attempt_of_once [where P = "\<lambda>_. True" and Q = "\<lambda>_. True", OF u]
      by (auto simp: limiter_keeps_def breaker_keeps_def)
  qed
  moreover have "cnt w \<le> cnt w' \<and> cnt w' \<le> cnt w + max 1 (MaxAttempts (rp_retry c))"
    by (rule reliable_calls [OF run' p lim brk]) (auto dest: assms(2))
  ultimately show ?thesis by blast
qed

definition counting_client :: "lab ReliablePaymentClient" where
  "counting_client = NewReliablePaymentClient
     \<lparr>pc_Charge = (\<lambda>_ _ _ w. Some (if lab_clock w < 1 then Some ab else None,
          w\<lparr>lab_clock := lab_clock w + 1\<rparr>)),
      pc_Refund = (\<lambda>_ _ _ w. Some (None, w))\<rparr> None (Some lab_cb) three_tries"

lemma counting_client_sel:
  "rp_limiter counting_client = None" "rp_breaker counting_client = Some lab_cb"
  "rp_retry counting_client = three_tries"
  "pc_Charge (rp_base counting_client) ctx oid amt w =
     Some (if lab_clock w < 1 then Some ab else None, w\<lparr>lab_clock := lab_clock w + 1\<rparr>)"
  by (simp_all add: counting_client_def NewReliablePaymentClient_def)

theorem reliable_Charge_calls_witness:
  "let w = \<lparr>lab_breaker = new_breaker, lab_clock = 0, lab_script = []\<rparr>
   in \<exists>w'. reliable_Charge still_runtime counting_client context_Background ''o1'' f64_10 w =
        Some (None, w') \<and> lab_clock w' = 2 \<and> lab_clock w' \<le> 0 + 3"
proof -
  define w where "w = \<lparr>lab_breaker = new_breaker, lab_clock = 0, lab_script = []\<rparr>"
  let ?fn = "pc_Charge (rp_base counting_client) context_Background ''o1'' f64_10"
  let ?att = "attempt_of None (Some lab_cb) context_Background ?fn"
  define w1 where "w1 = \<lparr>lab_breaker = new_breaker\<lparr>cb_failures := 1\<rparr>, lab_clock = 1, lab_script = []\<rparr>"
  define w' where "w' = \<lparr>lab_breaker = new_breaker, lab_clock = 2, lab_script = []\<rparr>"
  have a1: "?att w = Some (Some ab, w1)"
    by (simp add: attempt_of_def Execute_def counting_client_sel lab_defs w_def w1_def new_breaker_def
        breaker_enter_def breaker_leave_def wrap64_def Let_def)
  have a2: "?att w1 = Some (None, w')"
    by (simp add: attempt_of_def Execute_def counting_client_sel lab_defs w'_def w1_def new_breaker_def
        breaker_enter_def breaker_leave_def Let_def)
  have worth: "defaultShouldRetry ab"
    by (simp add: ab_def defaultShouldRetry_def context_Canceled_def context_DeadlineExceeded_def
        ErrCircuitOpen_def)
  let ?loop = "retry_loop (policy_sleep still_runtime three_tries) defaultShouldRetry
      (defaultJitter still_runtime) 10 15 context_Background ?att 3"
  have step1: "?loop 1 w = ?loop 2 w1"
    by (subst retry_loop_step [of _ _ _ _ w])
      (simp_all add: context_Background_def a1 worth backoff_def go_shl_def wrap64_def
        defaultJitter_def still_runtime_def policy_sleep_def three_tries_def sleepWithContext_def)
  have step2: "?loop 2 w1 = Some (None, w')"
    by (subst retry_loop_step [of _ _ _ _ w1]) (simp_all add: context_Background_def a2)
  have run: "reliable_Charge still_runtime counting_client context_Background ''o1'' f64_10 w =
      Some (None, w')"
    using step1 step2
    by (simp add: reliable_Charge_def payment_do_eq retry_Do_def counting_client_sel
        policy_attempts_def policy_shouldRetry_def policy_jitter_def ctx_or_background_def)
      (simp add: three_tries_def)
  have two: "lab_clock w' = 2" by (simp add: w'_def)
  have keeps: "retry_keeps (\<lambda>v. lab_clock v = k) still_runtime context_Background
      (rp_retry counting_client)" "breaker_keeps (\<lambda>v. lab_clock v = k) lab_cb" for k
    unfolding retry_keeps_def breaker_keeps_def counting_client_sel
    by (auto simp: context_Background_def policy_jitter_def policy_sleep_def sleepWithContext_def
        defaultJitter_def still_runtime_def three_tries_def lab_cb_def lab_ptr_def)
  have "lab_clock w' \<le> lab_clock w + max 1 (MaxAttempts (rp_retry counting_client))"
    by (rule reliable_Charge_calls [where cnt = lab_clock, OF run, THEN conjunct2, THEN conjunct1])
      (auto simp: counting_client_sel(1,2,4) keeps)
  then have "lab_clock w' \<le> 0 + 3" by (simp add: counting_client_sel three_tries_def w_def)
  with run two have "\<exists>w'. reliable_Charge still_runtime counting_client context_Background ''o1'' f64_10 w =
      Some (None, w') \<and> lab_clock w' = 2 \<and> lab_clock w' \<le> 0 + 3" by blast
  then show ?thesis by (simp add: w_def Let_def)
qed

text \<open>
  A rejected call is not retried. When the breaker of the wrapped client is open and
  younger than its reset timeout, \<open>Charge\<close> makes one attempt, never reaches the base
  client, and returns \<open>ErrCircuitOpen\<close> (with the default retry predicate).
\<close>

theorem reliable_Charge_open_circuit:
  assumes "rp_breaker c = Some b" "rp_limiter c = None" "ShouldRetry (rp_retry c) = None"
    and "cell (cb_ptr b)" "settled (cb_maxFails b) (rd (cb_ptr b) w1)"
    and "ctx w = (None, w1)" "cb_now b w1 = (now, w2)" "rd (cb_ptr b) w2 = rd (cb_ptr b) w1"
    and "\<not> abs_admits (cb_resetAfter b) now (abs_of (rd (cb_ptr b) w1))"
  shows "reliable_Charge rt c ctx orderID amount w = Some (Some ErrCircuitOpen, w2)"
proof -
  obtain a d where e: "breaker_enter (cb_resetAfter b) now (rd (cb_ptr b) w2) = (a, d)"
    by (cases "breaker_enter (cb_resetAfter b) now (rd (cb_ptr b) w2)")
  with abs_admits_enter [OF assms(5)] assms(8,9) have a: "\<not> a" by (metis fst_conv)
  with e breaker_enter_rejected have "d = rd (cb_ptr b) w2" by (metis fst_conv snd_conv)
  then have rej: "Execute (Some b) f w1 = Some (Some ErrCircuitOpen, w2)" for f
    using a e assms(7) cell.wr_rd [OF assms(4)] by (simp add: Execute_def)
  have "\<not> policy_shouldRetry (rp_retry c) ErrCircuitOpen"
    using assms(3) by (simp add: policy_shouldRetry_def defaultShouldRetry_def)
  then show ?thesis
    using assms(1,2,6) rej
    by (simp add: reliable_Charge_def payment_do_eq retry_Do_def ctx_or_background_def
        retry_loop_step attempt_of_def)
qed

theorem reliable_Charge_open_circuit_witness:
  "let w = \<lparr>lab_breaker = \<lparr>cb_state = circuitOpen, cb_failures = 2, cb_openedAt = 5,
        cb_halfOpenFlight = False\<rparr>, lab_clock = 10, lab_script = []\<rparr>
   in reliable_Charge still_runtime counting_client context_Background ''o1'' f64_10 w =
      Some (Some ErrCircuitOpen, w)"
proof -
  define w where "w = \<lparr>lab_breaker = \<lparr>cb_state = circuitOpen, cb_failures = 2, cb_openedAt = 5,
        cb_halfOpenFlight = False\<rparr>, lab_clock = 10, lab_script = []\<rparr>"
  have "settled (cb_maxFails lab_cb) (rd (cb_ptr lab_cb) w)"
    by (simp add: lab_defs settled_def breaker_wf_def w_def)
  moreover have "cb_now lab_cb w = (10, w)" by (simp add: lab_defs w_def)
  moreover have "\<not> abs_admits (cb_resetAfter lab_cb) 10 (abs_of (rd (cb_ptr lab_cb) w))"
    by (simp add: lab_defs abs_of_def time_Sub_def w_def)
  ultimately have "reliable_Charge still_runtime counting_client context_Background ''o1'' f64_10 w =
      Some (Some ErrCircuitOpen, w)"
    using reliable_Charge_open_circuit [of counting_client lab_cb w context_Background w 10 w]
      labcb.cell_axioms
    by (simp add: counting_client_sel three_tries_def context_Background_def)
  then show ?thesis by (simp add: w_def Let_def)
qed

text \<open>
  A dead context stops everything: if the context is already done when a wrapped
  call starts, charge, refund and assignment all return its error at once and the base
  client is not called, not even for a compensating refund.
\<close>

theorem reliable_calls_need_live_context:
  assumes "ctx w = (Some e, w')"
  shows "reliable_Charge rt c ctx orderID amount w = Some (Some e, w') \<and>
    reliable_Refund rt c ctx orderID amount w = Some (Some e, w') \<and>
    reliable_Assign rt d ctx orderID driverID w = Some (Some e, w')"
  using assms
  by (simp add: reliable_Charge_def reliable_Refund_def reliable_Assign_def payment_do_eq
      driver_do_eq retry_Do_def ctx_or_background_def retry_loop_ctx_done)

theorem reliable_calls_need_live_context_witness:
  "reliable_Refund still_runtime counting_client (\<lambda>w. (Some context_Canceled, w)) ''o1'' f64_10
       \<lparr>lab_breaker = new_breaker, lab_clock = 0, lab_script = [None]\<rparr> =
     Some (Some context_Canceled,
       \<lparr>lab_breaker = new_breaker, lab_clock = 0, lab_script = [None]\<rparr>)"
  by (rule reliable_calls_need_live_context [THEN conjunct2, THEN conjunct1]) simp

end
