(* ===== verification/SqlDb.thy ===== *)
theory SqlDb
  imports GoPrelude
begin

text \<open>
  \<open>database/sql\<close> over any set of tables, as the Postgres stores use it: a statement sent
  with \<open>ExecContext\<close> or \<open>QueryRowContext\<close>, the ways it can fail, and what a client can
  rely on. The statements themselves and their tables belong to the stores.
\<close>

section \<open>Statements\<close>

text \<open>
  A statement reads \<open>NOW()\<close> and the tables and yields a SQLSTATE or the number of rows
  it touched, and the new tables. A statement that fails leaves the rows alone; only the
  sequence behind a \<open>BIGSERIAL\<close> column moves on.
\<close>

type_synonym 't stmt = "instant \<Rightarrow> 't \<Rightarrow> (string + nat) \<times> 't"

definition undefined_table :: string where "undefined_table = ''42P01''"
definition unique_violation :: string where "unique_violation = ''23505''"
definition foreign_key_violation :: string where "foreign_key_violation = ''23503''"

section \<open>database/sql\<close>

text \<open>
  The database as the program meets it. \<open>db_env\<close> is the environment: what becomes of
  the \<open>n\<close>-th statement, and the database clock at it. A statement may be lost (it had no
  effect and an error comes back), be executed without an acknowledgement (it ran and an
  error comes back), or run and not report its row count. A lost statement is one that never
  reached the server or one the server refuses because of the values it carries, such as a
  \<open>TEXT\<close> value with a NUL byte: the statements themselves accept every value of their types,
  so a result stated for every environment covers such values, and a result for a healthy
  connection is about values the server stores. The texts of the server's errors are part of
  the environment.
\<close>

datatype fault = Fine | Lost go_error | Unacked go_error | RowsUnknown go_error

record 't sqldb =
  db_tables :: 't
  db_seq :: nat
  db_env :: "nat \<Rightarrow> fault \<times> instant"
  db_errtext :: "string \<Rightarrow> string"

definition sql_ErrNoRows :: go_error where
  "sql_ErrNoRows = ErrVar ''sql.ErrNoRows'' ''sql: no rows in result set''"

definition ExecContext ::
  "('w, 't sqldb) ref \<Rightarrow> 'w ctx \<Rightarrow> 't stmt \<Rightarrow> ('w, go_error + nat \<times> go_error option) prim" where
  "ExecContext p ctx stmt w =
     (case ctx w of
        (Some e, w) \<Rightarrow> (Inl e, w)
      | (None, w) \<Rightarrow>
          (let s = rd p w;
               (fault, now) = db_env s (db_seq s);
               s' = s\<lparr>db_seq := Suc (db_seq s)\<rparr>;
               (res, t) = stmt now (db_tables s)
           in case fault of
                Lost e \<Rightarrow> (Inl e, wr p s' w)
              | _ \<Rightarrow>
                  (case res of
                     Inl code \<Rightarrow> Inl (ErrExt code (db_errtext s code))
                   | Inr n \<Rightarrow>
                       (case fault of
                          Unacked e \<Rightarrow> Inl e
                        | RowsUnknown e \<Rightarrow> Inr (n, Some e)
                        | _ \<Rightarrow> Inr (n, None)),
                   wr p (s'\<lparr>db_tables := t\<rparr>) w)))"

text \<open>\<open>RowsAffected\<close> of the result.\<close>

fun RowsAffected :: "nat \<times> go_error option \<Rightarrow> go_error + nat" where
  "RowsAffected (n, None) = Inr n"
| "RowsAffected (n, Some e) = Inl e"

text \<open>\<open>QueryRowContext\<close> followed by \<open>Scan\<close>.\<close>

definition QueryRowContext ::
  "('w, 't sqldb) ref \<Rightarrow> 'w ctx \<Rightarrow> ('t \<Rightarrow> string + 'a option) \<Rightarrow> ('w, go_error + 'a) prim" where
  "QueryRowContext p ctx query w =
     (case ctx w of
        (Some e, w) \<Rightarrow> (Inl e, w)
      | (None, w) \<Rightarrow>
          (let s = rd p w;
               (fault, now) = db_env s (db_seq s)
           in (case fault of
                 Lost e \<Rightarrow> Inl e
               | Unacked e \<Rightarrow> Inl e
               | _ \<Rightarrow>
                   (case query (db_tables s) of
                      Inl code \<Rightarrow> Inl (ErrExt code (db_errtext s code))
                    | Inr None \<Rightarrow> Inl sql_ErrNoRows
                    | Inr (Some x) \<Rightarrow> Inr x),
               wr p (s\<lparr>db_seq := Suc (db_seq s)\<rparr>) w)))"

text \<open>A predicate of the rest of the world, which no statement touches.\<close>

definition untouched :: "('w, 't sqldb) ref \<Rightarrow> 'w ctx \<Rightarrow> ('w \<Rightarrow> bool) \<Rightarrow> bool" where
  "untouched p ctx C \<longleftrightarrow> (\<forall>v s. C v \<longrightarrow> C (wr p s v)) \<and> (\<forall>v. C v \<longrightarrow> C (snd (ctx v)))"

lemma untouchedD:
  assumes "untouched p ctx C" "C v"
  shows "C (wr p s v)" "ctx v = (c, v') \<Longrightarrow> C v'"
  using assms unfolding untouched_def by (blast, metis snd_conv)

lemma exec_untouched:
  assumes "ExecContext p ctx stmt v = (r, v')" "untouched p ctx C" "C v"
  shows "C v'"
proof (cases "ctx v")
  case (Pair c v1)
  with assms(2,3) have 1: "C v1" by (rule untouchedD(2))
  then have "C (wr p s v1)" for s using untouchedD(1) [OF assms(2)] by blast
  with assms(1) Pair 1 show ?thesis
    by (auto simp: ExecContext_def Let_def split: option.split_asm prod.split_asm fault.split_asm)
qed

lemma query_untouched:
  assumes "QueryRowContext p ctx q v = (r, v')" "untouched p ctx C" "C v"
  shows "C v'"
proof (cases "ctx v")
  case (Pair c v1)
  with assms(2,3) have 1: "C v1" by (rule untouchedD(2))
  then have "C (wr p s v1)" for s using untouchedD(1) [OF assms(2)] by blast
  with assms(1) Pair 1 show ?thesis
    by (auto simp: QueryRowContext_def Let_def split: option.split_asm prod.split_asm)
qed

section \<open>Statements through database/sql\<close>

text \<open>
  What \<open>ExecContext\<close> and \<open>QueryRowContext\<close> can do, for any database pointer that obeys
  the laws of a memory cell.
\<close>

locale sql_cell = cell p for p :: "('w, 't sqldb) ref"
begin

abbreviation tabs :: "'w \<Rightarrow> 't" where
  "tabs v \<equiv> db_tables (rd p v)"

lemma exec_cases [consumes 1, case_names dead lost ran]:
  assumes "ExecContext p ctx stmt w = (r, w')"
  obtains (dead) e where "ctx w = (Some e, w')" "r = Inl e"
  | (lost) w1 e where "ctx w = (None, w1)" "r = Inl e" "tabs w' = tabs w1"
      "fst (db_env (rd p w1) (db_seq (rd p w1))) \<noteq> Fine"
  | (ran) w1 now where "ctx w = (None, w1)" "tabs w' = snd (stmt now (tabs w1))"
      "\<And>n e. r = Inr (n, e) \<Longrightarrow> fst (stmt now (tabs w1)) = Inr n"
      "fst (db_env (rd p w1) (db_seq (rd p w1))) = Fine \<Longrightarrow>
        r = (case fst (stmt now (tabs w1)) of
          Inl code \<Rightarrow> Inl (ErrExt code (db_errtext (rd p w1) code)) | Inr n \<Rightarrow> Inr (n, None))"
proof (cases "ctx w")
  case (Pair c w1)
  show thesis
  proof (cases c)
    case (Some e)
    with assms Pair that(1) show thesis by (simp add: ExecContext_def)
  next
    case None
    define s where "s = rd p w1"
    obtain f now where f: "db_env s (db_seq s) = (f, now)" by (cases "db_env s (db_seq s)")
    obtain res t where st: "stmt now (db_tables s) = (res, t)" by (cases "stmt now (db_tables s)")
    show thesis
    proof (cases "\<exists>e. f = Lost e")
      case True
      then obtain e where e: "f = Lost e" ..
      with assms Pair None f st show thesis
        by (intro that(2) [of w1 e]) (auto simp: ExecContext_def s_def [symmetric] rd_wr Let_def)
    next
      case False
      with assms Pair None f st show thesis
        by (intro that(3) [of w1 now])
          (auto simp: ExecContext_def s_def [symmetric] rd_wr Let_def split: fault.splits sum.splits)
    qed
  qed
qed

lemma query_cases [consumes 1, case_names dead failed ran]:
  assumes "QueryRowContext p ctx query w = (r, w')"
  obtains (dead) e where "ctx w = (Some e, w')" "r = Inl e"
  | (failed) w1 e where "ctx w = (None, w1)" "r = Inl e" "tabs w' = tabs w1"
      "fst (db_env (rd p w1) (db_seq (rd p w1))) \<noteq> Fine"
  | (ran) w1 where "ctx w = (None, w1)" "tabs w' = tabs w1"
      "r = (case query (tabs w1) of
          Inl code \<Rightarrow> Inl (ErrExt code (db_errtext (rd p w1) code))
        | Inr None \<Rightarrow> Inl sql_ErrNoRows | Inr (Some x) \<Rightarrow> Inr x)"
proof (cases "ctx w")
  case (Pair c w1)
  show thesis
  proof (cases c)
    case (Some e)
    with assms Pair that(1) show thesis by (simp add: QueryRowContext_def)
  next
    case None
    define s where "s = rd p w1"
    obtain f now where f: "db_env s (db_seq s) = (f, now)" by (cases "db_env s (db_seq s)")
    show thesis
    proof (cases f)
      case (Lost e)
      with assms Pair None f that(2) [of w1 e] show thesis
        by (auto simp: QueryRowContext_def s_def [symmetric] rd_wr Let_def)
    next
      case (Unacked e)
      with assms Pair None f that(2) [of w1 e] show thesis
        by (auto simp: QueryRowContext_def s_def [symmetric] rd_wr Let_def)
    qed (use assms Pair None f that(3) [of w1] in
        \<open>auto simp: QueryRowContext_def s_def [symmetric] rd_wr Let_def\<close>)
  qed
qed

text \<open>
  An invariant of the tables that the statement keeps, and that whatever happens while
  the context is consulted keeps, survives a statement with every fault.
\<close>

lemma exec_keeps:
  assumes "ExecContext p ctx stmt w = (r, w')" "I (tabs w)"
    and "\<And>v. I (tabs v) \<Longrightarrow> I (tabs (snd (ctx v)))"
    and "\<And>now t. I t \<Longrightarrow> I (snd (stmt now t))"
  shows "I (tabs w')"
proof -
  have c: "ctx w = (c, w1) \<Longrightarrow> I (tabs w1)" for c w1 using assms(2) assms(3) [of w] by simp
  from assms(1) show ?thesis
  proof (cases rule: exec_cases)
    case (ran w1 now)
    with c assms(4) [of "tabs w1" now] show ?thesis by simp
  qed (use c in auto)
qed

lemma query_keeps:
  assumes "QueryRowContext p ctx query w = (r, w')" "I (tabs w)"
    and "\<And>v. I (tabs v) \<Longrightarrow> I (tabs (snd (ctx v)))"
  shows "I (tabs w')"
proof -
  have c: "ctx w = (c, w1) \<Longrightarrow> I (tabs w1)" for c w1 using assms(2) assms(3) [of w] by simp
  from assms(1) show ?thesis
    by (cases rule: query_cases) (use c in auto)
qed

end

section \<open>A database client\<close>

text \<open>
  What becomes of the statements from here on; that none of them is lost, refused or left
  without its acknowledgement; and that the context never ends.
\<close>

definition fated :: "('w, 't sqldb) ref \<Rightarrow> (nat \<Rightarrow> fault) \<Rightarrow> 'w \<Rightarrow> bool" where
  "fated p f v \<longleftrightarrow> (\<forall>n. fst (db_env (rd p v) (db_seq (rd p v) + n)) = f n)"

definition healthy :: "('w, 't sqldb) ref \<Rightarrow> 'w \<Rightarrow> bool" where
  "healthy p v \<longleftrightarrow> fated p (\<lambda>_. Fine) v"

definition live :: "'w ctx \<Rightarrow> bool" where
  "live ctx \<longleftrightarrow> (\<forall>v. fst (ctx v) = None)"

text \<open>
  A database pointer together with a context whose use leaves the database alone (no
  other client writes while the method runs), over tables that exist.
\<close>

locale sql_client = sql_cell p for p :: "('w, 't sqldb) ref" +
  fixes ctx :: "'w ctx"
  assumes ctx_frame: "rd p (snd (ctx w)) = rd p w"
begin

lemma frame: "ctx v = (c, v') \<Longrightarrow> rd p v' = rd p v"
  using ctx_frame [of v] by simp

text \<open>One statement seen from the tables: skipped with an error, or executed.\<close>

lemma exec_effect:
  assumes "ExecContext p ctx stmt v = (r, v')"
  shows "(\<exists>e. r = Inl e \<and> tabs v' = tabs v) \<or>
    (\<exists>now. tabs v' = snd (stmt now (tabs v)) \<and>
      (\<forall>n e. r = Inr (n, e) \<longrightarrow> fst (stmt now (tabs v)) = Inr n))"
  using assms
  by (cases rule: exec_cases) (use frame in force)+

lemma query_effect:
  assumes "QueryRowContext p ctx query v = (r, v')"
  shows "tabs v' = tabs v \<and> ((\<exists>e. r = Inl e) \<or> (\<exists>x. r = Inr x \<and> query (tabs v) = Inr (Some x)))"
  using assms
  by (cases rule: query_cases) (use frame in \<open>force split: sum.splits option.splits\<close>)+

lemma fine_frame: "rd p v' = rd p v \<Longrightarrow> healthy p v' = healthy p v"
  by (simp add: healthy_def fated_def)

text \<open>With a live context the next statement meets its fate.\<close>

lemma exec_next:
  assumes "fated p f v" "live ctx" "ExecContext p ctx stmt v = (r, v')"
  shows "fated p (\<lambda>n. f (Suc n)) v' \<and> (\<exists>now msg. case f 0 of
      Lost e \<Rightarrow> tabs v' = tabs v \<and> r = Inl e
    | Fine \<Rightarrow> tabs v' = snd (stmt now (tabs v)) \<and>
        r = (case fst (stmt now (tabs v)) of Inl c \<Rightarrow> Inl (ErrExt c msg) | Inr n \<Rightarrow> Inr (n, None))
    | Unacked e \<Rightarrow> tabs v' = snd (stmt now (tabs v)) \<and>
        r = (case fst (stmt now (tabs v)) of Inl c \<Rightarrow> Inl (ErrExt c msg) | Inr n \<Rightarrow> Inl e)
    | RowsUnknown e \<Rightarrow> tabs v' = snd (stmt now (tabs v)) \<and>
        r = (case fst (stmt now (tabs v)) of Inl c \<Rightarrow> Inl (ErrExt c msg) | Inr n \<Rightarrow> Inr (n, Some e)))"
proof -
  obtain v1 where c: "ctx v = (None, v1)" using assms(2) by (metis live_def prod.collapse)
  have rv: "rd p v1 = rd p v" using frame [OF c] .
  obtain x now where e: "db_env (rd p v) (db_seq (rd p v)) = (x, now)" by fastforce
  have x: "f 0 = x" using assms(1) e unfolding fated_def by (metis add_0_right fst_conv)
  obtain res t where st: "stmt now (tabs v) = (res, t)" by fastforce
  have env: "db_env (rd p v') = db_env (rd p v)" "db_seq (rd p v') = Suc (db_seq (rd p v))"
    using assms(3) c e st by (auto simp: ExecContext_def rv Let_def rd_wr split: fault.splits)
  have "fated p (\<lambda>n. f (Suc n)) v'"
    using assms(1) unfolding fated_def env by (metis add_Suc_right add_Suc)
  moreover have "case x of
      Lost e \<Rightarrow> tabs v' = tabs v \<and> r = Inl e
    | Fine \<Rightarrow> tabs v' = t \<and> r = (case res of Inl c \<Rightarrow> Inl (ErrExt c (db_errtext (rd p v) c)) | Inr n \<Rightarrow> Inr (n, None))
    | Unacked e \<Rightarrow> tabs v' = t \<and> r = (case res of Inl c \<Rightarrow> Inl (ErrExt c (db_errtext (rd p v) c)) | Inr n \<Rightarrow> Inl e)
    | RowsUnknown e \<Rightarrow> tabs v' = t \<and>
        r = (case res of Inl c \<Rightarrow> Inl (ErrExt c (db_errtext (rd p v) c)) | Inr n \<Rightarrow> Inr (n, Some e))"
    using assms(3) c e st by (auto simp: ExecContext_def rv Let_def rd_wr split: fault.splits sum.splits)
  ultimately show ?thesis unfolding x
    by (intro conjI exI [of _ now] exI [of _ "case res of Inl c \<Rightarrow> db_errtext (rd p v) c | Inr n \<Rightarrow> ''''"])
      (auto simp: st split: fault.splits sum.splits)
qed

lemma query_next:
  assumes "fated p f v" "live ctx" "f 0 = Fine" "QueryRowContext p ctx query v = (r, v')"
  shows "fated p (\<lambda>n. f (Suc n)) v' \<and> tabs v' = tabs v \<and> (\<exists>msg. r = (case query (tabs v) of
      Inl c \<Rightarrow> Inl (ErrExt c msg) | Inr None \<Rightarrow> Inl sql_ErrNoRows | Inr (Some x) \<Rightarrow> Inr x))"
proof -
  obtain v1 where c: "ctx v = (None, v1)" using assms(2) by (metis live_def prod.collapse)
  have rv: "rd p v1 = rd p v" using frame [OF c] .
  obtain x now where e: "db_env (rd p v) (db_seq (rd p v)) = (x, now)" by fastforce
  have x: "x = Fine" using assms(1,3) e unfolding fated_def by (metis add_0_right fst_conv)
  have v': "v' = wr p ((rd p v)\<lparr>db_seq := Suc (db_seq (rd p v))\<rparr>) v1"
    and r: "r = (case query (tabs v) of Inl c \<Rightarrow> Inl (ErrExt c (db_errtext (rd p v) c))
      | Inr None \<Rightarrow> Inl sql_ErrNoRows | Inr (Some x) \<Rightarrow> Inr x)"
    using assms(4) c e x by (auto simp: QueryRowContext_def rv Let_def split: sum.splits option.splits)
  have "fated p (\<lambda>n. f (Suc n)) v'"
    using assms(1) unfolding fated_def by (simp add: v' rd_wr) (metis add_Suc_right add_Suc)
  then show ?thesis using r by (auto simp: v' rd_wr split: sum.splits option.splits)
qed

text \<open>With a healthy connection and a live context every statement runs and reports.\<close>

lemma exec_fine:
  assumes "healthy p v" "live ctx" "ExecContext p ctx stmt v = (r, v')"
  shows "healthy p v' \<and> (\<exists>now msg. tabs v' = snd (stmt now (tabs v)) \<and>
    r = (case fst (stmt now (tabs v)) of Inl c \<Rightarrow> Inl (ErrExt c msg) | Inr n \<Rightarrow> Inr (n, None)))"
  using exec_next [OF assms(1) [unfolded healthy_def] assms(2,3)] by (simp add: healthy_def)

lemma query_fine:
  assumes "healthy p v" "live ctx" "QueryRowContext p ctx query v = (r, v')"
  shows "healthy p v' \<and> tabs v' = tabs v \<and> (\<exists>msg. r = (case query (tabs v) of Inl c \<Rightarrow> Inl (ErrExt c msg)
    | Inr None \<Rightarrow> Inl sql_ErrNoRows | Inr (Some x) \<Rightarrow> Inr x))"
  using query_next [OF assms(1) [unfolded healthy_def] assms(2) _ assms(3)] by (simp add: healthy_def)

lemma exec_closed: "ExecContext p ctx stmt v = (r, v') \<Longrightarrow> J (tabs v) \<Longrightarrow>
    (\<And>now t. J t \<Longrightarrow> J (snd (stmt now t))) \<Longrightarrow> J (tabs v')"
  by (erule exec_keeps [where I = J]) (simp_all add: ctx_frame)

lemma query_tabs: "QueryRowContext p ctx query v = (r, v') \<Longrightarrow> tabs v' = tabs v"
  using query_effect by blast

end

section \<open>Pools\<close>

text \<open>
  \<open>sql.Open\<close> and \<open>Close\<close> of a pool with a driver. A pool is opened on one database, and \<open>conns\<close>
  counts the pools that are open; statements do not change their number.
\<close>

record ('w, 't) sql_driver =
  sql_Open :: "string \<Rightarrow> string \<Rightarrow> ('w, go_error + ('w, 't sqldb) ref) prim"
  sql_Close :: "('w, 't sqldb) ref \<Rightarrow> ('w, go_error option) prim"

locale sql_pool = sql_cell p for p :: "('w, 't sqldb) ref" +
  fixes sql :: "('w, 't) sql_driver" and conns :: "'w \<Rightarrow> int"
  assumes open_ok: "sql_Open sql d dsn v = (Inr q, v') \<Longrightarrow> q = p \<and> conns v' = conns v + 1 \<and> rd p v' = rd p v"
    and open_failed: "sql_Open sql d dsn v = (Inl e, v') \<Longrightarrow> conns v' = conns v \<and> rd p v' = rd p v"
    and close: "conns (snd (sql_Close sql p v)) = conns v - 1" "rd p (snd (sql_Close sql p v)) = rd p v"
    and conns_wr: "conns (wr p s v) = conns v"
begin

lemma conns_untouched: "(\<And>v. conns (snd (ctx v)) = conns v) \<Longrightarrow> untouched p ctx (\<lambda>v. conns v = n)"
  by (simp add: untouched_def conns_wr)

lemma exec_conns:
  assumes "ExecContext p ctx stmt v = (r, v')" "\<And>v. conns (snd (ctx v)) = conns v"
  shows "conns v' = conns v"
  using exec_untouched [OF assms(1) conns_untouched [of ctx "conns v"]] assms(2) by blast

end

end
