(* ===== verification/OrdersDb.thy ===== *)
theory OrdersDb
  imports Reliable SqlDb
begin

text \<open>
  The Postgres stores of internal/db/orders: the tables their schemas create, one function
  per SQL statement they send, and the methods of \<open>SagaStore\<close>, \<open>PostgresPaymentClient\<close> and \<open>PostgresDriverClient\<close>.
  The data types of internal/orders/saga/types.go are here too.
\<close>

section \<open>Saga records\<close>

definition SagaStatusStarted :: string where "SagaStatusStarted = ''started''"
definition SagaStatusSucceeded :: string where "SagaStatusSucceeded = ''succeeded''"
definition SagaStatusFailed :: string where "SagaStatusFailed = ''failed''"
definition SagaStatusRefunded :: string where "SagaStatusRefunded = ''refunded''"

lemmas status_defs = SagaStatusStarted_def SagaStatusSucceeded_def SagaStatusFailed_def
  SagaStatusRefunded_def

record SagaRecord =
  OrderID :: string
  UserID :: string
  Amount :: float64
  Status :: string

definition ErrIdempotencyConflict :: go_error where
  "ErrIdempotencyConflict =
     ErrVar ''saga.ErrIdempotencyConflict'' ''idempotency key reused with different payload''"

text \<open>The interface \<open>SagaStore\<close>.\<close>

record 'w SagaStoreI =
  ss_Start :: "'w ctx \<Rightarrow> string \<Rightarrow> string \<Rightarrow> string \<Rightarrow> float64 \<Rightarrow>
    ('w, go_error + SagaRecord \<times> bool) act"
  ss_UpdateStatus :: "'w ctx \<Rightarrow> string \<Rightarrow> string \<Rightarrow> ('w, go_error option) act"
  ss_AddStep :: "'w ctx \<Rightarrow> string \<Rightarrow> string \<Rightarrow> string \<Rightarrow> string \<Rightarrow> ('w, go_error option) act"

section \<open>Tables\<close>

record saga_row =
  sg_order_id :: string
  sg_idempotency_key :: string
  sg_user_id :: string
  sg_amount :: float64
  sg_status :: string
  sg_created_at :: instant
  sg_updated_at :: instant

record step_row =
  st_id :: nat
  st_order_id :: string
  st_step :: string
  st_status :: string
  st_detail :: string
  st_created_at :: instant

record payment_row =
  pm_order_id :: string
  pm_amount :: float64
  pm_charged_at :: instant
  pm_refunded_at :: "instant option"
  pm_refund_amount :: "float64 option"

record assignment_row =
  as_order_id :: string
  as_driver_id :: string
  as_assigned_at :: instant

datatype table_name = T_payments | T_order_sagas | T_order_saga_steps | T_order_assignments

record tables =
  tb_created :: "table_name list"
  tb_sagas :: "saga_row list"
  tb_steps :: "step_row list"
  tb_step_seq :: nat
  tb_payments :: "payment_row list"
  tb_assignments :: "assignment_row list"

type_synonym db = "tables sqldb"

text \<open>
  The statements. They fail as their tables and constraints make them fail; a value Postgres
  cannot store in its column (a \<open>TEXT\<close> with a NUL byte or broken UTF-8) is refused by the
  server before the statement runs, which is a \<open>Lost\<close> statement of the environment.
\<close>

definition create_table :: "table_name \<Rightarrow> table_name list \<Rightarrow> tables stmt" where
  "create_table name refs now t =
     (if name \<in> set (tb_created t) then (Inr 0, t)
      else if \<not> set refs \<subseteq> set (tb_created t) then (Inl undefined_table, t)
      else (Inr 0, t\<lparr>tb_created := name # tb_created t\<rparr>))"

definition insert_saga :: "string \<Rightarrow> string \<Rightarrow> string \<Rightarrow> float64 \<Rightarrow> string \<Rightarrow> tables stmt" where
  "insert_saga orderID key userID amount status now t =
     (if T_order_sagas \<notin> set (tb_created t) then (Inl undefined_table, t)
      else if key \<in> sg_idempotency_key ` set (tb_sagas t) then (Inr 0, t)
      else if orderID \<in> sg_order_id ` set (tb_sagas t) then (Inl unique_violation, t)
      else (Inr 1, t\<lparr>tb_sagas := tb_sagas t @
        [\<lparr>sg_order_id = orderID, sg_idempotency_key = key, sg_user_id = userID,
          sg_amount = amount, sg_status = status, sg_created_at = now, sg_updated_at = now\<rparr>]\<rparr>))"

definition update_saga_status :: "string \<Rightarrow> string \<Rightarrow> tables stmt" where
  "update_saga_status orderID status now t =
     (if T_order_sagas \<notin> set (tb_created t) then (Inl undefined_table, t)
      else (Inr (length (filter (\<lambda>r. sg_order_id r = orderID) (tb_sagas t))),
        t\<lparr>tb_sagas := map (\<lambda>r. if sg_order_id r = orderID
            then r\<lparr>sg_status := status, sg_updated_at := now\<rparr> else r) (tb_sagas t)\<rparr>))"

definition insert_step :: "string \<Rightarrow> string \<Rightarrow> string \<Rightarrow> string \<Rightarrow> tables stmt" where
  "insert_step orderID step status detail now t =
     (if T_order_saga_steps \<notin> set (tb_created t) then (Inl undefined_table, t)
      else let t' = t\<lparr>tb_step_seq := Suc (tb_step_seq t)\<rparr>
        in if orderID \<notin> sg_order_id ` set (tb_sagas t) then (Inl foreign_key_violation, t')
        else (Inr 1, t'\<lparr>tb_steps := tb_steps t @
          [\<lparr>st_id = Suc (tb_step_seq t), st_order_id = orderID, st_step = step,
            st_status = status, st_detail = detail, st_created_at = now\<rparr>]\<rparr>))"

definition insert_payment :: "string \<Rightarrow> float64 \<Rightarrow> tables stmt" where
  "insert_payment orderID amount now t =
     (if T_payments \<notin> set (tb_created t) then (Inl undefined_table, t)
      else if orderID \<in> pm_order_id ` set (tb_payments t) then (Inr 0, t)
      else (Inr 1, t\<lparr>tb_payments := tb_payments t @
        [\<lparr>pm_order_id = orderID, pm_amount = amount, pm_charged_at = now,
          pm_refunded_at = None, pm_refund_amount = None\<rparr>]\<rparr>))"

definition update_refund :: "string \<Rightarrow> float64 \<Rightarrow> tables stmt" where
  "update_refund orderID amount now t =
     (if T_payments \<notin> set (tb_created t) then (Inl undefined_table, t)
      else (Inr (length (filter (\<lambda>r. pm_order_id r = orderID \<and> pm_refunded_at r = None)
                  (tb_payments t))),
        t\<lparr>tb_payments := map (\<lambda>r. if pm_order_id r = orderID \<and> pm_refunded_at r = None
            then r\<lparr>pm_refund_amount := Some amount, pm_refunded_at := Some now\<rparr> else r)
            (tb_payments t)\<rparr>))"

definition insert_assignment :: "string \<Rightarrow> string \<Rightarrow> tables stmt" where
  "insert_assignment orderID driverID now t =
     (if T_order_assignments \<notin> set (tb_created t) then (Inl undefined_table, t)
      else if orderID \<in> as_order_id ` set (tb_assignments t) then (Inr 0, t)
      else if orderID \<notin> sg_order_id ` set (tb_sagas t) then (Inl foreign_key_violation, t)
      else (Inr 1, t\<lparr>tb_assignments := tb_assignments t @
        [\<lparr>as_order_id = orderID, as_driver_id = driverID, as_assigned_at = now\<rparr>]\<rparr>))"

text \<open>The queries: a SQLSTATE, or the first row if there is one.\<close>

definition select_saga :: "string \<Rightarrow> tables \<Rightarrow> string + SagaRecord option" where
  "select_saga key t =
     (if T_order_sagas \<notin> set (tb_created t) then Inl undefined_table
      else Inr (map_option (\<lambda>r. \<lparr>OrderID = sg_order_id r, UserID = sg_user_id r,
          Amount = sg_amount r, Status = sg_status r\<rparr>)
        (find (\<lambda>r. sg_idempotency_key r = key) (tb_sagas t))))"

definition select_refunded :: "string \<Rightarrow> tables \<Rightarrow> string + bool option" where
  "select_refunded orderID t =
     (if T_payments \<notin> set (tb_created t) then Inl undefined_table
      else Inr (map_option (\<lambda>r. pm_refunded_at r \<noteq> None)
        (find (\<lambda>r. pm_order_id r = orderID) (tb_payments t))))"

definition select_driver :: "string \<Rightarrow> tables \<Rightarrow> string + string option" where
  "select_driver orderID t =
     (if T_order_assignments \<notin> set (tb_created t) then Inl undefined_table
      else Inr (map_option as_driver_id
        (find (\<lambda>r. as_order_id r = orderID) (tb_assignments t))))"

section \<open>SagaStore\<close>

definition SagaStore_InitSchema :: "('w, db) ref \<Rightarrow> 'w ctx \<Rightarrow> ('w, go_error option) act" where
  "SagaStore_InitSchema p ctx w =
     (case ExecContext p ctx (create_table T_order_sagas []) w of
        (Inl e, w) \<Rightarrow> Some (Some e, w)
      | (Inr _, w) \<Rightarrow>
          (case ExecContext p ctx (create_table T_order_saga_steps [T_order_sagas]) w of
             (Inl e, w) \<Rightarrow> Some (Some e, w)
           | (Inr _, w) \<Rightarrow> Some (None, w)))"

definition SagaStore_Start ::
  "('w, db) ref \<Rightarrow> 'w ctx \<Rightarrow> string \<Rightarrow> string \<Rightarrow> string \<Rightarrow> float64 \<Rightarrow>
   ('w, go_error + SagaRecord \<times> bool) act" where
  "SagaStore_Start p ctx idempotencyKey orderID userID amount w =
     (case ExecContext p ctx (insert_saga orderID idempotencyKey userID amount SagaStatusStarted) w of
        (Inl e, w) \<Rightarrow> Some (Inl e, w)
      | (Inr res, w) \<Rightarrow>
          (case RowsAffected res of
             Inl e \<Rightarrow> Some (Inl e, w)
           | Inr affected \<Rightarrow>
               (case QueryRowContext p ctx (select_saga idempotencyKey) w of
                  (Inl e, w) \<Rightarrow>
                    if errors_Is e sql_ErrNoRows
                    then Some (Inl (ErrText ''saga not found after insert''), w)
                    else Some (Inl e, w)
                | (Inr record, w) \<Rightarrow>
                    if UserID record \<noteq> userID \<or> \<not> f64_eq (Amount record) amount
                    then Some (Inl ErrIdempotencyConflict, w)
                    else Some (Inr (record, affected = 1), w))))"

definition SagaStore_UpdateStatus ::
  "('w, db) ref \<Rightarrow> 'w ctx \<Rightarrow> string \<Rightarrow> string \<Rightarrow> ('w, go_error option) act" where
  "SagaStore_UpdateStatus p ctx orderID status w =
     (case ExecContext p ctx (update_saga_status orderID status) w of
        (Inl e, w) \<Rightarrow> Some (Some e, w) | (Inr _, w) \<Rightarrow> Some (None, w))"

definition SagaStore_AddStep ::
  "('w, db) ref \<Rightarrow> 'w ctx \<Rightarrow> string \<Rightarrow> string \<Rightarrow> string \<Rightarrow> string \<Rightarrow> ('w, go_error option) act" where
  "SagaStore_AddStep p ctx orderID step status detail w =
     (case ExecContext p ctx (insert_step orderID step status detail) w of
        (Inl e, w) \<Rightarrow> Some (Some e, w) | (Inr _, w) \<Rightarrow> Some (None, w))"

definition NewSagaStore :: "('w, db) ref \<Rightarrow> 'w SagaStoreI" where
  "NewSagaStore p = \<lparr>ss_Start = SagaStore_Start p, ss_UpdateStatus = SagaStore_UpdateStatus p,
     ss_AddStep = SagaStore_AddStep p\<rparr>"

section \<open>PostgresPaymentClient\<close>

definition ErrAlreadyCharged :: go_error where
  "ErrAlreadyCharged = ErrVar ''ordersdb.ErrAlreadyCharged'' ''order already charged''"
definition ErrNotCharged :: go_error where
  "ErrNotCharged = ErrVar ''ordersdb.ErrNotCharged'' ''order not charged''"
definition ErrAlreadyRefunded :: go_error where
  "ErrAlreadyRefunded = ErrVar ''ordersdb.ErrAlreadyRefunded'' ''order already refunded''"

definition Payment_InitSchema :: "('w, db) ref \<Rightarrow> 'w ctx \<Rightarrow> ('w, go_error option) act" where
  "Payment_InitSchema p ctx w =
     (case ExecContext p ctx (create_table T_payments []) w of
        (Inl e, w) \<Rightarrow> Some (Some e, w) | (Inr _, w) \<Rightarrow> Some (None, w))"

definition Payment_Charge ::
  "('w, db) ref \<Rightarrow> 'w ctx \<Rightarrow> string \<Rightarrow> float64 \<Rightarrow> ('w, go_error option) act" where
  "Payment_Charge p ctx orderID amount w =
     (if orderID = '''' then Some (Some (ErrText ''order id required''), w)
      else (case ExecContext p ctx (insert_payment orderID amount) w of
        (Inl e, w) \<Rightarrow> Some (Some e, w)
      | (Inr res, w) \<Rightarrow>
          (case RowsAffected res of
             Inl e \<Rightarrow> Some (Some e, w)
           | Inr affected \<Rightarrow>
               if affected = 0 then Some (Some ErrAlreadyCharged, w) else Some (None, w))))"

definition Payment_Refund ::
  "('w, db) ref \<Rightarrow> 'w ctx \<Rightarrow> string \<Rightarrow> float64 \<Rightarrow> ('w, go_error option) act" where
  "Payment_Refund p ctx orderID amount w =
     (if orderID = '''' then Some (Some (ErrText ''order id required''), w)
      else (case ExecContext p ctx (update_refund orderID amount) w of
        (Inl e, w) \<Rightarrow> Some (Some e, w)
      | (Inr res, w) \<Rightarrow>
          (case RowsAffected res of
             Inl e \<Rightarrow> Some (Some e, w)
           | Inr affected \<Rightarrow>
               if affected > 0 then Some (None, w)
               else (case QueryRowContext p ctx (select_refunded orderID) w of
                  (Inr refunded, w) \<Rightarrow>
                    if refunded then Some (Some ErrAlreadyRefunded, w)
                    else Some (Some ErrNotCharged, w)
                | (Inl e, w) \<Rightarrow>
                    if e = sql_ErrNoRows then Some (Some ErrNotCharged, w)
                    else Some (Some e, w)))))"

section \<open>PostgresDriverClient\<close>

definition Driver_InitSchema :: "('w, db) ref \<Rightarrow> 'w ctx \<Rightarrow> ('w, go_error option) act" where
  "Driver_InitSchema p ctx w =
     (case ExecContext p ctx (create_table T_order_assignments [T_order_sagas]) w of
        (Inl e, w) \<Rightarrow> Some (Some e, w) | (Inr _, w) \<Rightarrow> Some (None, w))"

definition Driver_Assign ::
  "('w, db) ref \<Rightarrow> 'w ctx \<Rightarrow> string \<Rightarrow> string \<Rightarrow> ('w, go_error option) act" where
  "Driver_Assign p ctx orderID driverID w =
     (if orderID = '''' \<or> driverID = '''' then
        Some (Some (ErrText ''order and driver ids are required''), w)
      else (case ExecContext p ctx (insert_assignment orderID driverID) w of
        (Inl e, w) \<Rightarrow> Some (Some e, w)
      | (Inr res, w) \<Rightarrow>
          (case RowsAffected res of
             Inl e \<Rightarrow> Some (Some e, w)
           | Inr affected \<Rightarrow>
               if affected > 0 then Some (None, w)
               else (case QueryRowContext p ctx (select_driver orderID) w of
                  (Inr existing, w) \<Rightarrow>
                    if existing = driverID then Some (None, w)
                    else Some (Some (ErrText ''order already assigned to different driver''), w)
                | (Inl e, w) \<Rightarrow>
                    if e = sql_ErrNoRows
                    then Some (Some (ErrText ''assignment not found after insert''), w)
                    else Some (Some e, w)))))"

definition NewPostgresPaymentClient :: "('w, db) ref \<Rightarrow> 'w PaymentClient" where
  "NewPostgresPaymentClient p = \<lparr>pc_Charge = Payment_Charge p, pc_Refund = Payment_Refund p\<rparr>"

definition NewPostgresDriverClient :: "('w, db) ref \<Rightarrow> 'w DriverClient" where
  "NewPostgresDriverClient p = \<lparr>dc_Assign = Driver_Assign p\<rparr>"

section \<open>Well-formed tables\<close>

text \<open>What the schemas promise: keys are unique, foreign keys point to a saga.\<close>

definition tables_wf :: "tables \<Rightarrow> bool" where
  "tables_wf t \<longleftrightarrow>
     distinct (map sg_order_id (tb_sagas t)) \<and>
     distinct (map sg_idempotency_key (tb_sagas t)) \<and>
     distinct (map pm_order_id (tb_payments t)) \<and>
     distinct (map as_order_id (tb_assignments t)) \<and>
     st_order_id ` set (tb_steps t) \<subseteq> sg_order_id ` set (tb_sagas t) \<and>
     as_order_id ` set (tb_assignments t) \<subseteq> sg_order_id ` set (tb_sagas t) \<and>
     distinct (map st_id (tb_steps t)) \<and> (\<forall>r \<in> set (tb_steps t). st_id r \<le> tb_step_seq t)"

definition empty_tables :: tables where
  "empty_tables = \<lparr>tb_created = [], tb_sagas = [], tb_steps = [], tb_step_seq = 0,
     tb_payments = [], tb_assignments = []\<rparr>"

definition all_created :: "tables \<Rightarrow> bool" where
  "all_created t \<longleftrightarrow> {T_payments, T_order_sagas, T_order_saga_steps, T_order_assignments} \<subseteq> set (tb_created t)"

lemma tables_wf_empty: "tables_wf empty_tables"
  by (simp add: tables_wf_def empty_tables_def)

named_theorems stmt_wf \<open>statements keep the tables well-formed\<close>

lemma map_upd_field: "(\<And>r. f (g r) = f r) \<Longrightarrow> map f (map (\<lambda>r. if P r then g r else r) xs) = map f xs"
  by (induction xs) auto

lemma set_upd_field:
  "(\<And>r. f (g r) = f r) \<Longrightarrow> f ` set (map (\<lambda>r. if P r then g r else r) xs) = f ` set xs"
  using arg_cong [OF map_upd_field, of f g set P xs] by (simp only: set_map)

lemma create_table_wf [stmt_wf]: "tables_wf t \<Longrightarrow> tables_wf (snd (create_table n refs now t))"
  by (simp add: create_table_def tables_wf_def)

lemma insert_saga_wf [stmt_wf]: "tables_wf t \<Longrightarrow> tables_wf (snd (insert_saga o' k u a st now t))"
  by (auto simp: insert_saga_def tables_wf_def)

lemma update_saga_status_wf [stmt_wf]: "tables_wf t \<Longrightarrow> tables_wf (snd (update_saga_status o' st now t))"
  by (simp add: update_saga_status_def tables_wf_def map_upd_field set_upd_field
      del: map_map set_map list.set_map)

lemma insert_step_wf [stmt_wf]: "tables_wf t \<Longrightarrow> tables_wf (snd (insert_step o' s st d now t))"
  by (force simp: insert_step_def tables_wf_def Let_def)

lemma insert_payment_wf [stmt_wf]: "tables_wf t \<Longrightarrow> tables_wf (snd (insert_payment o' a now t))"
  by (auto simp: insert_payment_def tables_wf_def)

lemma update_refund_wf [stmt_wf]: "tables_wf t \<Longrightarrow> tables_wf (snd (update_refund o' a now t))"
  by (simp add: update_refund_def tables_wf_def map_upd_field del: map_map)

lemma insert_assignment_wf [stmt_wf]: "tables_wf t \<Longrightarrow> tables_wf (snd (insert_assignment o' d now t))"
  by (auto simp: insert_assignment_def tables_wf_def)

end
