(* ===== verification/Stores.thy ===== *)
theory Stores
  imports OrdersDb
begin

text \<open>
  What the three Postgres stores promise: the payment ledger (an abstract state machine
  per order that \<open>Charge\<close> and \<open>Refund\<close> implement), the assignment of drivers, the
  idempotency contract of \<open>SagaStore\<close> (a locale, interpreted on the Postgres store), and
  that every method keeps what the single statements keep, whatever fails.
\<close>

section \<open>The payment ledger\<close>

datatype pay_state = Unpaid | Charged float64 | Refunded float64 "float64 option"

definition ledger :: "tables \<Rightarrow> string \<Rightarrow> pay_state" where
  "ledger t orderID =
     (case find (\<lambda>r. pm_order_id r = orderID) (tb_payments t) of
        None \<Rightarrow> Unpaid
      | Some r \<Rightarrow> (case pm_refunded_at r of
          None \<Rightarrow> Charged (pm_amount r) | Some _ \<Rightarrow> Refunded (pm_amount r) (pm_refund_amount r)))"

fun abs_charge :: "float64 \<Rightarrow> pay_state \<Rightarrow> pay_state" where
  "abs_charge a Unpaid = Charged a"
| "abs_charge a s = s"

fun abs_refund :: "float64 \<Rightarrow> pay_state \<Rightarrow> pay_state" where
  "abs_refund a (Charged c) = Refunded c (Some a)"
| "abs_refund a s = s"

lemma find_None_iff_image: "find (\<lambda>r. f r = k) xs = None \<longleftrightarrow> k \<notin> f ` set xs"
  by (induction xs) auto

lemma find_append: "find P (xs @ ys) = (case find P xs of None \<Rightarrow> find P ys | Some x \<Rightarrow> Some x)"
  by (induction xs) auto

lemma find_map_keys: "(\<And>r. f (g r) = f r) \<Longrightarrow>
    find (\<lambda>r. f r = k) (map (\<lambda>r. if P r then g r else r) xs) =
    map_option (\<lambda>r. if P r then g r else r) (find (\<lambda>r. f r = k) xs)"
  by (induction xs) auto

lemma find_key: "find (\<lambda>r. f r = k) xs = Some r \<Longrightarrow> f r = k"
  by (auto simp: find_Some_iff)

lemma find_key_unique: "distinct (map f xs) \<Longrightarrow> r \<in> set xs \<Longrightarrow> f r = k \<Longrightarrow> find (\<lambda>r. f r = k) xs = Some r"
  by (induction xs) (force+)

lemma filter_key_length:
  "distinct (map f xs) \<Longrightarrow> length (filter (\<lambda>r. f r = k \<and> Q r) xs) =
    (case find (\<lambda>r. f r = k) xs of None \<Rightarrow> 0 | Some r \<Rightarrow> if Q r then 1 else 0)"
proof (induction xs)
  case (Cons x xs)
  have "f x = k \<Longrightarrow> filter (\<lambda>r. f r = k \<and> Q r) xs = []"
    using Cons.prems by (auto simp: filter_empty_conv) (metis imageI)
  with Cons show ?case by auto
qed simp

lemma ledger_insert_payment:
  assumes "T_payments \<in> set (tb_created t)"
  shows "fst (insert_payment o' a now t) = Inr (if ledger t o' = Unpaid then 1 else 0)"
    and "ledger (snd (insert_payment o' a now t)) = (ledger t)(o' := abs_charge a (ledger t o'))"
proof -
  have unpaid: "ledger t k = Unpaid \<longleftrightarrow> k \<notin> pm_order_id ` set (tb_payments t)" for k
    unfolding find_None_iff_image [symmetric] by (auto simp: ledger_def split: option.splits)
  show "fst (insert_payment o' a now t) = Inr (if ledger t o' = Unpaid then 1 else 0)"
    using assms unpaid [of o'] by (simp add: insert_payment_def)
  show "ledger (snd (insert_payment o' a now t)) = (ledger t)(o' := abs_charge a (ledger t o'))"
  proof (cases "ledger t o' = Unpaid")
    case True
    then have "find (\<lambda>r. pm_order_id r = o') (tb_payments t) = None"
      using unpaid find_None_iff_image by metis
    with True assms unpaid [of o'] show ?thesis
      by (auto simp: insert_payment_def ledger_def fun_eq_iff find_append split: option.splits)
  next
    case False
    with unpaid [of o'] assms show ?thesis
      by (cases "ledger t o'") (auto simp: insert_payment_def)
  qed
qed

lemma ledger_update_refund:
  assumes "T_payments \<in> set (tb_created t)" "tables_wf t"
  shows "fst (update_refund o' a now t) = Inr (if \<exists>c. ledger t o' = Charged c then 1 else 0)"
    and "ledger (snd (update_refund o' a now t)) = (ledger t)(o' := abs_refund a (ledger t o'))"
proof -
  have d: "distinct (map pm_order_id (tb_payments t))" using assms(2) by (simp add: tables_wf_def)
  show "fst (update_refund o' a now t) = Inr (if \<exists>c. ledger t o' = Charged c then 1 else 0)"
    using assms(1) filter_key_length [OF d, of o' "\<lambda>r. pm_refunded_at r = None"]
    by (auto simp: update_refund_def ledger_def split: option.splits)
  have upd: "find (\<lambda>r. pm_order_id r = k) (tb_payments (snd (update_refund o' a now t))) =
      map_option (\<lambda>r. if pm_order_id r = o' \<and> pm_refunded_at r = None
        then r\<lparr>pm_refund_amount := Some a, pm_refunded_at := Some now\<rparr> else r)
      (find (\<lambda>r. pm_order_id r = k) (tb_payments t))" for k
    using assms(1) unfolding update_refund_def by (simp add: find_map_keys)
  show "ledger (snd (update_refund o' a now t)) = (ledger t)(o' := abs_refund a (ledger t o'))"
  proof
    fix k
    show "ledger (snd (update_refund o' a now t)) k = ((ledger t)(o' := abs_refund a (ledger t o'))) k"
    proof (cases "find (\<lambda>r. pm_order_id r = k) (tb_payments t)")
      case None
      then show ?thesis unfolding ledger_def upd by auto
    next
      case (Some r)
      from find_key [OF this] Some show ?thesis
        unfolding ledger_def upd by (auto split: option.splits)
    qed
  qed
qed

section \<open>Assignments and sagas\<close>

definition driver_of :: "tables \<Rightarrow> string \<Rightarrow> string option" where
  "driver_of t orderID = map_option as_driver_id (find (\<lambda>r. as_order_id r = orderID) (tb_assignments t))"

text \<open>The order that holds an idempotency key, and the status of an order.\<close>

definition holder :: "tables \<Rightarrow> string \<Rightarrow> (string \<times> string \<times> float64) option" where
  "holder t key = map_option (\<lambda>r. (sg_order_id r, sg_user_id r, sg_amount r))
     (find (\<lambda>r. sg_idempotency_key r = key) (tb_sagas t))"

definition status_of :: "tables \<Rightarrow> string \<Rightarrow> string option" where
  "status_of t orderID = map_option sg_status (find (\<lambda>r. sg_order_id r = orderID) (tb_sagas t))"

definition orders_of :: "tables \<Rightarrow> string set" where
  "orders_of t = sg_order_id ` set (tb_sagas t)"

lemma driver_of_None: "driver_of t o' = None \<longleftrightarrow> o' \<notin> as_order_id ` set (tb_assignments t)"
  by (simp add: driver_of_def find_None_iff_image)

lemma holder_None: "holder t k = None \<longleftrightarrow> k \<notin> sg_idempotency_key ` set (tb_sagas t)"
  by (simp add: holder_def find_None_iff_image)

lemma status_of_None: "status_of t o' = None \<longleftrightarrow> o' \<notin> orders_of t"
  by (simp add: status_of_def orders_of_def find_None_iff_image)

lemma insert_assignment_driver:
  assumes "T_order_assignments \<in> set (tb_created t)"
  shows "fst (insert_assignment o' d now t) =
      (if driver_of t o' \<noteq> None then Inr 0
       else if o' \<in> orders_of t then Inr 1 else Inl foreign_key_violation)"
    and "driver_of (snd (insert_assignment o' d now t)) =
      (if driver_of t o' = None \<and> o' \<in> orders_of t then (driver_of t)(o' \<mapsto> d) else driver_of t)"
proof -
  show "fst (insert_assignment o' d now t) =
      (if driver_of t o' \<noteq> None then Inr 0
       else if o' \<in> orders_of t then Inr 1 else Inl foreign_key_violation)"
    using assms driver_of_None [of t o'] by (auto simp: insert_assignment_def orders_of_def)
  show "driver_of (snd (insert_assignment o' d now t)) =
      (if driver_of t o' = None \<and> o' \<in> orders_of t then (driver_of t)(o' \<mapsto> d) else driver_of t)"
  proof (cases "driver_of t o' = None \<and> o' \<in> orders_of t")
    case True
    then have "find (\<lambda>r. as_order_id r = o') (tb_assignments t) = None" by (simp add: driver_of_def)
    with True assms driver_of_None [of t o'] show ?thesis
      by (auto simp: insert_assignment_def orders_of_def driver_of_def fun_eq_iff find_append
          split: option.splits)
  next
    case False
    with assms driver_of_None [of t o'] show ?thesis
      by (auto simp: insert_assignment_def orders_of_def)
  qed
qed

lemma insert_saga_holder:
  assumes "T_order_sagas \<in> set (tb_created t)"
  shows "fst (insert_saga o' k u a st now t) =
      (if holder t k \<noteq> None then Inr 0
       else if o' \<in> orders_of t then Inl unique_violation else Inr 1)"
    and "holder (snd (insert_saga o' k u a st now t)) =
      (if holder t k = None \<and> o' \<notin> orders_of t then (holder t)(k \<mapsto> (o', u, a)) else holder t)"
    and "status_of (snd (insert_saga o' k u a st now t)) =
      (if holder t k = None \<and> o' \<notin> orders_of t then (status_of t)(o' \<mapsto> st) else status_of t)"
proof -
  note none = holder_None [of t k]
  show "fst (insert_saga o' k u a st now t) =
      (if holder t k \<noteq> None then Inr 0
       else if o' \<in> orders_of t then Inl unique_violation else Inr 1)"
    using assms none by (auto simp: insert_saga_def orders_of_def)
  show "holder (snd (insert_saga o' k u a st now t)) =
      (if holder t k = None \<and> o' \<notin> orders_of t then (holder t)(k \<mapsto> (o', u, a)) else holder t)"
  proof (cases "holder t k = None \<and> o' \<notin> orders_of t")
    case True
    then have "find (\<lambda>r. sg_idempotency_key r = k) (tb_sagas t) = None" by (simp add: holder_def)
    with True assms none show ?thesis
      by (auto simp: insert_saga_def orders_of_def holder_def fun_eq_iff find_append
          split: option.splits)
  qed (use assms none in \<open>auto simp: insert_saga_def orders_of_def\<close>)
  show "status_of (snd (insert_saga o' k u a st now t)) =
      (if holder t k = None \<and> o' \<notin> orders_of t then (status_of t)(o' \<mapsto> st) else status_of t)"
  proof (cases "holder t k = None \<and> o' \<notin> orders_of t")
    case True
    then have "find (\<lambda>r. sg_order_id r = o') (tb_sagas t) = None"
      by (simp add: orders_of_def find_None_iff_image)
    with True assms none show ?thesis
      by (auto simp: insert_saga_def orders_of_def status_of_def fun_eq_iff find_append
          split: option.splits)
  qed (use assms none in \<open>auto simp: insert_saga_def orders_of_def\<close>)
qed

lemma update_saga_status_effect:
  assumes "T_order_sagas \<in> set (tb_created t)"
  shows "holder (snd (update_saga_status o' st now t)) = holder t"
    and "status_of (snd (update_saga_status o' st now t)) =
      (if o' \<in> orders_of t then (status_of t)(o' \<mapsto> st) else status_of t)"
    and "orders_of (snd (update_saga_status o' st now t)) = orders_of t"
proof -
  let ?g = "\<lambda>r. r\<lparr>sg_status := st, sg_updated_at := now\<rparr>"
  have m: "tb_sagas (snd (update_saga_status o' st now t)) =
      map (\<lambda>r. if sg_order_id r = o' then ?g r else r) (tb_sagas t)"
    using assms by (simp add: update_saga_status_def)
  show "holder (snd (update_saga_status o' st now t)) = holder t"
    by (auto simp: holder_def m find_map_keys option.map_comp fun_eq_iff comp_def
        intro!: option.map_cong0)
  show "orders_of (snd (update_saga_status o' st now t)) = orders_of t"
    unfolding orders_of_def m by (rule set_upd_field) simp
  show "status_of (snd (update_saga_status o' st now t)) =
      (if o' \<in> orders_of t then (status_of t)(o' \<mapsto> st) else status_of t)"
  proof
    fix q
    show "status_of (snd (update_saga_status o' st now t)) q =
        (if o' \<in> orders_of t then (status_of t)(o' \<mapsto> st) else status_of t) q"
    proof (cases "find (\<lambda>r. sg_order_id r = q) (tb_sagas t)")
      case None
      moreover have "q \<notin> orders_of t"
        using None by (simp add: orders_of_def find_None_iff_image)
      ultimately show ?thesis by (auto simp: status_of_def m find_map_keys)
    next
      case (Some r)
      from find_key [OF this] Some show ?thesis
        by (auto simp: status_of_def m find_map_keys orders_of_def) (force simp: find_Some_iff)+
    qed
  qed
qed

lemma select_saga_holder:
  "T_order_sagas \<in> set (tb_created t) \<Longrightarrow> select_saga k t = Inr x \<Longrightarrow>
    holder t k = map_option (\<lambda>r. (OrderID r, UserID r, Amount r)) x"
  by (auto simp: select_saga_def holder_def option.map_comp comp_def)

lemma select_driver_of:
  "T_order_assignments \<in> set (tb_created t) \<Longrightarrow> select_driver o' t = Inr (driver_of t o')"
  by (simp add: select_driver_def driver_of_def)

section \<open>Frames\<close>

text \<open>What each statement leaves alone.\<close>

named_theorems tables_frame \<open>what a statement leaves alone\<close>

lemma create_table_frame [tables_frame]:
  "ledger (snd (create_table n refs now t)) = ledger t"
  "driver_of (snd (create_table n refs now t)) = driver_of t"
  "holder (snd (create_table n refs now t)) = holder t"
  "status_of (snd (create_table n refs now t)) = status_of t"
  by (simp_all add: create_table_def ledger_def driver_of_def holder_def status_of_def fun_eq_iff)
lemma insert_saga_frame [tables_frame]:
  "ledger (snd (insert_saga o' k u a st now t)) = ledger t"
  "driver_of (snd (insert_saga o' k u a st now t)) = driver_of t"
  by (simp_all add: insert_saga_def ledger_def driver_of_def fun_eq_iff)
lemma update_saga_status_frame [tables_frame]:
  "ledger (snd (update_saga_status o' st now t)) = ledger t"
  "driver_of (snd (update_saga_status o' st now t)) = driver_of t"
  by (simp_all add: update_saga_status_def ledger_def driver_of_def fun_eq_iff)
lemma insert_step_frame [tables_frame]:
  "ledger (snd (insert_step o' s st d now t)) = ledger t"
  "driver_of (snd (insert_step o' s st d now t)) = driver_of t"
  "holder (snd (insert_step o' s st d now t)) = holder t"
  "status_of (snd (insert_step o' s st d now t)) = status_of t"
  "orders_of (snd (insert_step o' s st d now t)) = orders_of t"
  by (simp_all add: insert_step_def ledger_def driver_of_def holder_def status_of_def orders_of_def
      fun_eq_iff Let_def)
lemma insert_payment_frame [tables_frame]:
  "driver_of (snd (insert_payment o' a now t)) = driver_of t"
  "holder (snd (insert_payment o' a now t)) = holder t"
  "status_of (snd (insert_payment o' a now t)) = status_of t"
  "orders_of (snd (insert_payment o' a now t)) = orders_of t"
  by (simp_all add: insert_payment_def driver_of_def holder_def status_of_def orders_of_def fun_eq_iff)
lemma update_refund_frame [tables_frame]:
  "driver_of (snd (update_refund o' a now t)) = driver_of t"
  "holder (snd (update_refund o' a now t)) = holder t"
  "status_of (snd (update_refund o' a now t)) = status_of t"
  "orders_of (snd (update_refund o' a now t)) = orders_of t"
  by (simp_all add: update_refund_def driver_of_def holder_def status_of_def orders_of_def fun_eq_iff)
lemma insert_assignment_frame [tables_frame]:
  "ledger (snd (insert_assignment o' d now t)) = ledger t"
  "holder (snd (insert_assignment o' d now t)) = holder t"
  "status_of (snd (insert_assignment o' d now t)) = status_of t"
  "orders_of (snd (insert_assignment o' d now t)) = orders_of t"
  by (simp_all add: insert_assignment_def ledger_def holder_def status_of_def orders_of_def fun_eq_iff)

text \<open>Only \<open>InitSchema\<close> creates tables, and none is ever dropped.\<close>

lemma stmt_created [tables_frame]:
  "tb_created (snd (insert_saga o' k u a st now t)) = tb_created t"
  "tb_created (snd (update_saga_status o' st now t)) = tb_created t"
  "tb_created (snd (insert_step o' s st d now t)) = tb_created t"
  "tb_created (snd (insert_payment o' a now t)) = tb_created t"
  "tb_created (snd (update_refund o' a now t)) = tb_created t"
  "tb_created (snd (insert_assignment o' dr now t)) = tb_created t"
  by (simp_all add: insert_saga_def update_saga_status_def insert_step_def insert_payment_def
      update_refund_def insert_assignment_def Let_def)

text \<open>A property of the tables that every statement of the program keeps.\<close>

definition stmt_closed :: "(tables \<Rightarrow> bool) \<Rightarrow> bool" where
  "stmt_closed J \<longleftrightarrow> (\<forall>now t. J t \<longrightarrow>
     (\<forall>n refs. J (snd (create_table n refs now t))) \<and>
     (\<forall>o' k u a st. J (snd (insert_saga o' k u a st now t))) \<and>
     (\<forall>o' st. J (snd (update_saga_status o' st now t))) \<and>
     (\<forall>o' s st d. J (snd (insert_step o' s st d now t))) \<and>
     (\<forall>o' a. J (snd (insert_payment o' a now t))) \<and>
     (\<forall>o' a. J (snd (update_refund o' a now t))) \<and>
     (\<forall>o' d. J (snd (insert_assignment o' d now t))))"

lemma stmt_closedD:
  assumes "stmt_closed J" "J t"
  shows "J (snd (create_table n refs now t))" "J (snd (insert_saga o' k u a st now t))"
    "J (snd (update_saga_status o' st now t))" "J (snd (insert_step o' s st d now t))"
    "J (snd (insert_payment o' a now t))" "J (snd (update_refund o' a now t))"
    "J (snd (insert_assignment o' d now t))"
  using assms by (simp_all add: stmt_closed_def)

lemma wf_closed: "stmt_closed tables_wf"
  by (simp add: stmt_closed_def stmt_wf)

section \<open>The methods on the tables\<close>

locale sql_orders = sql_client p ctx for p :: "('w, db) ref" and ctx :: "'w ctx"
begin

text \<open>\<open>Charge\<close> and \<open>Refund\<close> on the ledger, whatever fails.\<close>

lemma Charge_effect:
  assumes "Payment_Charge p ctx o' a v = Some (r, v')" "T_payments \<in> set (tb_created (tabs v))"
  shows "(ledger (tabs v') = ledger (tabs v) \<or>
      ledger (tabs v') = (ledger (tabs v))(o' := abs_charge a (ledger (tabs v) o'))) \<and>
    (r = None \<longrightarrow> ledger (tabs v) o' = Unpaid \<and> ledger (tabs v') o' = Charged a)"
proof (cases "o' = ''''")
  case True
  with assms show ?thesis by (auto simp: Payment_Charge_def)
next
  case False
  obtain x v1 where e: "ExecContext p ctx (insert_payment o' a) v = (x, v1)" by fastforce
  with assms(1) False have v': "v' = v1"
    and r: "r = None \<Longrightarrow> \<exists>n. x = Inr (n, None) \<and> n \<noteq> 0"
    by (auto simp: Payment_Charge_def split: sum.splits if_splits elim: RowsAffected.elims)
  from exec_effect [OF e] show ?thesis
  proof (elim disjE exE conjE)
    fix e assume "x = Inl e" "tabs v1 = tabs v"
    with r show ?thesis by (auto simp: v')
  next
    fix now
    assume t: "tabs v1 = snd (insert_payment o' a now (tabs v))"
      and x: "\<forall>n e. x = Inr (n, e) \<longrightarrow> fst (insert_payment o' a now (tabs v)) = Inr n"
    show ?thesis
      using r x ledger_insert_payment [OF assms(2), of o' a now]
      by (auto simp: v' t split: if_splits)
  qed
qed

lemma Charge_fine:
  assumes "healthy p v" "live ctx" "T_payments \<in> set (tb_created (tabs v))" "o' \<noteq> ''''"
  shows "\<exists>v'. Payment_Charge p ctx o' a v =
      Some (if ledger (tabs v) o' = Unpaid then None else Some ErrAlreadyCharged, v') \<and>
    healthy p v' \<and> (\<exists>now. tabs v' = snd (insert_payment o' a now (tabs v)))"
proof -
  obtain x v1 where e: "ExecContext p ctx (insert_payment o' a) v = (x, v1)" by fastforce
  from exec_fine [OF assms(1,2) e] obtain now msg
    where f: "healthy p v1" and t: "tabs v1 = snd (insert_payment o' a now (tabs v))" and
    x: "x = (case fst (insert_payment o' a now (tabs v)) of
      Inl c \<Rightarrow> Inl (ErrExt c msg) | Inr n \<Rightarrow> Inr (n, None))" by auto
  have "x = Inr (if ledger (tabs v) o' = Unpaid then 1 else 0, None)"
    by (simp add: x ledger_insert_payment(1) [OF assms(3)])
  with e f t assms(4) show ?thesis by (auto simp: Payment_Charge_def)
qed

lemma Refund_effect:
  assumes "Payment_Refund p ctx o' a v = Some (r, v')"
    and "T_payments \<in> set (tb_created (tabs v))" "tables_wf (tabs v)"
  shows "(ledger (tabs v') = ledger (tabs v) \<or>
      ledger (tabs v') = (ledger (tabs v))(o' := abs_refund a (ledger (tabs v) o'))) \<and>
    (r = None \<longrightarrow> (\<exists>c. ledger (tabs v) o' = Charged c \<and> ledger (tabs v') o' = Refunded c (Some a)))"
proof (cases "o' = ''''")
  case True
  with assms show ?thesis by (auto simp: Payment_Refund_def)
next
  case False
  obtain x v1 where e: "ExecContext p ctx (update_refund o' a) v = (x, v1)" by fastforce
  obtain y v2 where q: "QueryRowContext p ctx (select_refunded o') v1 = (y, v2)" by fastforce
  have t2: "tabs v2 = tabs v1" using query_effect [OF q] by blast
  from assms(1) False e q have v': "v' = v1 \<or> v' = v2"
    and r: "r = None \<Longrightarrow> \<exists>n. x = Inr (n, None) \<and> n \<noteq> 0"
    by (auto simp: Payment_Refund_def split: sum.splits if_splits elim: RowsAffected.elims)
  have tv: "tabs v' = tabs v1" using v' t2 by auto
  from exec_effect [OF e] show ?thesis
  proof (elim disjE exE conjE)
    fix e assume "x = Inl e" "tabs v1 = tabs v"
    with r show ?thesis by (auto simp: tv)
  next
    fix now
    assume t: "tabs v1 = snd (update_refund o' a now (tabs v))"
      and x: "\<forall>n e. x = Inr (n, e) \<longrightarrow> fst (update_refund o' a now (tabs v)) = Inr n"
    show ?thesis
      using r x ledger_update_refund [OF assms(2,3), of o' a now]
      by (auto simp: tv t split: if_splits)
  qed
qed

lemma select_refunded_ledger:
  "T_payments \<in> set (tb_created t) \<Longrightarrow> select_refunded o' t =
     Inr (case ledger t o' of Unpaid \<Rightarrow> None | Charged _ \<Rightarrow> Some False | Refunded _ _ \<Rightarrow> Some True)"
  by (auto simp: select_refunded_def ledger_def split: option.splits)

lemma Refund_fine:
  assumes "healthy p v" "live ctx" "T_payments \<in> set (tb_created (tabs v))" "tables_wf (tabs v)" "o' \<noteq> ''''"
  shows "\<exists>v'. Payment_Refund p ctx o' a v =
      Some (case ledger (tabs v) o' of Unpaid \<Rightarrow> Some ErrNotCharged | Charged _ \<Rightarrow> None
        | Refunded _ _ \<Rightarrow> Some ErrAlreadyRefunded, v') \<and>
    healthy p v' \<and> (\<exists>now. tabs v' = snd (update_refund o' a now (tabs v)))"
proof -
  obtain x v1 where e: "ExecContext p ctx (update_refund o' a) v = (x, v1)" by fastforce
  from exec_fine [OF assms(1,2) e] obtain now msg
    where f: "healthy p v1" and t: "tabs v1 = snd (update_refund o' a now (tabs v))" and
    x: "x = (case fst (update_refund o' a now (tabs v)) of
      Inl c \<Rightarrow> Inl (ErrExt c msg) | Inr n \<Rightarrow> Inr (n, None))" by auto
  note upd = ledger_update_refund [OF assms(3,4), of o' a now]
  have x: "x = Inr (if \<exists>c. ledger (tabs v) o' = Charged c then 1 else 0, None)"
    by (simp add: x upd(1))
  show ?thesis
  proof (cases "\<exists>c. ledger (tabs v) o' = Charged c")
    case True
    with e f t x assms(5) show ?thesis by (auto simp: Payment_Refund_def)
  next
    case False
    obtain y v2 where q: "QueryRowContext p ctx (select_refunded o') v1 = (y, v2)" by fastforce
    have same: "ledger (tabs v1) o' = ledger (tabs v) o'"
      using upd(2) False by (cases "ledger (tabs v) o'") (auto simp: t)
    have "T_payments \<in> set (tb_created (tabs v1))"
      using assms(3) by (simp add: t update_refund_def)
    with query_fine [OF f assms(2) q] same have "healthy p v2" "tabs v2 = tabs v1"
      "y = (case ledger (tabs v) o' of Unpaid \<Rightarrow> Inl sql_ErrNoRows | Charged _ \<Rightarrow> Inr False
        | Refunded _ _ \<Rightarrow> Inr True)"
      by (auto simp: select_refunded_ledger split: pay_state.splits)
    with e q t x False assms(5) show ?thesis
      by (auto simp: Payment_Refund_def split: pay_state.splits)
  qed
qed

text \<open>\<open>Assign\<close>: an order gets one driver, and asking again for the same driver succeeds.\<close>

lemma Assign_effect:
  assumes "Driver_Assign p ctx o' d v = Some (r, v')" "T_order_assignments \<in> set (tb_created (tabs v))"
  shows "(driver_of (tabs v') = driver_of (tabs v) \<or>
      driver_of (tabs v) o' = None \<and> driver_of (tabs v') = (driver_of (tabs v))(o' \<mapsto> d)) \<and>
    (r = None \<longrightarrow> driver_of (tabs v') o' = Some d)"
proof (cases "o' = '''' \<or> d = ''''")
  case True
  with assms show ?thesis by (auto simp: Driver_Assign_def)
next
  case False
  obtain x v1 where e: "ExecContext p ctx (insert_assignment o' d) v = (x, v1)" by fastforce
  obtain y v2 where q: "QueryRowContext p ctx (select_driver o') v1 = (y, v2)" by fastforce
  have t2: "tabs v2 = tabs v1" using query_effect [OF q] by blast
  from assms(1) False e q have v': "v' = v1 \<or> v' = v2"
    and r: "r = None \<Longrightarrow> (\<exists>n. x = Inr (n, None) \<and> n \<noteq> 0) \<or> y = Inr d"
    by (auto simp: Driver_Assign_def split: sum.splits if_splits elim: RowsAffected.elims)
  have tv: "tabs v' = tabs v1" using v' t2 by auto
  have cr: "T_order_assignments \<in> set (tb_created (tabs v1))"
    using exec_effect [OF e] assms(2) by (auto simp: tables_frame)
  have y: "y = Inr d \<Longrightarrow> driver_of (tabs v1) o' = Some d"
    using query_effect [OF q] select_driver_of [OF cr] by auto
  from exec_effect [OF e] show ?thesis
  proof (elim disjE exE conjE)
    fix e assume "x = Inl e" "tabs v1 = tabs v"
    with r y show ?thesis by (auto simp: tv)
  next
    fix now
    assume t: "tabs v1 = snd (insert_assignment o' d now (tabs v))"
      and x: "\<forall>n e. x = Inr (n, e) \<longrightarrow> fst (insert_assignment o' d now (tabs v)) = Inr n"
    show ?thesis
      using r y x insert_assignment_driver [OF assms(2), of o' d now]
      by (auto simp: tv t split: if_splits)
  qed
qed

lemma Assign_fine:
  assumes "healthy p v" "live ctx" "T_order_assignments \<in> set (tb_created (tabs v))"
    and "o' \<in> orders_of (tabs v)" "o' \<noteq> ''''" "d \<noteq> ''''"
  shows "\<exists>v'. Driver_Assign p ctx o' d v =
      Some (case driver_of (tabs v) o' of None \<Rightarrow> None
        | Some d' \<Rightarrow> if d' = d then None
            else Some (ErrText ''order already assigned to different driver''), v') \<and>
    healthy p v' \<and> (\<exists>now. tabs v' = snd (insert_assignment o' d now (tabs v)))"
proof -
  obtain x v1 where e: "ExecContext p ctx (insert_assignment o' d) v = (x, v1)" by fastforce
  from exec_fine [OF assms(1,2) e] obtain now msg
    where f: "healthy p v1" and t: "tabs v1 = snd (insert_assignment o' d now (tabs v))" and
      x: "x = (case fst (insert_assignment o' d now (tabs v)) of
      Inl c \<Rightarrow> Inl (ErrExt c msg) | Inr n \<Rightarrow> Inr (n, None))" by auto
  note ins = insert_assignment_driver [OF assms(3), of o' d now]
  show ?thesis
  proof (cases "driver_of (tabs v) o'")
    case None
    with ins(1) assms(4) x have "x = Inr (1, None)" by simp
    with e f t None assms(5,6) show ?thesis by (auto simp: Driver_Assign_def)
  next
    case (Some d')
    with ins(1) x have x: "x = Inr (0, None)" by simp
    obtain y v2 where q: "QueryRowContext p ctx (select_driver o') v1 = (y, v2)" by fastforce
    have "T_order_assignments \<in> set (tb_created (tabs v1))" using assms(3) by (simp add: t tables_frame)
    with query_fine [OF f assms(2) q] ins(2) Some have "healthy p v2" "tabs v2 = tabs v1" "y = Inr d'"
      by (auto simp: select_driver_of t)
    with e q t x Some assms(5,6) show ?thesis by (auto simp: Driver_Assign_def)
  qed
qed

text \<open>
  \<open>Start\<close>: a key is taken by at most one order; \<open>created\<close> is reported only to the call
  that took it.
\<close>

lemma Start_effect:
  assumes "SagaStore_Start p ctx k o' u a v = Some (r, v')" "T_order_sagas \<in> set (tb_created (tabs v))"
  shows "(holder (tabs v') = holder (tabs v) \<and> status_of (tabs v') = status_of (tabs v) \<or>
      holder (tabs v) k = None \<and> holder (tabs v') = (holder (tabs v))(k \<mapsto> (o', u, a)) \<and>
      status_of (tabs v) o' = None \<and>
      status_of (tabs v') = (status_of (tabs v))(o' \<mapsto> SagaStatusStarted)) \<and>
    (\<forall>rc created. r = Inr (rc, created) \<longrightarrow> holder (tabs v') k = Some (OrderID rc, u, Amount rc) \<and>
      f64_eq (Amount rc) a \<and> (created \<longrightarrow> holder (tabs v) k = None \<and> OrderID rc = o'))"
proof -
  obtain x v1 where e: "ExecContext p ctx (insert_saga o' k u a SagaStatusStarted) v = (x, v1)" by fastforce
  obtain y v2 where q: "QueryRowContext p ctx (select_saga k) v1 = (y, v2)" by fastforce
  have t2: "tabs v2 = tabs v1" using query_effect [OF q] by blast
  from assms(1) e q have v': "v' = v1 \<or> v' = v2"
    and r: "\<And>rc created. r = Inr (rc, created) \<Longrightarrow> y = Inr rc \<and> UserID rc = u \<and>
      f64_eq (Amount rc) a \<and> (\<exists>n. x = Inr (n, None) \<and> created = (n = 1))"
    by (auto simp: SagaStore_Start_def split: sum.splits if_splits elim: RowsAffected.elims)
  have tv: "tabs v' = tabs v1" using v' t2 by auto
  have cr: "T_order_sagas \<in> set (tb_created (tabs v1))"
    using exec_effect [OF e] assms(2) by (auto simp: tables_frame)
  have y: "y = Inr rc \<Longrightarrow> holder (tabs v1) k = Some (OrderID rc, UserID rc, Amount rc)" for rc
    using query_effect [OF q] select_saga_holder [OF cr, of k "Some rc"] by auto
  from exec_effect [OF e] show ?thesis
  proof (elim disjE exE conjE)
    fix e assume "x = Inl e" "tabs v1 = tabs v"
    with r show ?thesis by (fastforce simp: tv)
  next
    fix now
    assume t: "tabs v1 = snd (insert_saga o' k u a SagaStatusStarted now (tabs v))"
      and x: "\<forall>n e. x = Inr (n, e) \<longrightarrow> fst (insert_saga o' k u a SagaStatusStarted now (tabs v)) = Inr n"
    note ins = insert_saga_holder [OF assms(2), of o' k u a SagaStatusStarted now]
    have "holder (tabs v') k = Some (OrderID rc, u, Amount rc) \<and> f64_eq (Amount rc) a \<and>
        (created \<longrightarrow> holder (tabs v) k = None \<and> OrderID rc = o')" if "r = Inr (rc, created)" for rc created
    proof -
      from r [OF that] y have h: "holder (tabs v1) k = Some (OrderID rc, u, Amount rc)"
        and eq: "f64_eq (Amount rc) a" by auto
      from r [OF that] obtain n where n: "x = Inr (n, None)" "created = (n = 1)" by auto
      with x ins(1) have "created \<Longrightarrow> holder (tabs v) k = None \<and> o' \<notin> orders_of (tabs v)"
        by (cases "holder (tabs v) k") (auto split: if_splits)
      with h eq ins(2) show ?thesis by (auto simp: tv t split: if_splits)
    qed
    with ins(2,3) show ?thesis by (auto simp: tv t status_of_None)
  qed
qed

lemma Start_next_new:
  assumes "fated p f v" "f 0 = Fine" "f 1 = Fine" "live ctx" "T_order_sagas \<in> set (tb_created (tabs v))"
    and "holder (tabs v) k = None" "o' \<notin> orders_of (tabs v)"
  shows "\<exists>v'. SagaStore_Start p ctx k o' u a v =
      Some (if f64_eq a a
        then Inr (\<lparr>OrderID = o', UserID = u, Amount = a, Status = SagaStatusStarted\<rparr>, True)
        else Inl ErrIdempotencyConflict, v') \<and>
    fated p (\<lambda>n. f (n + 2)) v' \<and> (\<exists>now. tabs v' = snd (insert_saga o' k u a SagaStatusStarted now (tabs v)))"
proof -
  obtain x v1 where e: "ExecContext p ctx (insert_saga o' k u a SagaStatusStarted) v = (x, v1)" by fastforce
  from exec_next [OF assms(1,4) e] assms(2) obtain now msg
    where f: "fated p (\<lambda>n. f (Suc n)) v1" and t: "tabs v1 = snd (insert_saga o' k u a SagaStatusStarted now (tabs v))" and
      x: "x = (case fst (insert_saga o' k u a SagaStatusStarted now (tabs v)) of
      Inl c \<Rightarrow> Inl (ErrExt c msg) | Inr n \<Rightarrow> Inr (n, None))" by auto
  have x: "x = Inr (1, None)" using insert_saga_holder(1) [OF assms(5)] assms(6,7) x by simp
  obtain y v2 where q: "QueryRowContext p ctx (select_saga k) v1 = (y, v2)" by fastforce
  have "find (\<lambda>r. sg_idempotency_key r = k) (tb_sagas (tabs v)) = None"
    using assms(6) by (simp add: holder_def)
  with assms(5-7) holder_None [of "tabs v" k]
  have "select_saga k (tabs v1) = Inr (Some \<lparr>OrderID = o', UserID = u, Amount = a, Status = SagaStatusStarted\<rparr>)"
    by (auto simp: t insert_saga_def select_saga_def orders_of_def find_append)
  with query_next [OF f assms(4) _ q] assms(3) have "fated p (\<lambda>n. f (n + 2)) v2" "tabs v2 = tabs v1"
    "y = Inr \<lparr>OrderID = o', UserID = u, Amount = a, Status = SagaStatusStarted\<rparr>" by auto
  with e q t x show ?thesis by (auto simp: SagaStore_Start_def)
qed

lemma Start_fine_new:
  assumes "healthy p v" "live ctx" "T_order_sagas \<in> set (tb_created (tabs v))"
    and "holder (tabs v) k = None" "o' \<notin> orders_of (tabs v)"
  shows "\<exists>v'. SagaStore_Start p ctx k o' u a v =
      Some (if f64_eq a a
        then Inr (\<lparr>OrderID = o', UserID = u, Amount = a, Status = SagaStatusStarted\<rparr>, True)
        else Inl ErrIdempotencyConflict, v') \<and>
    healthy p v' \<and> (\<exists>now. tabs v' = snd (insert_saga o' k u a SagaStatusStarted now (tabs v)))"
  using Start_next_new [OF assms(1) [unfolded healthy_def] refl refl assms(2-5)] by (simp add: healthy_def)

lemma Start_fine_old:
  assumes "healthy p v" "live ctx" "T_order_sagas \<in> set (tb_created (tabs v))" "tables_wf (tabs v)"
    and "holder (tabs v) k = Some (o1, u1, a1)"
  shows "\<exists>v'. SagaStore_Start p ctx k o' u a v =
      Some (if u1 = u \<and> f64_eq a1 a
        then Inr (\<lparr>OrderID = o1, UserID = u, Amount = a1, Status = the (status_of (tabs v) o1)\<rparr>, False)
        else Inl ErrIdempotencyConflict, v') \<and>
    healthy p v' \<and> tabs v' = tabs v"
proof -
  obtain x v1 where e: "ExecContext p ctx (insert_saga o' k u a SagaStatusStarted) v = (x, v1)" by fastforce
  from exec_fine [OF assms(1,2) e] obtain now msg
    where f: "healthy p v1" and t: "tabs v1 = snd (insert_saga o' k u a SagaStatusStarted now (tabs v))" and
      x: "x = (case fst (insert_saga o' k u a SagaStatusStarted now (tabs v)) of
      Inl c \<Rightarrow> Inl (ErrExt c msg) | Inr n \<Rightarrow> Inr (n, None))" by auto
  have x: "x = Inr (0, None)" using insert_saga_holder(1) [OF assms(3)] assms(5) x by simp
  have t: "tabs v1 = tabs v"
    using assms(3,5) holder_None [of "tabs v" k] by (auto simp: t insert_saga_def)
  obtain y v2 where q: "QueryRowContext p ctx (select_saga k) v1 = (y, v2)" by fastforce
  obtain r where r: "find (\<lambda>r. sg_idempotency_key r = k) (tb_sagas (tabs v)) = Some r"
    and ro: "sg_order_id r = o1" "sg_user_id r = u1" "sg_amount r = a1"
    using assms(5) by (auto simp: holder_def)
  have "r \<in> set (tb_sagas (tabs v))" using r by (auto simp: find_Some_iff)
  then have "find (\<lambda>r. sg_order_id r = o1) (tb_sagas (tabs v)) = Some r"
    using assms(4) ro(1) unfolding tables_wf_def by (metis find_key_unique)
  then have st: "the (status_of (tabs v) o1) = sg_status r" by (simp add: status_of_def)
  have "select_saga k (tabs v1) = Inr (Some \<lparr>OrderID = o1, UserID = u1, Amount = a1, Status = the (status_of (tabs v) o1)\<rparr>)"
    using assms(3) r ro st by (simp add: t select_saga_def)
  with query_fine [OF f assms(2) q] have "healthy p v2" "tabs v2 = tabs v1"
    "y = Inr \<lparr>OrderID = o1, UserID = u1, Amount = a1, Status = the (status_of (tabs v) o1)\<rparr>" by auto
  with e q t x show ?thesis by (auto simp: SagaStore_Start_def)
qed

lemma UpdateStatus_fine:
  assumes "healthy p v" "live ctx" "T_order_sagas \<in> set (tb_created (tabs v))"
  shows "\<exists>v'. SagaStore_UpdateStatus p ctx o' st v = Some (None, v') \<and> healthy p v' \<and>
    (\<exists>now. tabs v' = snd (update_saga_status o' st now (tabs v)))"
proof -
  obtain x v1 where e: "ExecContext p ctx (update_saga_status o' st) v = (x, v1)" by fastforce
  from exec_fine [OF assms(1,2) e] assms(3) show ?thesis
    by (auto simp: SagaStore_UpdateStatus_def e update_saga_status_def)
qed

lemma AddStep_next:
  assumes "fated p f v" "f 0 = Fine" "live ctx" "T_order_saga_steps \<in> set (tb_created (tabs v))"
    and "o' \<in> orders_of (tabs v)"
  shows "\<exists>v'. SagaStore_AddStep p ctx o' s st d v = Some (None, v') \<and> fated p (\<lambda>n. f (Suc n)) v' \<and>
    (\<exists>now. tabs v' = snd (insert_step o' s st d now (tabs v)))"
proof -
  obtain x v1 where e: "ExecContext p ctx (insert_step o' s st d) v = (x, v1)" by fastforce
  from exec_next [OF assms(1,3) e] assms(2,4,5) show ?thesis
    by (auto simp: SagaStore_AddStep_def e insert_step_def orders_of_def Let_def)
qed

lemma AddStep_fine:
  assumes "healthy p v" "live ctx" "T_order_saga_steps \<in> set (tb_created (tabs v))" "o' \<in> orders_of (tabs v)"
  shows "\<exists>v'. SagaStore_AddStep p ctx o' s st d v = Some (None, v') \<and> healthy p v' \<and>
    (\<exists>now. tabs v' = snd (insert_step o' s st d now (tabs v)))"
  using AddStep_next [OF assms(1) [unfolded healthy_def] refl assms(2-4)] by (simp add: healthy_def)

text \<open>A charge whose acknowledgement is lost is in the ledger, and an error comes back.\<close>

lemma Charge_unacked:
  assumes "fated p f v" "f 0 = Unacked e" "live ctx" "T_payments \<in> set (tb_created (tabs v))" "o' \<noteq> ''''"
  shows "\<exists>v'. Payment_Charge p ctx o' a v = Some (Some e, v') \<and> fated p (\<lambda>n. f (Suc n)) v' \<and>
    (\<exists>now. tabs v' = snd (insert_payment o' a now (tabs v)))"
proof -
  obtain x v1 where e: "ExecContext p ctx (insert_payment o' a) v = (x, v1)" by fastforce
  from exec_next [OF assms(1,3) e] assms(2) obtain now
    where f: "fated p (\<lambda>n. f (Suc n)) v1" and t: "tabs v1 = snd (insert_payment o' a now (tabs v))"
      and x: "\<exists>msg. x = (case fst (insert_payment o' a now (tabs v)) of Inl c \<Rightarrow> Inl (ErrExt c msg) | Inr n \<Rightarrow> Inl e)"
    by auto
  have "x = Inl e" using x ledger_insert_payment(1) [OF assms(4), of o' a now] by simp
  with e f t assms(5) show ?thesis by (auto simp: Payment_Charge_def)
qed

text \<open>The other two methods of the saga store under every fault.\<close>

lemma UpdateStatus_effect:
  assumes "SagaStore_UpdateStatus p ctx o' st v = Some (r, v')"
  shows "tabs v' = tabs v \<or> (\<exists>now. tabs v' = snd (update_saga_status o' st now (tabs v)))"
proof -
  obtain x v1 where e: "ExecContext p ctx (update_saga_status o' st) v = (x, v1)" by fastforce
  with assms have "v' = v1" by (auto simp: SagaStore_UpdateStatus_def split: sum.splits)
  with exec_effect [OF e] show ?thesis by blast
qed

lemma AddStep_effect:
  assumes "SagaStore_AddStep p ctx o' s st d v = Some (r, v')"
  shows "tabs v' = tabs v \<or> (\<exists>now. tabs v' = snd (insert_step o' s st d now (tabs v)))"
proof -
  obtain x v1 where e: "ExecContext p ctx (insert_step o' s st d) v = (x, v1)" by fastforce
  with assms have "v' = v1" by (auto simp: SagaStore_AddStep_def split: sum.splits)
  with exec_effect [OF e] show ?thesis by blast
qed

text \<open>Every method of the stores keeps what the statements keep, whatever fails.\<close>

lemma stores_closed:
  assumes "stmt_closed J" "J (tabs v)"
  shows "SagaStore_Start p ctx k o' u a v = Some (rs, v') \<Longrightarrow> J (tabs v')"
    and "SagaStore_UpdateStatus p ctx o' st v = Some (r, v') \<Longrightarrow> J (tabs v')"
    and "SagaStore_AddStep p ctx o' s st de v = Some (r, v') \<Longrightarrow> J (tabs v')"
    and "Payment_Charge p ctx o' a v = Some (r, v') \<Longrightarrow> J (tabs v')"
    and "Payment_Refund p ctx o' a v = Some (r, v') \<Longrightarrow> J (tabs v')"
    and "Driver_Assign p ctx o' d v = Some (r, v') \<Longrightarrow> J (tabs v')"
    and "SagaStore_InitSchema p ctx v = Some (r, v') \<Longrightarrow> J (tabs v')"
    and "Payment_InitSchema p ctx v = Some (r, v') \<Longrightarrow> J (tabs v')"
    and "Driver_InitSchema p ctx v = Some (r, v') \<Longrightarrow> J (tabs v')"
  using assms(2)
  by (auto simp: SagaStore_Start_def SagaStore_UpdateStatus_def SagaStore_AddStep_def Payment_Charge_def
      Payment_Refund_def Driver_Assign_def SagaStore_InitSchema_def Payment_InitSchema_def
      Driver_InitSchema_def
      dest!: exec_closed [where J = J] query_tabs intro: stmt_closedD [OF assms(1)]
      split: prod.splits sum.splits if_splits)

end

section \<open>A database of its own\<close>

text \<open>
  The database as the whole world, seen through itself: the smallest program the
  contracts hold for.
\<close>

definition db_self :: "(db, db) ref" where
  "db_self = \<lparr>rd = (\<lambda>s. s), wr = (\<lambda>s _. s)\<rparr>"

definition db_with :: "tables \<Rightarrow> (nat \<Rightarrow> fault) \<Rightarrow> db" where
  "db_with t f = \<lparr>db_tables = t, db_seq = 0, db_env = (\<lambda>n. (f n, 7)), db_errtext = (\<lambda>_. ''pq'')\<rparr>"

definition ready :: tables where
  "ready = empty_tables\<lparr>tb_created := [T_order_assignments, T_order_saga_steps, T_order_sagas, T_payments]\<rparr>"

interpretation selfdb: sql_orders db_self context_Background
  by unfold_locales (auto simp: db_self_def context_Background_def)

section \<open>What the stores promise\<close>

text \<open>
  C6: Whatever the connection does (statements lost, or run without an acknowledgement),
  \<open>Charge\<close> and \<open>Refund\<close> move the order's ledger entry only as the abstract ledger
  allows (charged once, refunded once, only after a charge), touch no other order, and
  report success only when they made that move.
\<close>

theorem payments_refine_ledger:
  assumes "sql_orders p ctx" "T_payments \<in> set (tb_created (db_tables (rd p w)))"
    and "tables_wf (db_tables (rd p w))"
  shows "(\<forall>r w'. Payment_Charge p ctx orderID amount w = Some (r, w') \<longrightarrow>
      (\<exists>move \<in> {id, abs_charge amount}. ledger (db_tables (rd p w')) =
         (ledger (db_tables (rd p w)))(orderID := move (ledger (db_tables (rd p w)) orderID))) \<and>
      (r = None \<longrightarrow> ledger (db_tables (rd p w)) orderID = Unpaid \<and>
         ledger (db_tables (rd p w')) orderID = Charged amount)) \<and>
    (\<forall>r w'. Payment_Refund p ctx orderID amount w = Some (r, w') \<longrightarrow>
      (\<exists>move \<in> {id, abs_refund amount}. ledger (db_tables (rd p w')) =
         (ledger (db_tables (rd p w)))(orderID := move (ledger (db_tables (rd p w)) orderID))) \<and>
      (r = None \<longrightarrow> (\<exists>c. ledger (db_tables (rd p w)) orderID = Charged c \<and>
         ledger (db_tables (rd p w')) orderID = Refunded c (Some amount))))"
  using sql_orders.Charge_effect [OF assms(1) _ assms(2)]
    sql_orders.Refund_effect [OF assms(1) _ assms(2,3)] by fastforce

lemmas db_eval = ExecContext_def QueryRowContext_def context_Background_def db_self_def db_with_def
  ready_def empty_tables_def insert_payment_def update_refund_def select_refunded_def
  insert_assignment_def select_driver_def insert_saga_def select_saga_def update_saga_status_def
  insert_step_def Let_def

lemma ready_wf: "tables_wf ready" "set (tb_created ready) = UNIV"
  using table_name.exhaust by (auto simp: ready_def empty_tables_def tables_wf_def)

theorem payments_refine_ledger_witness:
  "\<exists>w' move. Payment_Charge db_self context_Background ''o1'' f64_10
      (db_with ready (\<lambda>_. Unacked (ErrText ''conn reset''))) = Some (Some (ErrText ''conn reset''), w') \<and>
    move \<in> {id, abs_charge f64_10} \<and> ledger (db_tables w') ''o1'' = move Unpaid"
proof -
  let ?w = "db_with ready (\<lambda>_. Unacked (ErrText ''conn reset''))"
  obtain w' where e: "Payment_Charge db_self context_Background ''o1'' f64_10 ?w =
      Some (Some (ErrText ''conn reset''), w')"
    by (simp add: Payment_Charge_def db_eval)
  have "T_payments \<in> set (tb_created (db_tables (rd db_self ?w)))" "tables_wf (db_tables (rd db_self ?w))"
    using ready_wf by (simp_all add: db_self_def db_with_def)
  from payments_refine_ledger [OF selfdb.sql_orders_axioms this, of "''o1''" f64_10,
      THEN conjunct1, rule_format, OF e]
  have "\<exists>move \<in> {id, abs_charge f64_10}. ledger (db_tables w') =
      (ledger ready)(''o1'' := move (ledger ready ''o1''))"
    by (simp add: db_self_def db_with_def)
  moreover have "ledger ready ''o1'' = Unpaid" by (simp add: ledger_def ready_def empty_tables_def)
  ultimately show ?thesis using e by auto
qed

text \<open>
  C30: With a healthy connection the outcome is exact: \<open>Charge\<close> succeeds precisely on an
  order without a payment and otherwise returns \<open>ErrAlreadyCharged\<close>; \<open>Refund\<close> succeeds
  precisely on a charged order, and returns \<open>ErrNotCharged\<close> or \<open>ErrAlreadyRefunded\<close>
  otherwise; \<open>Assign\<close> on an existing order succeeds when it has no driver or this one
  already.
\<close>

theorem client_results_exact:
  assumes "sql_orders p ctx" "live ctx" "healthy p w" "tables_wf (db_tables (rd p w))"
    and "all_created (db_tables (rd p w))" "orderID \<noteq> ''''" "driverID \<noteq> ''''"
  shows "(\<exists>w'. Payment_Charge p ctx orderID amount w =
        Some (if ledger (db_tables (rd p w)) orderID = Unpaid then None else Some ErrAlreadyCharged, w')) \<and>
    (\<exists>w'. Payment_Refund p ctx orderID amount w =
        Some (case ledger (db_tables (rd p w)) orderID of Unpaid \<Rightarrow> Some ErrNotCharged
          | Charged _ \<Rightarrow> None | Refunded _ _ \<Rightarrow> Some ErrAlreadyRefunded, w')) \<and>
    (orderID \<in> orders_of (db_tables (rd p w)) \<longrightarrow> (\<exists>w'. Driver_Assign p ctx orderID driverID w =
        Some (case driver_of (db_tables (rd p w)) orderID of None \<Rightarrow> None
          | Some d \<Rightarrow> if d = driverID then None
              else Some (ErrText ''order already assigned to different driver''), w')))"
proof -
  have "T_payments \<in> set (tb_created (db_tables (rd p w)))"
    and "T_order_assignments \<in> set (tb_created (db_tables (rd p w)))"
    using assms(5) by (simp_all add: all_created_def)
  then show ?thesis
    using sql_orders.Charge_fine [OF assms(1,3,2)] sql_orders.Refund_fine [OF assms(1,3,2) _ assms(4)]
      sql_orders.Assign_fine [OF assms(1,3,2)] assms(6,7) by blast
qed

theorem client_results_exact_witness:
  "\<exists>w'. Payment_Refund db_self context_Background ''o1'' f64_10 (db_with ready (\<lambda>_. Fine)) =
    Some (Some ErrNotCharged, w')"
proof -
  let ?w = "db_with ready (\<lambda>_. Fine)"
  have h: "live context_Background" "healthy db_self ?w" "tables_wf (db_tables (rd db_self ?w))"
    "all_created (db_tables (rd db_self ?w))"
    using ready_wf
    by (simp_all add: live_def healthy_def fated_def context_Background_def db_self_def db_with_def all_created_def)
  have l: "ledger (db_tables (rd db_self ?w)) ''o1'' = Unpaid"
    by (simp add: ledger_def db_self_def db_with_def ready_def empty_tables_def)
  from client_results_exact [OF selfdb.sql_orders_axioms h, of "''o1''" "''d''" f64_10] l
  show ?thesis by simp
qed

text \<open>
  C7: An idempotency key is taken at most once. Whatever fails, \<open>Start\<close> leaves the holder
  of every key alone or gives the free key to the new order, whose status starts as
  \<open>started\<close>; \<open>created\<close> is reported only to the call that took the key, and a record comes
  back only when its user and amount are those of the request.
\<close>

theorem Start_takes_key_once:
  assumes "sql_orders p ctx" "T_order_sagas \<in> set (tb_created (db_tables (rd p w)))"
    and "SagaStore_Start p ctx key orderID userID amount w = Some (res, w')"
  shows "(holder (db_tables (rd p w')) = holder (db_tables (rd p w)) \<or>
      holder (db_tables (rd p w)) key = None \<and> status_of (db_tables (rd p w)) orderID = None \<and>
      holder (db_tables (rd p w')) = (holder (db_tables (rd p w)))(key \<mapsto> (orderID, userID, amount)) \<and>
      status_of (db_tables (rd p w')) = (status_of (db_tables (rd p w)))(orderID \<mapsto> SagaStatusStarted)) \<and>
    (\<forall>rc created. res = Inr (rc, created) \<longrightarrow>
      holder (db_tables (rd p w')) key = Some (OrderID rc, userID, Amount rc) \<and>
      f64_eq (Amount rc) amount \<and>
      (created \<longrightarrow> holder (db_tables (rd p w)) key = None \<and> OrderID rc = orderID))"
  using sql_orders.Start_effect [OF assms(1,3,2)] by auto

text \<open>A database in which order \<open>o1\<close> of user \<open>u1\<close> holds the key \<open>k1\<close>.\<close>

definition one_saga :: "string \<Rightarrow> tables" where
  "one_saga st = snd (insert_saga ''o1'' ''k1'' ''u1'' f64_10 st 5 ready)"

lemma one_saga_facts:
  "tables_wf (one_saga st)" "tb_created (one_saga st) = tb_created ready"
  "holder (one_saga st) ''k1'' = Some (''o1'', ''u1'', f64_10)" "status_of (one_saga st) ''o1'' = Some st"
  "orders_of (one_saga st) = {''o1''}"
  using ready_wf
  by (simp_all add: one_saga_def stmt_wf tables_frame insert_saga_holder orders_of_def)
    (simp_all add: ready_def empty_tables_def insert_saga_def holder_def status_of_def)

theorem Start_takes_key_once_witness:
  "\<exists>rc w'. SagaStore_Start db_self context_Background ''k1'' ''o2'' ''u1'' f64_10
      (db_with (one_saga SagaStatusSucceeded) (\<lambda>_. Fine)) = Some (Inr (rc, False), w') \<and>
    OrderID rc = ''o1'' \<and> holder (db_tables w') ''k1'' = Some (''o1'', ''u1'', Amount rc)"
proof -
  let ?w = "db_with (one_saga SagaStatusSucceeded) (\<lambda>_. Fine)"
  have t: "db_tables (rd db_self ?w) = one_saga SagaStatusSucceeded"
    by (simp add: db_self_def db_with_def)
  have h: "healthy db_self ?w" "live context_Background"
    "T_order_sagas \<in> set (tb_created (db_tables (rd db_self ?w)))" "tables_wf (db_tables (rd db_self ?w))"
    "holder (db_tables (rd db_self ?w)) ''k1'' = Some (''o1'', ''u1'', f64_10)"
    using ready_wf one_saga_facts [of SagaStatusSucceeded]
    by (simp_all add: t live_def healthy_def fated_def context_Background_def)
      (simp_all add: db_self_def db_with_def)
  have eq: "f64_eq f64_10 f64_10" by (simp add: f64_eq_scaled f64_consts_finite)
  from selfdb.Start_fine_old [OF h, of "''o2''" "''u1''" f64_10] eq
  obtain w' where e: "SagaStore_Start db_self context_Background ''k1'' ''o2'' ''u1'' f64_10 ?w =
    Some (Inr (\<lparr>OrderID = ''o1'', UserID = ''u1'', Amount = f64_10,
      Status = the (status_of (db_tables (rd db_self ?w)) ''o1'')\<rparr>, False), w')" by auto
  from Start_takes_key_once [OF selfdb.sql_orders_axioms h(3) e] e show ?thesis
    by (auto simp: db_self_def)
qed

text \<open>
  C31: An order with a NaN amount can never be placed, and still uses up its key: \<open>Start\<close>
  stores the saga row and then reports \<open>ErrIdempotencyConflict\<close>, because the amount read
  back is not equal to itself, so the key is held by an order that stays \<open>started\<close>.
\<close>

theorem Start_NaN_burns_key:
  assumes "sql_orders p ctx" "live ctx" "healthy p w" "T_order_sagas \<in> set (tb_created (db_tables (rd p w)))"
    and "holder (db_tables (rd p w)) key = None" "orderID \<notin> orders_of (db_tables (rd p w))"
    and "f64_is_nan amount"
  shows "\<exists>w'. SagaStore_Start p ctx key orderID userID amount w = Some (Inl ErrIdempotencyConflict, w') \<and>
    holder (db_tables (rd p w')) key = Some (orderID, userID, amount) \<and>
    status_of (db_tables (rd p w')) orderID = Some SagaStatusStarted"
proof -
  from sql_orders.Start_fine_new [OF assms(1,3,2,4-6), of userID amount] assms(7)
  obtain w' now where "SagaStore_Start p ctx key orderID userID amount w = Some (Inl ErrIdempotencyConflict, w')"
    and "db_tables (rd p w') = snd (insert_saga orderID key userID amount SagaStatusStarted now (db_tables (rd p w)))"
    by (auto simp: f64_eq_refl)
  then show ?thesis
    using insert_saga_holder [OF assms(4), of orderID key userID amount SagaStatusStarted now] assms(5,6) by auto
qed

theorem Start_NaN_burns_key_witness:
  "\<exists>w'. SagaStore_Start db_self context_Background ''k9'' ''o9'' ''u1'' f64_nan (db_with ready (\<lambda>_. Fine)) =
      Some (Inl ErrIdempotencyConflict, w') \<and> holder (db_tables w') ''k9'' = Some (''o9'', ''u1'', f64_nan)"
proof -
  let ?w = "db_with ready (\<lambda>_. Fine)"
  have t: "db_tables (rd db_self ?w) = ready" by (simp add: db_self_def db_with_def)
  have h: "live context_Background" "healthy db_self ?w" "T_order_sagas \<in> set (tb_created (db_tables (rd db_self ?w)))"
    "holder (db_tables (rd db_self ?w)) ''k9'' = None" "''o9'' \<notin> orders_of (db_tables (rd db_self ?w))"
    using ready_wf by (simp_all add: t live_def healthy_def fated_def context_Background_def)
      (simp_all add: db_self_def db_with_def ready_def empty_tables_def holder_def orders_of_def)
  from Start_NaN_burns_key [OF selfdb.sql_orders_axioms h f64_nan_is_nan(1), of "''u1''"] show ?thesis
    by (auto simp: db_self_def)
qed

end
