(* ===== verification/OrderSvc.thy ===== *)
theory OrderSvc
  imports Stores Reliable
begin

text \<open>
  The order service of \<open>internal/orders/order.go\<close>: \<open>CreateOrder\<close>, the saga that takes the
  idempotency key, charges, assigns a driver and refunds when no driver is found. A spied
  copy of any service logs every call it makes with its result; the saga protocol and the
  at-most-once guarantee are stated on that log.
\<close>

section \<open>The service\<close>

record 'w OrderService =
  os_payments :: "'w PaymentClient"
  os_drivers :: "'w DriverClient"
  os_sagas :: "'w SagaStoreI"
  os_idGen :: "('w, string) act"
  os_driverSel :: "('w, string) act"

text \<open>
  \<open>uuid.Must\<close> panics when no UUID can be generated; \<open>newV7\<close> is the generator of the uuid
  package, with its result in text form.
\<close>

definition newUUIDString :: "('w, go_error + string) prim \<Rightarrow> ('w, string) act" where
  "newUUIDString newV7 w = (case newV7 w of (Inl _, w) \<Rightarrow> None | (Inr s, w) \<Rightarrow> Some (s, w))"

definition newOrderID :: "('w, go_error + string) prim \<Rightarrow> ('w, string) act" where
  "newOrderID newV7 = newUUIDString newV7"

definition newDriverID :: "('w, go_error + string) prim \<Rightarrow> ('w, string) act" where
  "newDriverID newV7 = newUUIDString newV7"

definition NewOrderService ::
  "('w, go_error + string) prim \<Rightarrow> 'w PaymentClient \<Rightarrow> 'w DriverClient \<Rightarrow> 'w SagaStoreI \<Rightarrow>
   ('w, string) act option \<Rightarrow> ('w, string) act option \<Rightarrow> 'w OrderService" where
  "NewOrderService newV7 payments drivers sagas idGen driverSel =
     (let idGen = (case idGen of None \<Rightarrow> newOrderID newV7 | Some g \<Rightarrow> g);
          driverSel = (case driverSel of None \<Rightarrow> newDriverID newV7 | Some g \<Rightarrow> g)
      in \<lparr>os_payments = payments, os_drivers = drivers, os_sagas = sagas,
          os_idGen = idGen, os_driverSel = driverSel\<rparr>)"

definition ErrIdempotencyKeyRequired :: go_error where
  "ErrIdempotencyKeyRequired = ErrVar ''orders.ErrIdempotencyKeyRequired'' ''idempotency key required''"

text \<open>The steps of a newly created saga: charge, assign, and refund when that fails.\<close>

definition run_saga ::
  "'w OrderService \<Rightarrow> 'w ctx \<Rightarrow> string \<Rightarrow> float64 \<Rightarrow> string \<Rightarrow> ('w, string \<times> go_error option) act" where
  "run_saga s ctx orderID amount driverID w = do {
    (_, w) \<leftarrow> ss_AddStep (os_sagas s) ctx orderID ''charge'' ''started'' '''' w;
    (err, w) \<leftarrow> pc_Charge (os_payments s) ctx orderID amount w;
    case err of
      Some err \<Rightarrow> do {
        (_, w) \<leftarrow> ss_AddStep (os_sagas s) ctx orderID ''charge'' ''failed'' (err_Error err) w;
        (_, w) \<leftarrow> ss_UpdateStatus (os_sagas s) ctx orderID SagaStatusFailed w;
        Some (('''', Some err), w)
      }
    | None \<Rightarrow> do {
        (_, w) \<leftarrow> ss_AddStep (os_sagas s) ctx orderID ''charge'' ''succeeded'' '''' w;
        (_, w) \<leftarrow> ss_AddStep (os_sagas s) ctx orderID ''assign'' ''started'' '''' w;
        (err, w) \<leftarrow> dc_Assign (os_drivers s) ctx orderID driverID w;
        case err of
          Some err \<Rightarrow> do {
            (_, w) \<leftarrow> ss_AddStep (os_sagas s) ctx orderID ''assign'' ''failed'' (err_Error err) w;
            (_, w) \<leftarrow> ss_AddStep (os_sagas s) ctx orderID ''refund'' ''started'' '''' w;
            (refundErr, w) \<leftarrow> pc_Refund (os_payments s) ctx orderID amount w;
            case refundErr of
              Some refundErr \<Rightarrow> do {
                (_, w) \<leftarrow> ss_AddStep (os_sagas s) ctx orderID ''refund'' ''failed''
                  (err_Error refundErr) w;
                (_, w) \<leftarrow> ss_UpdateStatus (os_sagas s) ctx orderID SagaStatusFailed w;
                Some (('''', Some (ErrWrap ''driver assignment failed: '' err
                  (''; refund failed: '' @ err_Error refundErr))), w)
              }
            | None \<Rightarrow> do {
                (_, w) \<leftarrow> ss_AddStep (os_sagas s) ctx orderID ''refund'' ''succeeded'' '''' w;
                (_, w) \<leftarrow> ss_UpdateStatus (os_sagas s) ctx orderID SagaStatusRefunded w;
                Some (('''', Some err), w)
              }
          }
        | None \<Rightarrow> do {
            (_, w) \<leftarrow> ss_AddStep (os_sagas s) ctx orderID ''assign'' ''succeeded'' '''' w;
            (_, w) \<leftarrow> ss_UpdateStatus (os_sagas s) ctx orderID SagaStatusSucceeded w;
            Some ((orderID, None), w)
          }
      }
  }"

definition CreateOrder ::
  "'w OrderService \<Rightarrow> 'w ctx \<Rightarrow> string \<Rightarrow> float64 \<Rightarrow> string \<Rightarrow> ('w, string \<times> go_error option) act" where
  "CreateOrder s ctx userID amount idempotencyKey w =
     (if idempotencyKey = '''' then Some (('''', Some ErrIdempotencyKeyRequired), w)
      else do {
        (orderID, w) \<leftarrow> os_idGen s w;
        (driverID, w) \<leftarrow> os_driverSel s w;
        (res, w) \<leftarrow> ss_Start (os_sagas s) ctx idempotencyKey orderID userID amount w;
        case res of
          Inl err \<Rightarrow>
            if errors_Is err ErrIdempotencyConflict then Some (('''', Some err), w)
            else Some (('''', Some err), w)
        | Inr (rc, created) \<Rightarrow>
            if \<not> created then
              (if Status rc = SagaStatusSucceeded then Some ((OrderID rc, None), w)
               else Some ((OrderID rc,
                 Some (ErrText (''order already processed with status '' @ Status rc))), w))
            else run_saga s ctx orderID amount driverID w
      })"

section \<open>The log of a service\<close>

datatype saga_event =
    EvStart string string string float64 "go_error + SagaRecord \<times> bool"
  | EvStep string string string string
  | EvStatus string string
  | EvCharge string float64 "go_error option"
  | EvAssign string string "go_error option"
  | EvRefund string float64 "go_error option"

definition logged :: "('r \<Rightarrow> saga_event) \<Rightarrow> ('w, 'r) act \<Rightarrow> ('w \<times> saga_event list, 'r) act" where
  "logged ev f x = (case x of (w, tr) \<Rightarrow> map_option (\<lambda>(r, w). (r, (w, tr @ [ev r]))) (f w))"

definition unlogged :: "('w, 'r) act \<Rightarrow> ('w \<times> saga_event list, 'r) act" where
  "unlogged f x = (case x of (w, tr) \<Rightarrow> map_option (\<lambda>(r, w). (r, (w, tr))) (f w))"

text \<open>The same service, run with the context \<open>ctx\<close>, with every call of a client logged.\<close>

definition spy :: "'w ctx \<Rightarrow> 'w OrderService \<Rightarrow> ('w \<times> saga_event list) OrderService" where
  "spy ctx s =
     \<lparr>os_payments = \<lparr>pc_Charge = (\<lambda>_ o' a. logged (EvCharge o' a) (pc_Charge (os_payments s) ctx o' a)),
        pc_Refund = (\<lambda>_ o' a. logged (EvRefund o' a) (pc_Refund (os_payments s) ctx o' a))\<rparr>,
      os_drivers = \<lparr>dc_Assign = (\<lambda>_ o' d. logged (EvAssign o' d) (dc_Assign (os_drivers s) ctx o' d))\<rparr>,
      os_sagas = \<lparr>ss_Start = (\<lambda>_ k o' u a. logged (EvStart k o' u a) (ss_Start (os_sagas s) ctx k o' u a)),
        ss_UpdateStatus = (\<lambda>_ o' st. logged (\<lambda>_. EvStatus o' st) (ss_UpdateStatus (os_sagas s) ctx o' st)),
        ss_AddStep = (\<lambda>_ o' n st d. logged (\<lambda>_. EvStep o' n st d) (ss_AddStep (os_sagas s) ctx o' n st d))\<rparr>,
      os_idGen = unlogged (os_idGen s), os_driverSel = unlogged (os_driverSel s)\<rparr>"

lemma logged_eq: "logged ev f (w, tr) = map_option (\<lambda>(r, w). (r, (w, tr @ [ev r]))) (f w)"
  by (simp add: logged_def)

lemma unlogged_eq: "unlogged f (w, tr) = map_option (\<lambda>(r, w). (r, (w, tr))) (f w)"
  by (simp add: unlogged_def)

lemma spy_sel:
  "pc_Charge (os_payments (spy ctx s)) c o' a = logged (EvCharge o' a) (pc_Charge (os_payments s) ctx o' a)"
  "pc_Refund (os_payments (spy ctx s)) c o' a = logged (EvRefund o' a) (pc_Refund (os_payments s) ctx o' a)"
  "dc_Assign (os_drivers (spy ctx s)) c o' d = logged (EvAssign o' d) (dc_Assign (os_drivers s) ctx o' d)"
  "ss_Start (os_sagas (spy ctx s)) c k o' u a = logged (EvStart k o' u a) (ss_Start (os_sagas s) ctx k o' u a)"
  "ss_UpdateStatus (os_sagas (spy ctx s)) c o' st =
     logged (\<lambda>_. EvStatus o' st) (ss_UpdateStatus (os_sagas s) ctx o' st)"
  "ss_AddStep (os_sagas (spy ctx s)) c o' n st de =
     logged (\<lambda>_. EvStep o' n st de) (ss_AddStep (os_sagas s) ctx o' n st de)"
  "os_idGen (spy ctx s) = unlogged (os_idGen s)" "os_driverSel (spy ctx s) = unlogged (os_driverSel s)"
  by (simp_all add: spy_def)

text \<open>Spying changes nothing else.\<close>

lemma bind_logged: "(logged ev f (w, tr) \<bind> k) = (f w \<bind> (\<lambda>(r, w'). k (r, (w', tr @ [ev r]))))"
  by (cases "f w") (auto simp: logged_def)

lemma bind_unlogged: "(unlogged f (w, tr) \<bind> k) = (f w \<bind> (\<lambda>(r, w'). k (r, (w', tr))))"
  by (cases "f w") (auto simp: unlogged_def)

lemma map_option_bind: "map_option g (m \<bind> k) = (m \<bind> (\<lambda>x. map_option g (k x)))"
  by (cases m) auto

lemma CreateOrder_spy:
  "map_option (\<lambda>(r, (w, tr)). (r, w)) (CreateOrder (spy ctx s) c userID amount key (w, tr)) =
   CreateOrder s ctx userID amount key w"
  unfolding CreateOrder_def run_saga_def spy_sel bind_logged bind_unlogged
  by (auto simp: map_option_bind bind_logged bind_unlogged split_def split: option.splits sum.splits
      intro!: Option.bind_cong)

section \<open>The saga protocol\<close>

text \<open>The calls that matter to the outside, and the statuses stored.\<close>

fun is_call :: "saga_event \<Rightarrow> bool" where
  "is_call (EvStep _ _ _ _) = False"
| "is_call (EvStatus _ _) = False"
| "is_call _ = True"

fun stored_status :: "saga_event list \<Rightarrow> (string \<times> string) list" where
  "stored_status [] = []"
| "stored_status (EvStatus o' st # es) = (o', st) # stored_status es"
| "stored_status (_ # es) = stored_status es"

text \<open>
  The six ways a request can go: the calls made and their results, the statuses stored and
  the answer.
\<close>

inductive saga_outcome ::
  "string \<Rightarrow> float64 \<Rightarrow> string \<Rightarrow> string \<Rightarrow> string \<Rightarrow> saga_event list \<Rightarrow> (string \<times> string) list \<Rightarrow>
   string \<times> go_error option \<Rightarrow> bool"
  for u a k o' d where
  rejected: "saga_outcome u a k o' d [EvStart k o' u a (Inl e)] [] ('''', Some e)"
| replayed: "res = (OrderID rc, if Status rc = SagaStatusSucceeded then None
      else Some (ErrText (''order already processed with status '' @ Status rc))) \<Longrightarrow>
    saga_outcome u a k o' d [EvStart k o' u a (Inr (rc, False))] [] res"
| not_charged: "saga_outcome u a k o' d
    [EvStart k o' u a (Inr (rc, True)), EvCharge o' a (Some e)] [(o', SagaStatusFailed)] ('''', Some e)"
| placed: "saga_outcome u a k o' d
    [EvStart k o' u a (Inr (rc, True)), EvCharge o' a None, EvAssign o' d None]
    [(o', SagaStatusSucceeded)] (o', None)"
| compensated: "saga_outcome u a k o' d
    [EvStart k o' u a (Inr (rc, True)), EvCharge o' a None, EvAssign o' d (Some e), EvRefund o' a None]
    [(o', SagaStatusRefunded)] ('''', Some e)"
| not_refunded: "res = ('''', Some (ErrWrap ''driver assignment failed: '' e (''; refund failed: '' @ err_Error e'))) \<Longrightarrow>
    saga_outcome u a k o' d
    [EvStart k o' u a (Inr (rc, True)), EvCharge o' a None, EvAssign o' d (Some e), EvRefund o' a (Some e')]
    [(o', SagaStatusFailed)] res"

text \<open>
  The journal: every call of a client stands between a step \<open>started\<close> and a step that
  tells how it ended.
\<close>

fun step_call :: "saga_event \<Rightarrow> (string \<times> string \<times> go_error option) option" where
  "step_call (EvCharge o' _ r) = Some (o', ''charge'', r)"
| "step_call (EvAssign o' _ r) = Some (o', ''assign'', r)"
| "step_call (EvRefund o' _ r) = Some (o', ''refund'', r)"
| "step_call _ = None"

definition step_end :: "go_error option \<Rightarrow> string \<times> string" where
  "step_end r = (case r of None \<Rightarrow> (''succeeded'', '''') | Some e \<Rightarrow> (''failed'', err_Error e))"

fun journalled :: "saga_event list \<Rightarrow> bool" where
  "journalled (EvStep o1 n1 st1 d1 # ev # EvStep o2 n2 st2 d2 # es) \<longleftrightarrow>
     (\<exists>r. step_call ev = Some (o1, n1, r) \<and> o2 = o1 \<and> n2 = n1 \<and> st1 = ''started'' \<and> d1 = '''' \<and>
        (st2, d2) = step_end r) \<and> journalled es"
| "journalled (EvStart _ _ _ _ _ # es) \<longleftrightarrow> journalled es"
| "journalled (EvStatus _ _ # es) \<longleftrightarrow> journalled es"
| "journalled [] \<longleftrightarrow> True"
| "journalled _ \<longleftrightarrow> False"

lemma bind_SomeE:
  assumes "(m \<bind> f) = Some y"
  obtains r w where "m = Some (r, w)" "f (r, w) = Some y"
  using assms by (cases m) auto

lemma CreateOrder_log:
  assumes "CreateOrder (spy ctx s) c u a k (w, tr) = Some (res, (w', tr'))" "k \<noteq> ''''"
  shows "\<exists>o' d evs. tr' = tr @ evs \<and> journalled evs \<and>
    saga_outcome u a k o' d (filter is_call evs) (stored_status evs) res"
  using assms unfolding CreateOrder_def run_saga_def spy_sel bind_logged bind_unlogged
  apply (auto simp: bind_logged bind_unlogged step_end_def elim!: bind_SomeE
      split: sum.split_asm prod.split_asm option.split_asm if_split_asm)
  by (intro exI, (rule rejected not_charged placed compensated | rule replayed not_refunded, simp))+

section \<open>On the Postgres stores\<close>

text \<open>The service as \<open>BuildOrderService\<close> wires it, without the reliability wrappers.\<close>

definition pg_service ::
  "('w, db) ref \<Rightarrow> ('w, go_error + string) prim \<Rightarrow> 'w OrderService" where
  "pg_service p newV7 = NewOrderService newV7 (NewPostgresPaymentClient p) (NewPostgresDriverClient p)
     (NewSagaStore p) None None"

lemma pg_service_sel:
  "pc_Charge (os_payments (pg_service p g)) = Payment_Charge p"
  "pc_Refund (os_payments (pg_service p g)) = Payment_Refund p"
  "dc_Assign (os_drivers (pg_service p g)) = Driver_Assign p"
  "ss_Start (os_sagas (pg_service p g)) = SagaStore_Start p"
  "ss_UpdateStatus (os_sagas (pg_service p g)) = SagaStore_UpdateStatus p"
  "ss_AddStep (os_sagas (pg_service p g)) = SagaStore_AddStep p"
  "os_idGen (pg_service p g) = newOrderID g" "os_driverSel (pg_service p g) = newDriverID g"
  by (simp_all add: pg_service_def NewOrderService_def NewPostgresPaymentClient_def
      NewPostgresDriverClient_def NewSagaStore_def)

lemma newUUID_Some: "newV7 w = (Inr x, w') \<Longrightarrow> newOrderID newV7 w = Some (x, w')"
    "newV7 w = (Inr x, w') \<Longrightarrow> newDriverID newV7 w = Some (x, w')"
  by (simp_all add: newOrderID_def newDriverID_def newUUIDString_def)

text \<open>
  The abstract state of the shop: payments, drivers, the holders of the idempotency keys
  and the statuses of the orders. The journal is left out of it.
\<close>

record shop =
  sh_ledger :: "string \<Rightarrow> pay_state"
  sh_driver :: "string \<Rightarrow> string option"
  sh_holder :: "string \<Rightarrow> (string \<times> string \<times> float64) option"
  sh_status :: "string \<Rightarrow> string option"

definition shop_of :: "tables \<Rightarrow> shop" where
  "shop_of t = \<lparr>sh_ledger = ledger t, sh_driver = driver_of t, sh_holder = holder t,
     sh_status = status_of t\<rparr>"

definition take_key :: "string \<Rightarrow> string \<Rightarrow> string \<Rightarrow> float64 \<Rightarrow> shop \<Rightarrow> shop" where
  "take_key k o' u a sh = sh\<lparr>sh_holder := (sh_holder sh)(k \<mapsto> (o', u, a)),
     sh_status := (sh_status sh)(o' \<mapsto> SagaStatusStarted)\<rparr>"

definition set_status :: "string \<Rightarrow> string \<Rightarrow> shop \<Rightarrow> shop" where
  "set_status o' st sh = sh\<lparr>sh_status := (sh_status sh)(o' \<mapsto> st)\<rparr>"

definition set_payment :: "string \<Rightarrow> pay_state \<Rightarrow> shop \<Rightarrow> shop" where
  "set_payment o' s sh = sh\<lparr>sh_ledger := (sh_ledger sh)(o' := s)\<rparr>"

definition set_driver :: "string \<Rightarrow> string \<Rightarrow> shop \<Rightarrow> shop" where
  "set_driver o' d sh = sh\<lparr>sh_driver := (sh_driver sh)(o' \<mapsto> d)\<rparr>"

lemmas shop_defs = take_key_def set_status_def set_payment_def set_driver_def

lemma shop_of_sel [simp]:
  "sh_ledger (shop_of t) = ledger t" "sh_driver (shop_of t) = driver_of t"
  "sh_holder (shop_of t) = holder t" "sh_status (shop_of t) = status_of t"
  by (simp_all add: shop_of_def)

text \<open>A connection that works, over all four tables.\<close>

definition good :: "('w, db) ref \<Rightarrow> 'w \<Rightarrow> bool" where
  "good p v \<longleftrightarrow> healthy p v \<and> all_created (db_tables (rd p v)) \<and> tables_wf (db_tables (rd p v))"

text \<open>The same tables with what is to become of the next statements.\<close>

definition sound :: "('w, db) ref \<Rightarrow> (nat \<Rightarrow> fault) \<Rightarrow> 'w \<Rightarrow> bool" where
  "sound p f v \<longleftrightarrow> fated p f v \<and> all_created (db_tables (rd p v)) \<and> tables_wf (db_tables (rd p v))"

lemma good_sound: "good p v \<longleftrightarrow> sound p (\<lambda>_. Fine) v"
  by (simp add: good_def sound_def healthy_def)

lemma sound_created: "sound p f v \<Longrightarrow> T \<in> set (tb_created (db_tables (rd p v)))"
  by (cases T) (simp_all add: sound_def all_created_def)

lemma sound_same: "sound p f v \<Longrightarrow> rd p v' = rd p v \<Longrightarrow> sound p f v'"
  by (simp add: sound_def fated_def)

lemma good_created: "good p v \<Longrightarrow> T \<in> set (tb_created (db_tables (rd p v)))"
  by (cases T) (simp_all add: good_def all_created_def)

lemma good_same: "good p v \<Longrightarrow> rd p v' = rd p v \<Longrightarrow> good p v'"
  by (simp add: good_def healthy_def fated_def)

lemma no_driver_yet: "good p v \<Longrightarrow> status_of (db_tables (rd p v)) o' = None \<Longrightarrow>
    driver_of (db_tables (rd p v)) o' = None"
  by (auto simp: good_def driver_of_None status_of_None tables_wf_def orders_of_def)

context sql_orders begin

abbreviation here :: "'w \<Rightarrow> shop" where
  "here v \<equiv> shop_of (tabs v)"

lemma good_stmt:
  assumes "good p v" "healthy p v'" "tabs v' = t'" "tables_wf t'" "tb_created t' = tb_created (tabs v)"
  shows "good p v'"
  using assms by (simp add: good_def all_created_def)

lemma sound_stmt:
  assumes "sound p f v" "fated p g v'" "tabs v' = t'" "tables_wf t'" "tb_created t' = tb_created (tabs v)"
  shows "sound p g v'"
  using assms by (simp add: sound_def all_created_def)

lemma Start_sound:
  assumes "sound p f v" "f 0 = Fine" "f 1 = Fine" "live ctx" "sh_holder (here v) k = None" "sh_status (here v) o' = None"
    and "\<not> f64_is_nan a"
  obtains v' where "SagaStore_Start p ctx k o' u a v =
      Some (Inr (\<lparr>OrderID = o', UserID = u, Amount = a, Status = SagaStatusStarted\<rparr>, True), v')"
    "sound p (\<lambda>n. f (n + 2)) v'" "here v' = take_key k o' u a (here v)"
proof -
  have n: "holder (tabs v) k = None" "o' \<notin> orders_of (tabs v)"
    using assms(5,6) status_of_None by auto
  have "fated p f v" using assms(1) by (simp add: sound_def)
  from Start_next_new [OF this assms(2-4) sound_created [OF assms(1)] n, of u a] assms(7) obtain v' now
    where c: "SagaStore_Start p ctx k o' u a v =
      Some (Inr (\<lparr>OrderID = o', UserID = u, Amount = a, Status = SagaStatusStarted\<rparr>, True), v')"
      and h: "fated p (\<lambda>n. f (n + 2)) v'" and t: "tabs v' = snd (insert_saga o' k u a SagaStatusStarted now (tabs v))"
    by (auto simp: f64_eq_refl)
  have "sound p (\<lambda>n. f (n + 2)) v'"
    using assms(1) by (intro sound_stmt [OF assms(1) h t]) (simp_all add: sound_def stmt_wf tables_frame)
  with c insert_saga_holder [OF sound_created [OF assms(1)], of o' k u a SagaStatusStarted now] n that
  show thesis by (simp add: t shop_of_def take_key_def tables_frame)
qed

lemma AddStep_sound:
  assumes "sound p f v" "f 0 = Fine" "live ctx" "sh_status (here v) o' \<noteq> None"
  obtains v' where "SagaStore_AddStep p ctx o' s st d v = Some (None, v')" "sound p (\<lambda>n. f (Suc n)) v'" "here v' = here v"
proof -
  have "o' \<in> orders_of (tabs v)" using assms(4) status_of_None by auto
  moreover have fd: "fated p f v" using assms(1) by (simp add: sound_def)
  ultimately obtain v' now
    where c: "SagaStore_AddStep p ctx o' s st d v = Some (None, v')" and h: "fated p (\<lambda>n. f (Suc n)) v'"
      and t: "tabs v' = snd (insert_step o' s st d now (tabs v))"
    using AddStep_next [OF fd assms(2,3) sound_created [OF assms(1)], of o' s st d] by blast
  have "sound p (\<lambda>n. f (Suc n)) v'"
    using assms(1) by (intro sound_stmt [OF assms(1) h t]) (simp_all add: sound_def stmt_wf tables_frame)
  with c that show thesis by (simp add: t shop_of_def tables_frame)
qed

text \<open>The two ways a charge of a charged order ends: its acknowledgement lost, or refused.\<close>

lemma Charge_lost:
  assumes "sound p f v" "f 0 = Unacked e" "live ctx" "o' \<noteq> ''''" "sh_ledger (here v) o' = Unpaid"
  obtains v' where "Payment_Charge p ctx o' a v = Some (Some e, v')" "sound p (\<lambda>n. f (Suc n)) v'"
    "here v' = set_payment o' (Charged a) (here v)"
proof -
  have "fated p f v" using assms(1) by (simp add: sound_def)
  from Charge_unacked [OF this assms(2,3) sound_created [OF assms(1)] assms(4), of a] obtain v' now
    where c: "Payment_Charge p ctx o' a v = Some (Some e, v')" and h: "fated p (\<lambda>n. f (Suc n)) v'"
      and t: "tabs v' = snd (insert_payment o' a now (tabs v))" by blast
  have "sound p (\<lambda>n. f (Suc n)) v'"
    using assms(1) by (intro sound_stmt [OF assms(1) h t]) (simp_all add: sound_def stmt_wf tables_frame)
  with c that assms(5) ledger_insert_payment(2) [OF sound_created [OF assms(1)], of o' a now]
  show thesis by (simp add: t shop_of_def set_payment_def tables_frame)
qed

lemma Charge_again:
  assumes "good p v" "live ctx" "o' \<noteq> ''''" "sh_ledger (here v) o' = Charged c"
  obtains v' where "Payment_Charge p ctx o' a v = Some (Some ErrAlreadyCharged, v')" "good p v'" "here v' = here v"
proof -
  from Charge_fine [OF _ assms(2) good_created [OF assms(1)] assms(3), of a] assms(1,4) obtain v' now
    where r: "Payment_Charge p ctx o' a v = Some (Some ErrAlreadyCharged, v')" and h: "healthy p v'"
      and t: "tabs v' = snd (insert_payment o' a now (tabs v))" by (auto simp: good_def)
  have "good p v'"
    using assms(1) by (intro good_stmt [OF assms(1) h t]) (simp_all add: good_def stmt_wf tables_frame)
  with r that assms(4) ledger_insert_payment(2) [OF good_created [OF assms(1)], of o' a now]
  show thesis by (simp add: t shop_of_def tables_frame fun_upd_idem)
qed

lemma Start_run:
  assumes "good p v" "live ctx" "sh_holder (here v) k = None" "sh_status (here v) o' = None" "\<not> f64_is_nan a"
  obtains v' where "SagaStore_Start p ctx k o' u a v =
      Some (Inr (\<lparr>OrderID = o', UserID = u, Amount = a, Status = SagaStatusStarted\<rparr>, True), v')"
    "good p v'" "here v' = take_key k o' u a (here v)"
proof -
  have n: "holder (tabs v) k = None" "o' \<notin> orders_of (tabs v)"
    using assms(3,4) status_of_None by auto
  from Start_fine_new [OF _ assms(2) good_created [OF assms(1)] n, of u a] assms(1,5) obtain v' now
    where c: "SagaStore_Start p ctx k o' u a v =
      Some (Inr (\<lparr>OrderID = o', UserID = u, Amount = a, Status = SagaStatusStarted\<rparr>, True), v')"
      and h: "healthy p v'" and t: "tabs v' = snd (insert_saga o' k u a SagaStatusStarted now (tabs v))"
    by (auto simp: good_def f64_eq_refl)
  have "good p v'"
    using assms(1) by (intro good_stmt [OF assms(1) h t]) (simp_all add: good_def stmt_wf tables_frame)
  with c insert_saga_holder [OF good_created [OF assms(1)], of o' k u a SagaStatusStarted now] n that
  show thesis by (simp add: t shop_of_def take_key_def tables_frame)
qed

lemma AddStep_run:
  assumes "good p v" "live ctx" "sh_status (here v) o' \<noteq> None"
  obtains v' where "SagaStore_AddStep p ctx o' s st d v = Some (None, v')" "good p v'" "here v' = here v"
proof -
  have "o' \<in> orders_of (tabs v)" using assms(3) status_of_None by auto
  from AddStep_fine [OF _ assms(2) good_created [OF assms(1)] this, of s st d] assms(1) obtain v' now
    where c: "SagaStore_AddStep p ctx o' s st d v = Some (None, v')" and h: "healthy p v'"
      and t: "tabs v' = snd (insert_step o' s st d now (tabs v))" by (auto simp: good_def)
  have "good p v'"
    using assms(1) by (intro good_stmt [OF assms(1) h t]) (simp_all add: good_def stmt_wf tables_frame)
  with c that show thesis by (simp add: t shop_of_def tables_frame)
qed

lemma UpdateStatus_run:
  assumes "good p v" "live ctx" "sh_status (here v) o' \<noteq> None"
  obtains v' where "SagaStore_UpdateStatus p ctx o' st v = Some (None, v')" "good p v'"
    "here v' = set_status o' st (here v)"
proof -
  have o': "o' \<in> orders_of (tabs v)" using assms(3) status_of_None by auto
  from UpdateStatus_fine [OF _ assms(2) good_created [OF assms(1)], of o' st] assms(1) obtain v' now
    where c: "SagaStore_UpdateStatus p ctx o' st v = Some (None, v')" and h: "healthy p v'"
      and t: "tabs v' = snd (update_saga_status o' st now (tabs v))" by (auto simp: good_def)
  have "good p v'"
    using assms(1) by (intro good_stmt [OF assms(1) h t]) (simp_all add: good_def stmt_wf tables_frame)
  with c that o' update_saga_status_effect [OF good_created [OF assms(1)], of o' st now]
  show thesis by (simp add: t shop_of_def set_status_def tables_frame)
qed

lemma Charge_run:
  assumes "good p v" "live ctx" "o' \<noteq> ''''" "sh_ledger (here v) o' = Unpaid"
  obtains v' where "Payment_Charge p ctx o' a v = Some (None, v')" "good p v'"
    "here v' = set_payment o' (Charged a) (here v)"
proof -
  from Charge_fine [OF _ assms(2) good_created [OF assms(1)] assms(3), of a] assms(1,4) obtain v' now
    where c: "Payment_Charge p ctx o' a v = Some (None, v')" and h: "healthy p v'"
      and t: "tabs v' = snd (insert_payment o' a now (tabs v))" by (auto simp: good_def)
  have "good p v'"
    using assms(1) by (intro good_stmt [OF assms(1) h t]) (simp_all add: good_def stmt_wf tables_frame)
  with c that assms(4) ledger_insert_payment(2) [OF good_created [OF assms(1)], of o' a now]
  show thesis by (simp add: t shop_of_def set_payment_def tables_frame)
qed

lemma Refund_run:
  assumes "good p v" "live ctx" "o' \<noteq> ''''" "sh_ledger (here v) o' = Charged c"
  obtains v' where "Payment_Refund p ctx o' a v = Some (None, v')" "good p v'"
    "here v' = set_payment o' (Refunded c (Some a)) (here v)"
proof -
  have wf: "tables_wf (tabs v)" using assms(1) by (simp add: good_def)
  from Refund_fine [OF _ assms(2) good_created [OF assms(1)] wf assms(3), of a] assms(1,4) obtain v' now
    where r: "Payment_Refund p ctx o' a v = Some (None, v')" and h: "healthy p v'"
      and t: "tabs v' = snd (update_refund o' a now (tabs v))" by (auto simp: good_def)
  have "good p v'"
    using assms(1) by (intro good_stmt [OF assms(1) h t]) (simp_all add: good_def stmt_wf tables_frame)
  with r that assms(4) ledger_update_refund(2) [OF good_created [OF assms(1)] wf, of o' a now]
  show thesis by (simp add: t shop_of_def set_payment_def tables_frame)
qed

lemma Assign_run:
  assumes "good p v" "live ctx" "o' \<noteq> ''''" "d \<noteq> ''''" "sh_status (here v) o' \<noteq> None"
    and "sh_driver (here v) o' = None"
  obtains v' where "Driver_Assign p ctx o' d v = Some (None, v')" "good p v'"
    "here v' = set_driver o' d (here v)"
proof -
  have o': "o' \<in> orders_of (tabs v)" using assms(5) status_of_None by auto
  from Assign_fine [OF _ assms(2) good_created [OF assms(1)] o' assms(3,4)] assms(1,6) obtain v' now
    where r: "Driver_Assign p ctx o' d v = Some (None, v')" and h: "healthy p v'"
      and t: "tabs v' = snd (insert_assignment o' d now (tabs v))" by (auto simp: good_def)
  have "good p v'"
    using assms(1) by (intro good_stmt [OF assms(1) h t]) (simp_all add: good_def stmt_wf tables_frame)
  with r that assms(6) o' insert_assignment_driver(2) [OF good_created [OF assms(1)], of o' d now]
  show thesis by (simp add: t shop_of_def set_driver_def tables_frame)
qed

lemmas saga_runs = Start_run AddStep_run UpdateStatus_run Charge_run Refund_run Assign_run

text \<open>The saga store leaves alone what no statement touches.\<close>

lemma store_untouched:
  assumes "untouched p ctx C" "C v"
  shows "SagaStore_Start p ctx k o' u a v = Some (r1, v') \<Longrightarrow> C v'"
    "SagaStore_AddStep p ctx o' n st de v = Some (r2, v') \<Longrightarrow> C v'"
    "SagaStore_UpdateStatus p ctx o' st v = Some (r3, v') \<Longrightarrow> C v'"
proof -
  have x: "ExecContext p ctx stmt v = (r, x) \<Longrightarrow> C x" for stmt r x
    by (rule exec_untouched [OF _ assms])
  have q: "QueryRowContext p ctx f x = (r, y) \<Longrightarrow> C x \<Longrightarrow> C y" for f r x y
    by (rule query_untouched [OF _ assms(1)])
  obtain r v1 where e: "ExecContext p ctx (insert_saga o' k u a SagaStatusStarted) v = (r, v1)" by fastforce
  obtain r' v2 where f: "QueryRowContext p ctx (select_saga k) v1 = (r', v2)" by fastforce
  have "v' = v1 \<or> v' = v2" if "SagaStore_Start p ctx k o' u a v = Some (r1, v')"
    using that by (auto simp: SagaStore_Start_def e f split: sum.split_asm if_split_asm)
  moreover have "C v1" "C v2" using x [OF e] q [OF f] by blast+
  ultimately show "SagaStore_Start p ctx k o' u a v = Some (r1, v') \<Longrightarrow> C v'" by blast
  show "SagaStore_AddStep p ctx o' n st de v = Some (r2, v') \<Longrightarrow> C v'"
    by (auto simp: SagaStore_AddStep_def dest: x split: prod.split_asm sum.split_asm)
  show "SagaStore_UpdateStatus p ctx o' st v = Some (r3, v') \<Longrightarrow> C v'"
    by (auto simp: SagaStore_UpdateStatus_def dest: x split: prod.split_asm sum.split_asm)
qed

text \<open>
  A new order up to the point where the driver is asked for, with any payment client that
  charges; \<open>C\<close> is what it needs of the world, \<open>D\<close> what it leaves to the driver client.
\<close>

lemma charge_phase:
  assumes "good p v" "live ctx" "key \<noteq> ''''" "sh_holder (here v) key = None" "\<not> f64_is_nan a"
    and "o' \<noteq> ''''" "sh_status (here v) o' = None" "sh_ledger (here v) o' = Unpaid"
    and C: "untouched p ctx C" "C v" and D: "untouched p ctx D"
    and pay: "\<And>x. good p x \<Longrightarrow> C x \<Longrightarrow> sh_ledger (here x) o' = Unpaid \<Longrightarrow>
      \<exists>x'. charge x = Some (None, x') \<and> good p x' \<and> D x' \<and> here x' = set_payment o' (Charged a) (here x)"
  obtains rc v1 v2 v3 v4 v5 where
    "SagaStore_Start p ctx key o' u a v = Some (Inr (rc, True), v1)"
    "SagaStore_AddStep p ctx o' ''charge'' ''started'' '''' v1 = Some (None, v2)"
    "charge v2 = Some (None, v3)"
    "SagaStore_AddStep p ctx o' ''charge'' ''succeeded'' '''' v3 = Some (None, v4)"
    "SagaStore_AddStep p ctx o' ''assign'' ''started'' '''' v4 = Some (None, v5)"
    "good p v5" "D v5" "here v5 = set_payment o' (Charged a) (take_key key o' u a (here v))"
proof -
  from Start_run [OF assms(1,2,4,7,5)] obtain rc v1
    where 1: "SagaStore_Start p ctx key o' u a v = Some (Inr (rc, True), v1)"
      "good p v1" "here v1 = take_key key o' u a (here v)" by blast
  have s1: "sh_status (here v1) o' \<noteq> None" by (simp add: 1(3) take_key_def del: shop_of_sel)
  from AddStep_run [OF 1(2) assms(2) s1] obtain v2
    where 2: "SagaStore_AddStep p ctx o' ''charge'' ''started'' '''' v1 = Some (None, v2)"
      "good p v2" "here v2 = here v1" by blast
  have "C v2" using store_untouched(1) [OF C 1(1)] store_untouched(2) [OF C(1) _ 2(1)] by blast
  moreover have "sh_ledger (here v2) o' = Unpaid" using assms(8)
    by (simp add: 1(3) 2(3) take_key_def del: shop_of_sel)
  ultimately obtain v3 where 3: "charge v2 = Some (None, v3)"
      "good p v3" "D v3" "here v3 = set_payment o' (Charged a) (here v2)" using pay [OF 2(2)] by blast
  have s3: "sh_status (here v3) o' \<noteq> None"
    using s1 by (simp add: 2(3) 3(4) set_payment_def del: shop_of_sel)
  from AddStep_run [OF 3(2) assms(2) s3] obtain v4
    where 4: "SagaStore_AddStep p ctx o' ''charge'' ''succeeded'' '''' v3 = Some (None, v4)"
      "good p v4" "here v4 = here v3" by blast
  have s4: "sh_status (here v4) o' \<noteq> None" using s3 by (simp add: 4(3) del: shop_of_sel)
  from AddStep_run [OF 4(2) assms(2) s4] obtain v5
    where 5: "SagaStore_AddStep p ctx o' ''assign'' ''started'' '''' v4 = Some (None, v5)"
      "good p v5" "here v5 = here v4" by blast
  have "D v5" using store_untouched(2) [OF D _ 4(1)] store_untouched(2) [OF D _ 5(1)] 3(3) by blast
  from that [OF 1(1) 2(1) 3(1) 4(1) 5(1,2) this] 1(3) 2(3) 3(4) 4(3) 5(3) show thesis by simp
qed

lemma pg_charges:
  assumes "live ctx" "o' \<noteq> ''''" "good p x" "True" "sh_ledger (here x) o' = Unpaid"
  shows "\<exists>x'. Payment_Charge p ctx o' a x = Some (None, x') \<and> good p x' \<and> True \<and>
    here x' = set_payment o' (Charged a) (here x)"
  using Charge_run [OF assms(3,1,2,5), of a] by blast

lemma untouched_True: "untouched p ctx (\<lambda>_. True)"
  by (simp add: untouched_def)

text \<open>
  \<open>CreateOrder\<close> on the Postgres saga store with any clients: placed when the charge goes
  through and a driver is found, compensated when there is no driver.
\<close>

lemma order_placed_by:
  assumes "good p v" "live ctx" "key \<noteq> ''''" "sh_holder (here v) key = None" "\<not> f64_is_nan a"
    and "o' \<noteq> ''''" "sh_status (here v) o' = None" "sh_ledger (here v) o' = Unpaid"
    and C: "untouched p ctx C" "C v" and D: "untouched p ctx D"
    and s: "os_sagas s = NewSagaStore p"
    and ids: "os_idGen s w = Some (o', w1)" "os_driverSel s w1 = Some (d, v)"
    and pay: "\<And>x. good p x \<Longrightarrow> C x \<Longrightarrow> sh_ledger (here x) o' = Unpaid \<Longrightarrow>
      \<exists>x'. pc_Charge (os_payments s) ctx o' a x = Some (None, x') \<and> good p x' \<and> D x' \<and>
        here x' = set_payment o' (Charged a) (here x)"
    and drv: "\<And>x. good p x \<Longrightarrow> D x \<Longrightarrow> sh_status (here x) o' = Some SagaStatusStarted \<Longrightarrow>
      sh_driver (here x) = sh_driver (here v) \<Longrightarrow>
      \<exists>x'. dc_Assign (os_drivers s) ctx o' d x = Some (None, x') \<and> good p x' \<and>
        here x' = set_driver o' d (here x)"
  shows "\<exists>w'. CreateOrder s ctx u a key w = Some ((o', None), w') \<and> good p w' \<and>
    here w' = set_status o' SagaStatusSucceeded (set_driver o' d (set_payment o' (Charged a)
      (take_key key o' u a (here v))))"
proof -
  from charge_phase [OF assms(1-8) C D pay] obtain rc v1 v2 v3 v4 v5 where c:
    "SagaStore_Start p ctx key o' u a v = Some (Inr (rc, True), v1)"
    "SagaStore_AddStep p ctx o' ''charge'' ''started'' '''' v1 = Some (None, v2)"
    "pc_Charge (os_payments s) ctx o' a v2 = Some (None, v3)"
    "SagaStore_AddStep p ctx o' ''charge'' ''succeeded'' '''' v3 = Some (None, v4)"
    "SagaStore_AddStep p ctx o' ''assign'' ''started'' '''' v4 = Some (None, v5)"
    and g: "good p v5" and D5: "D v5"
    and h: "here v5 = set_payment o' (Charged a) (take_key key o' u a (here v))"
    by blast
  have "sh_status (here v5) o' = Some SagaStatusStarted" "sh_driver (here v5) = sh_driver (here v)"
    unfolding h by (simp_all add: shop_defs)
  from drv [OF g D5 this] obtain v6 where 6: "dc_Assign (os_drivers s) ctx o' d v5 = Some (None, v6)"
    "good p v6" "here v6 = set_driver o' d (here v5)" by blast
  have s6: "sh_status (here v6) o' \<noteq> None" unfolding 6(3) h by (simp add: shop_defs)
  from AddStep_run [OF 6(2) assms(2) s6] obtain v7
    where 7: "SagaStore_AddStep p ctx o' ''assign'' ''succeeded'' '''' v6 = Some (None, v7)"
      "good p v7" "here v7 = here v6" by blast
  from UpdateStatus_run [OF 7(2) assms(2)] s6 obtain v8
    where 8: "SagaStore_UpdateStatus p ctx o' SagaStatusSucceeded v7 = Some (None, v8)"
      "good p v8" "here v8 = set_status o' SagaStatusSucceeded (here v7)" unfolding 7(3) by blast
  have "CreateOrder s ctx u a key w = Some ((o', None), v8)"
    using assms(3) by (simp add: CreateOrder_def run_saga_def ids s NewSagaStore_def c 6(1) 7(1) 8(1))
  with 8 show ?thesis unfolding 7(3) 6(3) h by blast
qed

lemma order_placed:
  assumes "good p v" "live ctx" "key \<noteq> ''''" "sh_holder (here v) key = None" "\<not> f64_is_nan a"
    and "o' \<noteq> ''''" "sh_status (here v) o' = None" "sh_ledger (here v) o' = Unpaid"
    and s: "os_payments s = NewPostgresPaymentClient p" "os_sagas s = NewSagaStore p"
    and ids: "os_idGen s w = Some (o', w1)" "os_driverSel s w1 = Some (d, v)"
    and drv: "\<And>x. good p x \<Longrightarrow> sh_status (here x) o' = Some SagaStatusStarted \<Longrightarrow>
      sh_driver (here x) = sh_driver (here v) \<Longrightarrow>
      \<exists>x'. dc_Assign (os_drivers s) ctx o' d x = Some (None, x') \<and> good p x' \<and>
        here x' = set_driver o' d (here x)"
  shows "\<exists>w'. CreateOrder s ctx u a key w = Some ((o', None), w') \<and> good p w' \<and>
    here w' = set_status o' SagaStatusSucceeded (set_driver o' d (set_payment o' (Charged a)
      (take_key key o' u a (here v))))"
proof (rule order_placed_by [where C = "\<lambda>_. True" and D = "\<lambda>_. True",
    OF assms(1-8) untouched_True TrueI untouched_True s(2) ids])
  show "\<exists>x'. pc_Charge (os_payments s) ctx o' a x = Some (None, x') \<and> good p x' \<and> True \<and>
      here x' = set_payment o' (Charged a) (here x)" if "good p x" "sh_ledger (here x) o' = Unpaid" for x
    using pg_charges [OF assms(2,6) that(1) TrueI that(2)] by (simp add: s NewPostgresPaymentClient_def)
qed (use drv in auto)

lemma order_compensated:
  assumes "good p v" "live ctx" "key \<noteq> ''''" "sh_holder (here v) key = None" "\<not> f64_is_nan a"
    and "o' \<noteq> ''''" "sh_status (here v) o' = None" "sh_ledger (here v) o' = Unpaid"
    and s: "os_payments s = NewPostgresPaymentClient p" "os_sagas s = NewSagaStore p"
    and ids: "os_idGen s w = Some (o', w1)" "os_driverSel s w1 = Some (d, v)"
    and drv: "\<And>x. good p x \<Longrightarrow> sh_status (here x) o' = Some SagaStatusStarted \<Longrightarrow>
      \<exists>x'. dc_Assign (os_drivers s) ctx o' d x = Some (Some e, x') \<and> good p x' \<and> here x' = here x"
  shows "\<exists>w'. CreateOrder s ctx u a key w = Some (('''', Some e), w') \<and> good p w' \<and>
    here w' = set_status o' SagaStatusRefunded (set_payment o' (Refunded a (Some a))
      (take_key key o' u a (here v)))"
proof -
  obtain rc v1 v2 v3 v4 v5 where c:
    "SagaStore_Start p ctx key o' u a v = Some (Inr (rc, True), v1)"
    "SagaStore_AddStep p ctx o' ''charge'' ''started'' '''' v1 = Some (None, v2)"
    "Payment_Charge p ctx o' a v2 = Some (None, v3)"
    "SagaStore_AddStep p ctx o' ''charge'' ''succeeded'' '''' v3 = Some (None, v4)"
    "SagaStore_AddStep p ctx o' ''assign'' ''started'' '''' v4 = Some (None, v5)"
    and g: "good p v5" and "True" and h: "here v5 = set_payment o' (Charged a) (take_key key o' u a (here v))"
    by (rule charge_phase [where C = "\<lambda>_. True" and D = "\<lambda>_. True" and charge = "Payment_Charge p ctx o' a",
        OF assms(1-8) untouched_True TrueI untouched_True pg_charges [OF assms(2,6)]])
  have st: "sh_status (here v5) o' = Some SagaStatusStarted" unfolding h by (simp add: shop_defs)
  from drv [OF g st] obtain v6 where 6: "dc_Assign (os_drivers s) ctx o' d v5 = Some (Some e, v6)"
    "good p v6" "here v6 = here v5" by blast
  have s6: "sh_status (here v6) o' \<noteq> None" "sh_ledger (here v6) o' = Charged a"
    unfolding 6(3) h by (simp_all add: shop_defs)
  from AddStep_run [OF 6(2) assms(2) s6(1)] obtain v7
    where 7: "SagaStore_AddStep p ctx o' ''assign'' ''failed'' (err_Error e) v6 = Some (None, v7)"
      "good p v7" "here v7 = here v6" by blast
  from AddStep_run [OF 7(2) assms(2)] s6(1) obtain v8
    where 8: "SagaStore_AddStep p ctx o' ''refund'' ''started'' '''' v7 = Some (None, v8)"
      "good p v8" "here v8 = here v7" unfolding 7(3) by blast
  from Refund_run [OF 8(2) assms(2,6)] s6(2) obtain v9
    where 9: "Payment_Refund p ctx o' a v8 = Some (None, v9)" "good p v9"
      "here v9 = set_payment o' (Refunded a (Some a)) (here v8)" unfolding 8(3) 7(3) by blast
  have s9: "sh_status (here v9) o' \<noteq> None"
    using s6(1) unfolding 9(3) 8(3) 7(3) by (simp add: shop_defs del: shop_of_sel)
  from AddStep_run [OF 9(2) assms(2) s9] obtain va
    where a: "SagaStore_AddStep p ctx o' ''refund'' ''succeeded'' '''' v9 = Some (None, va)"
      "good p va" "here va = here v9" by blast
  from UpdateStatus_run [OF a(2) assms(2)] s9 obtain vb
    where b: "SagaStore_UpdateStatus p ctx o' SagaStatusRefunded va = Some (None, vb)"
      "good p vb" "here vb = set_status o' SagaStatusRefunded (here va)" unfolding a(3) by blast
  have "CreateOrder s ctx u a key w = Some (('''', Some e), vb)"
    using assms(3) by (simp add: CreateOrder_def run_saga_def ids s NewPostgresPaymentClient_def NewSagaStore_def
        c 6(1) 7(1) 8(1) 9(1) a(1) b(1))
  moreover have "here vb = set_status o' SagaStatusRefunded (set_payment o' (Refunded a (Some a))
      (take_key key o' u a (here v)))"
    unfolding b(3) a(3) 9(3) 8(3) 7(3) 6(3) h by (simp add: shop_defs del: shop_of_sel)
  ultimately show ?thesis using b(2) by blast
qed

text \<open>
  A payment client that reports an error is believed: the saga fails, and what the client did
  to the payment stays. The store works but for what \<open>f\<close> says of the statements from the charge on.
\<close>

lemma order_declined:
  assumes "sound p f v" "f 0 = Fine" "f 1 = Fine" "f 2 = Fine" "live ctx" "key \<noteq> ''''"
    and "sh_holder (here v) key = None" "\<not> f64_is_nan a"
    and "sh_status (here v) o' = None" "sh_ledger (here v) o' = Unpaid"
    and C: "untouched p ctx C" "C v"
    and s: "os_sagas s = NewSagaStore p"
    and ids: "os_idGen s w = Some (o', w1)" "os_driverSel s w1 = Some (d, v)"
    and pay: "\<And>x. sound p (\<lambda>n. f (n + 3)) x \<Longrightarrow> C x \<Longrightarrow> sh_ledger (here x) o' = Unpaid \<Longrightarrow>
      \<exists>e x'. pc_Charge (os_payments s) ctx o' a x = Some (Some e, x') \<and> good p x' \<and>
        here x' = set_payment o' st (here x)"
  shows "\<exists>e w'. CreateOrder s ctx u a key w = Some (('''', Some e), w') \<and> good p w' \<and>
    here w' = set_status o' SagaStatusFailed (set_payment o' st (take_key key o' u a (here v)))"
proof -
  from Start_sound [OF assms(1-3,5,7,9,8)] obtain rc v1
    where 1: "SagaStore_Start p ctx key o' u a v = Some (Inr (rc, True), v1)"
      "sound p (\<lambda>n. f (n + 2)) v1" "here v1 = take_key key o' u a (here v)" by blast
  have s1: "sh_status (here v1) o' \<noteq> None" by (simp add: 1(3) take_key_def del: shop_of_sel)
  have f2: "f (0 + 2) = Fine" using assms(4) by (simp add: numeral_2_eq_2)
  from AddStep_sound [OF 1(2) f2 assms(5) s1] obtain v2
    where 2: "SagaStore_AddStep p ctx o' ''charge'' ''started'' '''' v1 = Some (None, v2)"
      "sound p (\<lambda>n. f (Suc n + 2)) v2" "here v2 = here v1" by blast
  have f3: "sound p (\<lambda>n. f (n + 3)) v2" using 2(2) by (simp add: eval_nat_numeral)
  have "C v2" using store_untouched(1) [OF C 1(1)] store_untouched(2) [OF C(1) _ 2(1)] by blast
  moreover have "sh_ledger (here v2) o' = Unpaid" using assms(10)
    by (simp add: 1(3) 2(3) take_key_def del: shop_of_sel)
  ultimately obtain e v3 where 3: "pc_Charge (os_payments s) ctx o' a v2 = Some (Some e, v3)"
      "good p v3" "here v3 = set_payment o' st (here v2)" using pay [OF f3] by blast
  have s3: "sh_status (here v3) o' \<noteq> None"
    using s1 by (simp add: 2(3) 3(3) set_payment_def del: shop_of_sel)
  from AddStep_run [OF 3(2) assms(5) s3] obtain v4
    where 4: "SagaStore_AddStep p ctx o' ''charge'' ''failed'' (err_Error e) v3 = Some (None, v4)"
      "good p v4" "here v4 = here v3" by blast
  from UpdateStatus_run [OF 4(2) assms(5)] s3 obtain v5
    where 5: "SagaStore_UpdateStatus p ctx o' SagaStatusFailed v4 = Some (None, v5)"
      "good p v5" "here v5 = set_status o' SagaStatusFailed (here v4)" unfolding 4(3) by blast
  have "CreateOrder s ctx u a key w = Some (('''', Some e), v5)"
    using assms(6) by (simp add: CreateOrder_def run_saga_def ids s NewSagaStore_def 1(1) 2(1) 3(1) 4(1) 5(1))
  with 5(2,3) show ?thesis unfolding 4(3) 3(3) 2(3) 1(3) by blast
qed

text \<open>The same request again: the answer of the first one, and nothing else happens.\<close>

lemma order_replayed:
  assumes "good p v" "live ctx" "key \<noteq> ''''" "sh_holder (here v) key = Some (o1, u, a1)" "f64_eq a1 a"
    and "os_sagas s = NewSagaStore p"
    and "os_idGen s w = Some (o', w1)" "os_driverSel s w1 = Some (d, v)"
  shows "\<exists>w'. CreateOrder s ctx u a key w = Some ((o1, if sh_status (here v) o1 = Some SagaStatusSucceeded
      then None else Some (ErrText (''order already processed with status '' @ the (sh_status (here v) o1)))), w') \<and>
    tabs w' = tabs v"
proof -
  have wf: "healthy p v" "tables_wf (tabs v)" using assms(1) by (simp_all add: good_def)
  from Start_fine_old [OF wf(1) assms(2) good_created [OF assms(1)] wf(2), of key o1 u a1 o' u a] assms(4,5)
  obtain v' where 1: "SagaStore_Start p ctx key o' u a v = Some (Inr (\<lparr>OrderID = o1, UserID = u, Amount = a1,
      Status = the (status_of (tabs v) o1)\<rparr>, False), v')" "tabs v' = tabs v" by auto
  have "o1 \<in> orders_of (tabs v)" using assms(4) by (auto simp: holder_def orders_of_def find_Some_iff)
  then obtain st where st: "status_of (tabs v) o1 = Some st" using status_of_None by fastforce
  have "CreateOrder s ctx u a key w = Some ((o1, if st = SagaStatusSucceeded
      then None else Some (ErrText (''order already processed with status '' @ st))), v')"
    using assms(3) 1(1) by (simp add: CreateOrder_def assms(6-8) NewSagaStore_def st)
  with 1(2) show ?thesis by (simp add: st)
qed

end

section \<open>One charge per idempotency key\<close>

text \<open>
  What the service relies on: once a key is taken it stays taken, and \<open>Start\<close> reports
  \<open>created\<close> only to the call that took it. \<open>ok\<close> is whatever the store needs of the world.
\<close>

definition keeps :: "('w \<Rightarrow> bool) \<Rightarrow> ('w, 'r) act \<Rightarrow> bool" where
  "keeps J f \<longleftrightarrow> (\<forall>v r v'. f v = Some (r, v') \<longrightarrow> J v \<longrightarrow> J v')"

lemma keepsD: "keeps J f \<Longrightarrow> f v = Some (r, v') \<Longrightarrow> J v \<Longrightarrow> J v'"
  by (auto simp: keeps_def)

locale saga_contract =
  fixes S :: "'w SagaStoreI" and ctx :: "'w ctx" and taken :: "string \<Rightarrow> 'w \<Rightarrow> bool" and ok :: "'w \<Rightarrow> bool"
  assumes Start_ok: "keeps ok (ss_Start S ctx k o' u a)"
    and Status_ok: "keeps ok (ss_UpdateStatus S ctx o' st)"
    and Step_ok: "keeps ok (ss_AddStep S ctx o' n st de)"
    and Start_taken: "keeps (\<lambda>v. ok v \<and> taken k' v) (ss_Start S ctx k o' u a)"
    and Status_taken: "keeps (\<lambda>v. ok v \<and> taken k' v) (ss_UpdateStatus S ctx o' st)"
    and Step_taken: "keeps (\<lambda>v. ok v \<and> taken k' v) (ss_AddStep S ctx o' n st de)"
    and created: "ss_Start S ctx k o' u a v = Some (Inr (rc, True), v') \<Longrightarrow> ok v \<Longrightarrow>
      \<not> taken k v \<and> taken k v'"

text \<open>The clients around the store never touch what \<open>J\<close> speaks of.\<close>

definition bystanders :: "('w \<Rightarrow> bool) \<Rightarrow> 'w ctx \<Rightarrow> 'w OrderService \<Rightarrow> bool" where
  "bystanders J ctx s \<longleftrightarrow> keeps J (os_idGen s) \<and> keeps J (os_driverSel s) \<and>
     (\<forall>o' a. keeps J (pc_Charge (os_payments s) ctx o' a)) \<and>
     (\<forall>o' a. keeps J (pc_Refund (os_payments s) ctx o' a)) \<and>
     (\<forall>o' d. keeps J (dc_Assign (os_drivers s) ctx o' d))"

lemma bystandersD:
  assumes "bystanders J ctx s"
  shows "os_idGen s v = Some (i, v') \<Longrightarrow> J v \<Longrightarrow> J v'" "os_driverSel s v = Some (i, v') \<Longrightarrow> J v \<Longrightarrow> J v'"
    "pc_Charge (os_payments s) ctx o' a v = Some (e, v') \<Longrightarrow> J v \<Longrightarrow> J v'"
    "pc_Refund (os_payments s) ctx o' a v = Some (e, v') \<Longrightarrow> J v \<Longrightarrow> J v'"
    "dc_Assign (os_drivers s) ctx o' d v = Some (e, v') \<Longrightarrow> J v \<Longrightarrow> J v'"
  using assms by (auto simp: bystanders_def keeps_def)

lemma run_saga_keeps:
  assumes "run_saga s ctx o' a d v = Some (r, v')" "J v" "bystanders J ctx s"
    and "\<And>o' st. keeps J (ss_UpdateStatus (os_sagas s) ctx o' st)"
    and "\<And>o' n st de. keeps J (ss_AddStep (os_sagas s) ctx o' n st de)"
  shows "J v'"
  using assms(1,2)
  by (auto simp: run_saga_def elim!: bind_SomeE split: option.split_asm
      dest!: keepsD [OF assms(4)] keepsD [OF assms(5)] bystandersD [OF assms(3)])

text \<open>The keys charged for in a log: each charge belongs to the last \<open>Start\<close> before it.\<close>

fun charged_keys :: "string \<Rightarrow> saga_event list \<Rightarrow> string list" where
  "charged_keys k [] = []"
| "charged_keys k (EvStart k' _ _ _ _ # es) = charged_keys k' es"
| "charged_keys k (EvCharge _ _ _ # es) = k # charged_keys k es"
| "charged_keys k (_ # es) = charged_keys k es"

fun last_key :: "string \<Rightarrow> saga_event list \<Rightarrow> string" where
  "last_key k [] = k"
| "last_key k (EvStart k' _ _ _ _ # es) = last_key k' es"
| "last_key k (_ # es) = last_key k es"

lemma charged_keys_append: "charged_keys k (es @ es') = charged_keys k es @ charged_keys (last_key k es) es'"
  by (induction k es rule: charged_keys.induct) auto

lemma charged_keys_filter: "charged_keys k (filter is_call es) = charged_keys k es"
  by (induction k es rule: charged_keys.induct) auto

text \<open>Requests one after the other, each with any arguments, on a spied service.\<close>

inductive requests ::
  "'w ctx \<Rightarrow> 'w OrderService \<Rightarrow> 'w \<times> saga_event list \<Rightarrow> 'w \<times> saga_event list \<Rightarrow> bool" for ctx s where
  requests_none: "requests ctx s x x"
| requests_more: "requests ctx s x y \<Longrightarrow> CreateOrder (spy ctx s) c u a k y = Some (r, z) \<Longrightarrow> requests ctx s x z"

inductive_cases requestsE: "requests ctx s x z"

lemma run_saga_spied:
  assumes "run_saga (spy ctx s) c o' a d (v, tr) = Some (res, (v', tr'))"
  shows "run_saga s ctx o' a d v = Some (res, v') \<and> (\<exists>evs. tr' = tr @ evs \<and> (\<forall>k. charged_keys k evs = [k]))"
  using assms unfolding run_saga_def spy_sel bind_logged
  by (auto simp: bind_logged elim!: bind_SomeE split: option.split_asm)

lemma CreateOrder_spied:
  assumes "CreateOrder (spy ctx s) c u a k (w, tr) = Some (res, (w', tr'))"
  obtains (quiet) evs o' w1 d w2 r where "tr' = tr @ evs" "charged_keys '''' evs = []" "os_idGen s w = Some (o', w1)"
      "os_driverSel s w1 = Some (d, w2)" "ss_Start (os_sagas s) ctx k o' u a w2 = Some (r, w')"
      "\<And>c. charged_keys c evs = []"
  | (nothing) "tr' = tr" "w' = w"
  | (charged) evs o' w1 d w2 rc w3 where "tr' = tr @ evs" "\<And>c. charged_keys c evs = [k]"
      "os_idGen s w = Some (o', w1)" "os_driverSel s w1 = Some (d, w2)"
      "ss_Start (os_sagas s) ctx k o' u a w2 = Some (Inr (rc, True), w3)"
      "run_saga s ctx o' a d w3 = Some (res, w')"
proof (cases "k = ''''")
  case True
  with assms have "tr' = tr" "w' = w" by (auto simp: CreateOrder_def)
  then show thesis by (rule nothing)
next
  case False
  with assms obtain o' w1 d w2 r w3 where ids: "os_idGen s w = Some (o', w1)" "os_driverSel s w1 = Some (d, w2)"
      and st: "ss_Start (os_sagas s) ctx k o' u a w2 = Some (r, w3)"
      and rest: "(case r of Inl err \<Rightarrow> Some (('''', Some err), (w3, tr @ [EvStart k o' u a r]))
        | Inr (rc, created) \<Rightarrow> if \<not> created then
            (if Status rc = SagaStatusSucceeded then Some ((OrderID rc, None), (w3, tr @ [EvStart k o' u a r]))
             else Some ((OrderID rc, Some (ErrText (''order already processed with status '' @ Status rc))),
               (w3, tr @ [EvStart k o' u a r])))
          else run_saga (spy ctx s) c o' a d (w3, tr @ [EvStart k o' u a r])) = Some (res, (w', tr'))"
    unfolding CreateOrder_def spy_sel
    by (auto simp: logged_def unlogged_def elim!: bind_SomeE split: sum.split_asm prod.split_asm if_split_asm)
  show thesis
  proof (cases "\<exists>rc. r = Inr (rc, True)")
    case True
    then obtain rc where r: "r = Inr (rc, True)" ..
    with rest have "run_saga (spy ctx s) c o' a d (w3, tr @ [EvStart k o' u a r]) = Some (res, (w', tr'))" by simp
    from run_saga_spied [OF this] obtain evs where "run_saga s ctx o' a d w3 = Some (res, w')"
      "tr' = tr @ EvStart k o' u a r # evs" "\<forall>c. charged_keys c evs = [c]" by auto
    with ids st r charged [of "EvStart k o' u a r # evs"] show thesis by simp
  next
    case False
    with rest have "w' = w3" "tr' = tr @ [EvStart k o' u a r]"
      by (auto split: sum.split_asm prod.split_asm if_split_asm)
    with ids st quiet [of "[EvStart k o' u a r]"] show thesis by simp
  qed
qed

context saga_contract begin

text \<open>The keys charged so far are distinct and taken.\<close>

definition accounted :: "'w \<times> saga_event list \<Rightarrow> bool" where
  "accounted x \<longleftrightarrow> (case x of (v, tr) \<Rightarrow> ok v \<and> distinct (charged_keys '''' tr) \<and>
     (\<forall>k \<in> set (charged_keys '''' tr). taken k v))"

lemma request_accounted:
  assumes "CreateOrder (spy ctx s) c u a k (w, tr) = Some (res, (w', tr'))" "accounted (w, tr)"
    and "os_sagas s = S" "bystanders ok ctx s" "\<And>k. bystanders (\<lambda>v. ok v \<and> taken k v) ctx s"
  shows "accounted (w', tr')"
proof -
  have ok: "ok w" and d: "distinct (charged_keys '''' tr)"
    and tk: "\<And>q. q \<in> set (charged_keys '''' tr) \<Longrightarrow> taken q w"
    using assms(2) by (auto simp: accounted_def)
  note b = bystandersD [OF assms(4)] and bt = bystandersD [OF assms(5)]
  from assms(1) show ?thesis
  proof (cases rule: CreateOrder_spied)
    case (quiet evs o' w1 d' w2 r)
    then have "ok w'" using ok b(1,2) keepsD [OF Start_ok] assms(3) by blast
    moreover have "taken q w'" if "taken q w" for q
      using quiet ok that bt(1,2) [of _ _ _ q] keepsD [OF Start_taken [of q]] assms(3) by blast
    ultimately show ?thesis
      using quiet d tk by (auto simp: accounted_def charged_keys_append)
  next
    case nothing
    with assms(2) show ?thesis by simp
  next
    case (charged evs o' w1 d' w2 rc w3)
    have ok2: "ok w2" using charged ok b(1,2) by blast
    have ok': "ok w'"
      using run_saga_keeps [OF charged(6) _ assms(4)] keepsD [OF Start_ok] ok2 charged(5) Status_ok Step_ok assms(3)
      by blast
    have on: "taken q w'" if "ok w3 \<and> taken q w3" for q
      using run_saga_keeps [OF charged(6) that assms(5)] Status_taken Step_taken assms(3) by blast
    have ok3: "ok w3" using keepsD [OF Start_ok] ok2 charged(5) assms(3) by blast
    have t2: "taken q w2" if "taken q w" for q using charged ok that bt(1,2) [of _ _ _ q] by blast
    have t3: "taken q w3" if "taken q w" for q
      using keepsD [OF Start_taken [of q]] ok2 t2 [OF that] charged(5) assms(3) by blast
    have "\<not> taken k w2" "taken k w3" using created ok2 charged(5) assms(3) by auto
    then have "k \<notin> set (charged_keys '''' tr)" "taken k w'" using tk t2 on ok3 by blast+
    with ok' d tk t3 on ok3 charged(1,2) show ?thesis
      by (auto simp: accounted_def charged_keys_append)
  qed
qed

lemma requests_accounted:
  assumes "requests ctx s x z" "accounted x"
    and "os_sagas s = S" "bystanders ok ctx s" "\<And>k. bystanders (\<lambda>v. ok v \<and> taken k v) ctx s"
  shows "accounted z"
  using assms(1,2)
proof induction
  case (requests_more x y c u a k r z)
  obtain v tr v' tr' where "y = (v, tr)" "z = (v', tr')" by fastforce
  with requests_more request_accounted [of s c u a k v tr r v' tr'] assms(3-5) show ?case by simp
qed

end

section \<open>The Postgres stores honour the contract\<close>

definition saga_table :: "tables \<Rightarrow> bool" where
  "saga_table t \<longleftrightarrow> T_order_sagas \<in> set (tb_created t)"

definition held :: "string \<Rightarrow> tables \<Rightarrow> bool" where
  "held k t \<longleftrightarrow> saga_table t \<and> holder t k \<noteq> None"

lemma saga_table_closed: "stmt_closed saga_table"
  by (simp add: stmt_closed_def saga_table_def tables_frame create_table_def)

lemma held_closed: "stmt_closed (held k)"
  by (simp add: stmt_closed_def held_def tables_frame insert_saga_holder update_saga_status_effect
      saga_table_def) (simp add: create_table_def)

context sql_orders begin

lemma pg_keeps:
  assumes "stmt_closed J"
  shows "keeps (\<lambda>v. J (tabs v)) (SagaStore_Start p ctx k o' u a)"
    and "keeps (\<lambda>v. J (tabs v)) (SagaStore_UpdateStatus p ctx o' st)"
    and "keeps (\<lambda>v. J (tabs v)) (SagaStore_AddStep p ctx o' n st de)"
    and "keeps (\<lambda>v. J (tabs v)) (Payment_Charge p ctx o' a)"
    and "keeps (\<lambda>v. J (tabs v)) (Payment_Refund p ctx o' a)"
    and "keeps (\<lambda>v. J (tabs v)) (Driver_Assign p ctx o' d)"
  by (unfold keeps_def; intro allI impI; erule (1) stores_closed [OF assms, rotated])+

end

sublocale sql_orders \<subseteq> pg: saga_contract "NewSagaStore p" ctx
  "\<lambda>k v. holder (tabs v) k \<noteq> None" "\<lambda>v. saga_table (tabs v)"
proof unfold_locales
  fix k o' u a rc v v'
  assume "ss_Start (NewSagaStore p) ctx k o' u a v = Some (Inr (rc, True), v')" "saga_table (tabs v)"
  with Start_effect [of k o' u a v "Inr (rc, True)" v']
  show "\<not> holder (tabs v) k \<noteq> None \<and> holder (tabs v') k \<noteq> None"
    by (auto simp: NewSagaStore_def saga_table_def)
qed (simp_all only: NewSagaStore_def SagaStoreI.simps pg_keeps saga_table_closed
    pg_keeps [OF held_closed, unfolded held_def])

context sql_orders begin

lemma one_charge:
  assumes "saga_table (tabs w)" "os_sagas s = NewSagaStore p"
    and "\<And>J. stmt_closed J \<Longrightarrow> bystanders (\<lambda>v. J (tabs v)) ctx s"
    and "requests ctx s (w, []) (w', tr')"
  shows "distinct (charged_keys '''' tr')"
proof -
  have "pg.accounted (w, [])" unfolding pg.accounted_def using assms(1) by simp
  from pg.requests_accounted [OF assms(4) this assms(2) assms(3) [OF saga_table_closed]
      assms(3) [OF held_closed, unfolded held_def]]
  show ?thesis unfolding pg.accounted_def by simp
qed

end

text \<open>The rest of the service on Postgres leaves the store to the statements.\<close>

lemma pg_bystanders:
  assumes "sql_orders p ctx" "stmt_closed J" "\<And>v i v'. newV7 v = (i, v') \<Longrightarrow> rd p v' = rd p v"
  shows "bystanders (\<lambda>v. J (db_tables (rd p v))) ctx (pg_service p newV7)"
  unfolding bystanders_def pg_service_sel
  using sql_orders.pg_keeps(4-6) [OF assms(1,2)] assms(3)
  by (auto simp: keeps_def newOrderID_def newDriverID_def newUUIDString_def split: prod.splits sum.splits)

section \<open>What the service promises\<close>

text \<open>
  C1: The saga protocol. A request without a key is refused before anything happens. Any
  other request follows one of the six outcomes of \<open>saga_outcome\<close>: which clients are
  called, in which order and with which results, which final status is stored, and what
  is answered (so: at most one charge; a refund exactly when the charge succeeded and no
  driver was assigned; success only with a charge and a driver). Every client call is
  framed by its journal steps. The log is that of the service itself: \<open>spy\<close> changes
  neither results nor effects.
\<close>

theorem CreateOrder_protocol:
  assumes "CreateOrder (spy ctx s) c userID amount key (w, tr) = Some (res, (w', tr'))"
  shows "CreateOrder s ctx userID amount key w = Some (res, w') \<and>
    (if key = '''' then res = ('''', Some ErrIdempotencyKeyRequired) \<and> w' = w \<and> tr' = tr
     else \<exists>orderID driverID evs. tr' = tr @ evs \<and> journalled evs \<and>
       saga_outcome userID amount key orderID driverID (filter is_call evs) (stored_status evs) res)"
proof -
  have "CreateOrder s ctx userID amount key w = Some (res, w')"
    using CreateOrder_spy [of ctx s c userID amount key w tr] assms by simp
  moreover have "key = '''' \<Longrightarrow> res = ('''', Some ErrIdempotencyKeyRequired) \<and> w' = w \<and> tr' = tr"
    using assms by (auto simp: CreateOrder_def)
  ultimately show ?thesis using CreateOrder_log [OF assms] by (cases "key = ''''") simp_all
qed

text \<open>The smallest deployment: the database alone, and a generator that always gives \<open>o1\<close>.\<close>

definition fixed_id :: "(db, go_error + string) prim" where
  "fixed_id w = (Inr ''o1'', w)"

lemma self_good: "good db_self (db_with ready (\<lambda>_. Fine))" "live (context_Background :: db ctx)"
  using ready_wf
  by (simp_all add: good_def healthy_def fated_def live_def context_Background_def db_self_def db_with_def all_created_def)

lemma self_fresh:
  "db_tables (rd db_self (db_with t f)) = t" "shop_of ready =
    \<lparr>sh_ledger = (\<lambda>_. Unpaid), sh_driver = (\<lambda>_. None), sh_holder = (\<lambda>_. None), sh_status = (\<lambda>_. None)\<rparr>"
  by (simp_all add: db_self_def db_with_def shop_of_def ready_def empty_tables_def ledger_def driver_of_def
      holder_def status_of_def fun_eq_iff)

lemma self_placed:
  "\<exists>w'. CreateOrder (pg_service db_self fixed_id) context_Background ''u1'' f64_10 ''k1''
      (db_with ready (\<lambda>_. Fine)) = Some ((''o1'', None), w')"
proof -
  let ?v = "db_with ready (\<lambda>_. Fine)"
  have f: "sh_holder (shop_of (db_tables (rd db_self ?v))) ''k1'' = None"
    "sh_status (shop_of (db_tables (rd db_self ?v))) ''o1'' = None"
    "sh_ledger (shop_of (db_tables (rd db_self ?v))) ''o1'' = Unpaid"
    unfolding self_fresh by simp_all
  have drv: "\<exists>x'. dc_Assign (os_drivers (pg_service db_self fixed_id)) context_Background ''o1'' ''o1'' x = Some (None, x') \<and>
      good db_self x' \<and> selfdb.here x' = set_driver ''o1'' ''o1'' (selfdb.here x)"
    if "good db_self x" "sh_status (selfdb.here x) ''o1'' = Some SagaStatusStarted"
      "sh_driver (selfdb.here x) = sh_driver (selfdb.here ?v)" for x
    using selfdb.Assign_run [OF that(1) self_good(2), of "''o1''" "''o1''"] that(2,3)
    unfolding pg_service_sel self_fresh by (auto simp del: shop_of_sel)
  show ?thesis
    using selfdb.order_placed [of ?v "''k1''" f64_10 "''o1''" "pg_service db_self fixed_id" ?v ?v "''o1''" "''u1''",
        OF self_good _ f(1) f64_nan_is_nan(2) _ f(2,3) _ _ _ _ drv]
    by (auto simp: pg_service_def NewOrderService_def newOrderID_def newDriverID_def newUUIDString_def fixed_id_def)
qed

theorem CreateOrder_protocol_witness:
  "\<exists>o' d evs. saga_outcome ''u1'' f64_10 ''k1'' o' d (filter is_call evs) (stored_status evs) (''o1'', None)"
proof -
  let ?s = "pg_service db_self fixed_id" and ?v = "db_with ready (\<lambda>_. Fine)"
  from self_placed obtain w'
    where r: "CreateOrder ?s context_Background ''u1'' f64_10 ''k1'' ?v = Some ((''o1'', None), w')" by blast
  obtain tr' where "CreateOrder (spy context_Background ?s) context_Background ''u1'' f64_10 ''k1'' (?v, []) =
      Some ((''o1'', None), (w', tr'))"
    using CreateOrder_spy [of context_Background ?s context_Background "''u1''" f64_10 "''k1''" ?v "[]"]
    by (auto simp: r)
  from CreateOrder_protocol [OF this] show ?thesis by auto
qed

text \<open>
  C2: One charge per idempotency key. Over any sequence of requests to a service on the
  Postgres saga store, whatever its statements lose or fail to acknowledge and whatever
  the clients answer, no key is charged for twice.
\<close>

theorem one_charge_per_key:
  assumes "sql_orders p ctx" "T_order_sagas \<in> set (tb_created (db_tables (rd p w)))"
    and "os_sagas s = NewSagaStore p"
    and "\<And>J. stmt_closed J \<Longrightarrow> bystanders (\<lambda>v. J (db_tables (rd p v))) ctx s"
    and "requests ctx s (w, []) (w', tr')"
  shows "distinct (charged_keys '''' tr')"
  by (rule sql_orders.one_charge [OF assms(1) _ assms(3-5)]) (simp add: assms(2) saga_table_def)

theorem one_charge_per_key_witness:
  "\<exists>x. requests context_Background (pg_service db_self fixed_id) (db_with ready (\<lambda>_. Fine), []) x \<and>
    distinct (charged_keys '''' (snd x))"
proof -
  let ?s = "pg_service db_self fixed_id" and ?v = "db_with ready (\<lambda>_. Fine)"
  from self_placed obtain w1
    where r: "CreateOrder ?s context_Background ''u1'' f64_10 ''k1'' ?v = Some ((''o1'', None), w1)" by blast
  obtain tr1 where "CreateOrder (spy context_Background ?s) context_Background ''u1'' f64_10 ''k1'' (?v, []) =
      Some ((''o1'', None), (w1, tr1))"
    using CreateOrder_spy [of context_Background ?s context_Background "''u1''" f64_10 "''k1''" ?v "[]"]
    by (auto simp: r)
  then have q: "requests context_Background ?s (?v, []) (w1, tr1)"
    by (rule requests_more [OF requests_none])
  have "distinct (charged_keys '''' tr1)"
  proof (rule one_charge_per_key [OF selfdb.sql_orders_axioms _ _ _ q])
    show "T_order_sagas \<in> set (tb_created (db_tables (rd db_self ?v)))"
      unfolding self_fresh using ready_wf(2) by simp
    show "os_sagas ?s = NewSagaStore db_self"
      by (simp add: pg_service_def NewOrderService_def)
    show "bystanders (\<lambda>v. J (db_tables (rd db_self v))) context_Background ?s" if "stmt_closed J" for J
      by (rule pg_bystanders [OF selfdb.sql_orders_axioms that]) (simp add: fixed_id_def)
  qed
  with q show ?thesis by (intro exI [of _ "(w1, tr1)"]) simp
qed

text \<open>
  C3: End to end on healthy Postgres. A request with a fresh key places the order: it is
  charged, has the chosen driver, ends as \<open>succeeded\<close>, and no other order, key or payment
  changes. The same request again, at once or after any generated ids, answers with the
  same order id and changes no table.
\<close>

theorem CreateOrder_end_to_end:
  assumes "sql_orders p ctx" "live ctx" "good p w" "key \<noteq> ''''" "\<not> f64_is_nan amount"
    and "newV7 w = (Inr orderID, w1)" "newV7 w1 = (Inr driverID, w2)"
    and "\<And>v i v'. newV7 v = (i, v') \<Longrightarrow> rd p v' = rd p v"
    and "orderID \<noteq> ''''" "driverID \<noteq> ''''"
    and "sh = shop_of (db_tables (rd p w))" "sh_holder sh key = None" "sh_status sh orderID = None"
    and "sh_ledger sh orderID = Unpaid"
  shows "\<exists>w'. CreateOrder (pg_service p newV7) ctx userID amount key w = Some ((orderID, None), w') \<and>
    shop_of (db_tables (rd p w')) = set_status orderID SagaStatusSucceeded (set_driver orderID driverID
      (set_payment orderID (Charged amount) (take_key key orderID userID amount sh))) \<and>
    (\<forall>x x1 x2. newV7 w' = (Inr x, x1) \<and> (\<exists>y. newV7 x1 = (Inr y, x2)) \<longrightarrow>
      (\<exists>w''. CreateOrder (pg_service p newV7) ctx userID amount key w' = Some ((orderID, None), w'') \<and>
        db_tables (rd p w'') = db_tables (rd p w')))"
proof -
  let ?s = "pg_service p newV7"
  have rd2: "rd p w2 = rd p w" using assms(6,7) assms(8) [of w] assms(8) [of w1] by simp
  have g2: "good p w2" using good_same [OF assms(3) rd2] .
  have sh: "sh = shop_of (db_tables (rd p w2))" by (simp add: assms(11) rd2)
  have nd: "sh_driver sh orderID = None"
    using no_driver_yet [OF assms(3)] assms(11,13) by simp
  have drv: "\<exists>x'. dc_Assign (os_drivers ?s) ctx orderID driverID x = Some (None, x') \<and> good p x' \<and>
      shop_of (db_tables (rd p x')) = set_driver orderID driverID (shop_of (db_tables (rd p x)))"
    if "good p x" "sh_status (shop_of (db_tables (rd p x))) orderID = Some SagaStatusStarted"
      "sh_driver (shop_of (db_tables (rd p x))) = sh_driver (shop_of (db_tables (rd p w2)))" for x
    using sql_orders.Assign_run [OF assms(1) that(1) assms(2,9,10)] that(2,3) nd
    unfolding pg_service_sel sh [symmetric] by (auto simp del: shop_of_sel)
  have "\<exists>w'. CreateOrder ?s ctx userID amount key w = Some ((orderID, None), w') \<and> good p w' \<and>
      shop_of (db_tables (rd p w')) = set_status orderID SagaStatusSucceeded (set_driver orderID driverID
        (set_payment orderID (Charged amount) (take_key key orderID userID amount (shop_of (db_tables (rd p w2))))))"
    using assms(12-14) unfolding sh
    by (intro sql_orders.order_placed [OF assms(1) g2 assms(2,4) _ assms(5,9) _ _ _ _ _ _ drv])
      (simp_all add: pg_service_sel newUUID_Some [of newV7, OF assms(6)] newUUID_Some [of newV7, OF assms(7)],
        simp_all add: newUUID_Some [of newV7, OF assms(7)] pg_service_def NewOrderService_def)
  then obtain w' where c: "CreateOrder ?s ctx userID amount key w = Some ((orderID, None), w')"
    and g: "good p w'" and h: "shop_of (db_tables (rd p w')) = set_status orderID SagaStatusSucceeded
      (set_driver orderID driverID (set_payment orderID (Charged amount) (take_key key orderID userID amount sh)))"
    unfolding sh by blast
  have "\<exists>w''. CreateOrder ?s ctx userID amount key w' = Some ((orderID, None), w'') \<and>
      db_tables (rd p w'') = db_tables (rd p w')"
    if x: "newV7 w' = (Inr x, x1)" "newV7 x1 = (Inr y, x2)" for x x1 y x2
  proof -
    have r: "rd p x2 = rd p w'" using x assms(8) [of w'] assms(8) [of x1] by simp
    have k: "sh_holder (shop_of (db_tables (rd p x2))) key = Some (orderID, userID, amount)"
      and st: "sh_status (shop_of (db_tables (rd p x2))) orderID = Some SagaStatusSucceeded"
      unfolding r h by (simp_all add: shop_defs)
    have "f64_eq amount amount" using assms(5) by (simp add: f64_eq_refl)
    from sql_orders.order_replayed [OF assms(1) good_same [OF g r] assms(2,4) k this, of ?s w' x x1 y] st r
    show ?thesis
      by (simp add: pg_service_sel newUUID_Some [of newV7, OF x(1)] newUUID_Some [of newV7, OF x(2)])
        (simp add: pg_service_def NewOrderService_def)
  qed
  with c h show ?thesis by blast
qed

theorem CreateOrder_end_to_end_witness:
  "\<exists>w' w''. CreateOrder (pg_service db_self fixed_id) context_Background ''u1'' f64_10 ''k1''
      (db_with ready (\<lambda>_. Fine)) = Some ((''o1'', None), w') \<and>
    ledger (db_tables w') ''o1'' = Charged f64_10 \<and> driver_of (db_tables w') ''o1'' = Some ''o1'' \<and>
    CreateOrder (pg_service db_self fixed_id) context_Background ''u1'' f64_10 ''k1'' w' = Some ((''o1'', None), w'')"
proof -
  let ?v = "db_with ready (\<lambda>_. Fine)"
  have ids: "fixed_id v = (Inr ''o1'', v)" for v by (simp add: fixed_id_def)
  from CreateOrder_end_to_end [where key = "''k1''" and userID = "''u1''" and ?newV7.0 = fixed_id and sh = "shop_of ready",
      OF selfdb.sql_orders_axioms self_good(2,1) _ f64_nan_is_nan(2) ids ids]
  obtain w' where c: "CreateOrder (pg_service db_self fixed_id) context_Background ''u1'' f64_10 ''k1'' ?v =
      Some ((''o1'', None), w')"
    and h: "shop_of (db_tables (rd db_self w')) = set_status ''o1'' SagaStatusSucceeded (set_driver ''o1'' ''o1''
      (set_payment ''o1'' (Charged f64_10) (take_key ''k1'' ''o1'' ''u1'' f64_10 (shop_of ready))))"
    and again: "\<exists>w''. CreateOrder (pg_service db_self fixed_id) context_Background ''u1'' f64_10 ''k1'' w' =
      Some ((''o1'', None), w'')"
    unfolding self_fresh(1) by (auto simp: ids self_fresh(2) simp del: shop_of_sel)
  have "sh_ledger (shop_of (db_tables (rd db_self w'))) ''o1'' = Charged f64_10"
    "sh_driver (shop_of (db_tables (rd db_self w'))) ''o1'' = Some ''o1''"
    unfolding h by (simp_all add: shop_defs)
  with c again show ?thesis by (auto simp: db_self_def)
qed

text \<open>
  C4: Compensation. If no driver can be assigned, a healthy store refunds: the payment of
  the order goes from charged to refunded with the full amount, the order ends as
  \<open>refunded\<close>, the caller gets the driver's error, and the key stays used up.
\<close>

theorem CreateOrder_compensates:
  assumes "sql_orders p ctx" "live ctx" "good p w" "key \<noteq> ''''" "\<not> f64_is_nan amount" "orderID \<noteq> ''''"
    and "sh = shop_of (db_tables (rd p w))" "sh_holder sh key = None" "sh_status sh orderID = None"
    and "sh_ledger sh orderID = Unpaid"
    and "os_payments s = NewPostgresPaymentClient p" "os_sagas s = NewSagaStore p"
    and "os_idGen s w = Some (orderID, w)" "os_driverSel s w = Some (driverID, w)"
    and "\<And>x. \<exists>x'. dc_Assign (os_drivers s) ctx orderID driverID x = Some (Some e, x') \<and> rd p x' = rd p x"
  shows "\<exists>w'. CreateOrder s ctx userID amount key w = Some (('''', Some e), w') \<and>
    shop_of (db_tables (rd p w')) = set_status orderID SagaStatusRefunded
      (set_payment orderID (Refunded amount (Some amount)) (take_key key orderID userID amount sh))"
proof -
  have "\<exists>x'. dc_Assign (os_drivers s) ctx orderID driverID x = Some (Some e, x') \<and> good p x' \<and>
      shop_of (db_tables (rd p x')) = shop_of (db_tables (rd p x))" if "good p x" for x
    using assms(15) [of x] good_same [OF that] by auto
  then show ?thesis
    using sql_orders.order_compensated [OF assms(1,3,2,4) _ assms(5,6) _ _ assms(11-14)] assms(7-10) by blast
qed

definition no_drivers :: "db OrderService" where
  "no_drivers = (pg_service db_self fixed_id)
     \<lparr>os_drivers := \<lparr>dc_Assign = (\<lambda>_ _ _ w. Some (Some (ErrText ''no driver''), w))\<rparr>\<rparr>"

theorem CreateOrder_compensates_witness:
  "\<exists>w'. CreateOrder no_drivers context_Background ''u1'' f64_10 ''k1'' (db_with ready (\<lambda>_. Fine)) =
      Some (('''', Some (ErrText ''no driver'')), w') \<and>
    ledger (db_tables w') ''o1'' = Refunded f64_10 (Some f64_10)"
proof -
  let ?v = "db_with ready (\<lambda>_. Fine)"
  have n: "os_payments no_drivers = NewPostgresPaymentClient db_self" "os_sagas no_drivers = NewSagaStore db_self"
    "os_idGen no_drivers ?v = Some (''o1'', ?v)" "os_driverSel no_drivers ?v = Some (''o1'', ?v)"
    by (simp_all add: no_drivers_def pg_service_def NewOrderService_def newOrderID_def newDriverID_def
        newUUIDString_def fixed_id_def)
  have "\<exists>x'. dc_Assign (os_drivers no_drivers) context_Background ''o1'' ''o1'' x = Some (Some (ErrText ''no driver''), x') \<and>
      rd db_self x' = rd db_self x" for x
    by (simp add: no_drivers_def)
  from CreateOrder_compensates [where key = "''k1''" and userID = "''u1''",
      OF selfdb.sql_orders_axioms self_good(2,1) _ f64_nan_is_nan(2) _ refl _ _ _ n this]
  obtain w' where c: "CreateOrder no_drivers context_Background ''u1'' f64_10 ''k1'' ?v =
      Some (('''', Some (ErrText ''no driver'')), w')"
    and h: "shop_of (db_tables (rd db_self w')) = set_status ''o1'' SagaStatusRefunded
      (set_payment ''o1'' (Refunded f64_10 (Some f64_10)) (take_key ''k1'' ''o1'' ''u1'' f64_10 (shop_of ready)))"
    unfolding self_fresh by auto
  have "sh_ledger (shop_of (db_tables (rd db_self w'))) ''o1'' = Refunded f64_10 (Some f64_10)"
    unfolding h by (simp add: shop_defs)
  with c show ?thesis by (auto simp: db_self_def)
qed

end
