(* ===== verification/FloatArith.thy ===== *)
theory FloatArith
  imports Float64
begin

text \<open>
  The \<open>float64\<close> arithmetic of the program: conversion from \<open>int64\<close>, sums, products and
  quotients, each the exact result rounded to nearest (ties to even), and truncation back
  to an integer. All are built on rounding a quotient of integers; integers below \<open>2^53\<close>
  convert exactly.
\<close>

section \<open>Rounding a quotient\<close>

function bit_length :: "int \<Rightarrow> int" where
  "bit_length n = (if n \<le> 0 then 0 else 1 + bit_length (n div 2))"
  by pat_completeness auto
termination by (relation "measure nat") auto

declare bit_length.simps [simp del]

definition round_half_even :: "int \<Rightarrow> int \<Rightarrow> int" where
  "round_half_even a b =
     (let q = a div b; r = a mod b
      in if 2 * r < b then q else if 2 * r > b then q + 1 else if even q then q else q + 1)"

text \<open>The exponent of the leading bit of \<open>n / d\<close>, for positive \<open>n\<close> and \<open>d\<close>.\<close>

definition quot_log2 :: "int \<Rightarrow> int \<Rightarrow> int" where
  "quot_log2 n d =
     (let k = bit_length n - bit_length d
      in if n * 2 ^ nat (- k) \<ge> d * 2 ^ nat k then k else k - 1)"

definition f64_bits_of_quot :: "int \<Rightarrow> int \<Rightarrow> int" where
  "f64_bits_of_quot n d =
     (if n = 0 then 0
      else let e = max (quot_log2 n d - 52) (- 1074);
               m = round_half_even (n * 2 ^ nat (- e)) (d * 2 ^ nat e);
               b = (e + 1074) * 2 ^ 52 + m
           in if b < 0x7FF0000000000000 then b else 0x7FF0000000000000)"

definition f64_of_quot :: "int \<Rightarrow> int \<Rightarrow> float64" where
  "f64_of_quot n d =
     (if n < 0 then word_of_int (2 ^ 63 + f64_bits_of_quot (- n) d)
      else word_of_int (f64_bits_of_quot n d))"

section \<open>The operations, on finite arguments\<close>

definition f64_of_int :: "int \<Rightarrow> float64" where
  "f64_of_int n = f64_of_quot n 1"

definition f64_add :: "float64 \<Rightarrow> float64 \<Rightarrow> float64" where
  "f64_add x y = f64_of_quot (f64_scaled x + f64_scaled y) (2 ^ 1074)"

definition f64_mul :: "float64 \<Rightarrow> float64 \<Rightarrow> float64" where
  "f64_mul x y = f64_of_quot (f64_scaled x * f64_scaled y) (2 ^ 2148)"

definition f64_div :: "float64 \<Rightarrow> float64 \<Rightarrow> float64" where
  "f64_div x y = (if f64_scaled y < 0 then f64_of_quot (- f64_scaled x) (- f64_scaled y)
     else f64_of_quot (f64_scaled x) (f64_scaled y))"

definition f64_to_int :: "float64 \<Rightarrow> int" where
  "f64_to_int x = f64_scaled x sdiv 2 ^ 1074"

section \<open>Exact conversions\<close>

lemma bit_length_bounds: "0 < n \<Longrightarrow> 2 ^ nat (bit_length n - 1) \<le> n \<and> n < 2 ^ nat (bit_length n) \<and> 1 \<le> bit_length n"
proof (induction n rule: bit_length.induct)
  case (1 n)
  show ?case
  proof (cases "n div 2 = 0")
    case True
    with 1(2) have "n = 1" by linarith
    then show ?thesis by (simp add: bit_length.simps [of 1] bit_length.simps [of 0])
  next
    case False
    with 1(2) have p: "0 < n div 2" by linarith
    from 1(1) [OF _ p] 1(2) have ih: "2 ^ nat (bit_length (n div 2) - 1) \<le> n div 2"
      "n div 2 < 2 ^ nat (bit_length (n div 2))" "1 \<le> bit_length (n div 2)" by auto
    have b: "bit_length n = 1 + bit_length (n div 2)" using 1(2) by (subst bit_length.simps) simp
    obtain k where k: "bit_length (n div 2) = 1 + int k"
      using ih(3) by (metis zle_iff_zadd)
    have s: "nat (1 + bit_length (n div 2)) = Suc (Suc k)" "nat (bit_length (n div 2)) = Suc k"
      "nat (1 + bit_length (n div 2) - 1) = Suc k" "nat (bit_length (n div 2) - 1) = k"
      using k by auto
    have "2 * 2 ^ k \<le> n" "n < 2 * (2 * 2 ^ k)"
      using ih(1,2) unfolding s by auto
    then show ?thesis unfolding b s by (simp add: k)
  qed
qed

lemma f64_of_int_bits:
  assumes "0 < n" "n < 2 ^ 53"
  shows "\<exists>k. k < 53 \<and> 2 ^ k \<le> n \<and> n < 2 ^ Suc k \<and>
    f64_bits_of_quot n 1 = (int k + 1022) * 2 ^ 52 + n * 2 ^ (52 - k)"
proof -
  from bit_length_bounds [OF assms(1)] obtain k where k: "bit_length n = 1 + int k"
    by (metis zle_iff_zadd)
  have b: "2 ^ k \<le> n" "n < 2 ^ Suc k"
    using bit_length_bounds [OF assms(1)] by (simp_all add: k nat_add_distrib)
  have "(2::int) ^ k < 2 ^ 53" using b(1) assms(2) by linarith
  then have k53: "k < 53" by (metis power_less_imp_less_exp one_less_numeral_iff semiring_norm(76))
  have "bit_length 1 = 1" by (simp add: bit_length.simps [of 1] bit_length.simps [of 0])
  then have l: "quot_log2 n 1 = int k"
    using b by (simp add: quot_log2_def k Let_def)
  have e: "max (int k - 52) (- 1074) = int k - 52" "nat (int k - 52) = 0" "nat (52 - int k) = 52 - k"
    using k53 by auto
  have "n * 2 ^ (52 - k) < 2 ^ Suc k * 2 ^ (52 - k)" using b(2) by (intro mult_strict_right_mono) auto
  also have "\<dots> = 2 ^ 53" using k53 by (simp flip: power_add power_Suc)
  finally have m: "n * 2 ^ (52 - k) < 2 ^ 53" .
  have "(int k + 1022) * 2 ^ 52 + n * 2 ^ (52 - k) < 0x7FF0000000000000"
    using m k53 by simp
  then have "f64_bits_of_quot n 1 = (int k + 1022) * 2 ^ 52 + n * 2 ^ (52 - k)"
    using assms(1) by (simp add: f64_bits_of_quot_def l e round_half_even_def Let_def)
  with b k53 show ?thesis by blast
qed

lemma f64_of_bits:
  assumes "0 \<le> b" "b < 0x7FF0000000000000"
  shows "f64_scaled (word_of_int b) = int (mag_scaled (nat b))" "f64_finite (word_of_int b)"
proof -
  have m: "f64_mag (word_of_int b) = b" using assms by (simp add: f64_mag_def uint_word_of_int)
  have "\<not> bit b 63" using assms by (simp add: bit_iff_odd)
  then have "\<not> f64_neg (word_of_int b)" unfolding f64_neg_def bit_word_of_int_iff by simp
  then show "f64_scaled (word_of_int b) = int (mag_scaled (nat b))" by (simp add: f64_scaled_def m)
  show "f64_finite (word_of_int b)" using assms by (simp add: f64_finite_def m)
qed

lemma f64_of_int_exact_pos:
  assumes "0 < n" "n < 2 ^ 53"
  shows "f64_scaled (f64_of_int n) = n * 2 ^ 1074 \<and> f64_finite (f64_of_int n)"
proof -
  from f64_of_int_bits [OF assms] obtain k where k: "k < 53" "2 ^ k \<le> n" "n < 2 ^ Suc k"
    and b: "f64_bits_of_quot n 1 = (int k + 1022) * 2 ^ 52 + n * 2 ^ (52 - k)" by blast
  define f where "f = n * 2 ^ (52 - k) - 2 ^ 52"
  have p: "(2::int) ^ k * 2 ^ (52 - k) = 2 ^ 52" using k(1) by (simp flip: power_add)
  have "2 ^ k * 2 ^ (52 - k) \<le> n * 2 ^ (52 - k)" using k(2) by (intro mult_right_mono) auto
  then have f0: "0 \<le> f" by (simp add: f_def p)
  have "n * 2 ^ (52 - k) < 2 ^ Suc k * 2 ^ (52 - k)" using k(3) by (intro mult_strict_right_mono) auto
  also have "\<dots> = 2 * (2 ^ k * 2 ^ (52 - k))" by simp
  finally have f1: "f < 2 ^ 52" unfolding p by (simp add: f_def)
  have bits: "f64_bits_of_quot n 1 = (int k + 1023) * 2 ^ 52 + f" by (simp add: b f_def algebra_simps)
  have nb: "nat (f64_bits_of_quot n 1) = (k + 1023) * 2 ^ 52 + nat f"
    using f0 by (simp add: bits nat_add_distrib nat_mult_distrib)
  have f1': "nat f < 2 ^ 52" using f0 f1 by (simp add: nat_less_iff)
  have nz: "(2 :: nat) ^ 52 \<noteq> 0" by simp
  have d: "nat (f64_bits_of_quot n 1) div 2 ^ 52 = k + 1023" "nat (f64_bits_of_quot n 1) mod 2 ^ 52 = nat f"
    unfolding nb by (simp_all only: div_mult_self3 [OF nz] mod_mult_self3 div_less [OF f1'] mod_less [OF f1'] add_0_right)
  have "int (mag_scaled (nat (f64_bits_of_quot n 1))) = (2 ^ 52 + f) * 2 ^ (k + 1022)"
    unfolding mag_scaled_def d using f0 by simp
  also have "\<dots> = n * (2 ^ (52 - k) * 2 ^ (k + 1022))" by (simp add: f_def)
  also have "2 ^ (52 - k) * 2 ^ (k + 1022) = (2 :: int) ^ 1074" using k(1) by (simp flip: power_add)
  finally have m: "int (mag_scaled (nat (f64_bits_of_quot n 1))) = n * 2 ^ 1074" .
  have r: "0 \<le> f64_bits_of_quot n 1" "f64_bits_of_quot n 1 < 0x7FF0000000000000"
    using k(1) f0 f1 unfolding bits by simp_all
  have "f64_of_int n = word_of_int (f64_bits_of_quot n 1)" using assms(1) by (simp add: f64_of_int_def f64_of_quot_def)
  with f64_of_bits [OF r] m show ?thesis by simp
qed

lemma f64_of_int_exact:
  assumes "0 \<le> n" "n < 2 ^ 53"
  shows "f64_scaled (f64_of_int n) = n * 2 ^ 1074" "f64_finite (f64_of_int n)"
proof -
  have z: "f64_scaled (f64_of_int 0) = 0" "f64_finite (f64_of_int 0)"
    by (simp_all add: f64_of_int_def f64_of_quot_def f64_bits_of_quot_def f64_scaled_def f64_finite_def f64_mag_def f64_neg_def)
  show "f64_scaled (f64_of_int n) = n * 2 ^ 1074" "f64_finite (f64_of_int n)"
    using f64_of_int_exact_pos [of n] assms z by (cases "n = 0"; simp)+
qed

text \<open>A common power of two cancels from a quotient.\<close>

lemma bit_length_double: "0 < n \<Longrightarrow> bit_length (n * 2 ^ k) = bit_length n + int k"
proof (induction k)
  case (Suc k)
  have "0 < n * 2 ^ Suc k" "n * 2 ^ Suc k div 2 = n * 2 ^ k" using Suc.prems by simp_all
  then have "bit_length (n * 2 ^ Suc k) = 1 + bit_length (n * 2 ^ k)"
    by (subst bit_length.simps) simp
  with Suc show ?case by simp
qed simp

lemma round_half_even_cancel:
  fixes a b c :: int
  assumes "0 < c"
  shows "round_half_even (a * c) (b * c) = round_half_even a b"
proof -
  have d: "a * c div (b * c) = a div b" "a * c mod (b * c) = (a mod b) * c" using assms by simp_all
  have c: "2 * (x * c) < b * c \<longleftrightarrow> 2 * x < b" "2 * (x * c) > b * c \<longleftrightarrow> 2 * x > b" for x
    using mult_less_cancel_right_pos [OF assms, of "2 * x" b] mult_less_cancel_right_pos [OF assms, of b "2 * x"]
    by (simp_all add: mult.assoc)
  show ?thesis unfolding round_half_even_def Let_def d c ..
qed

lemma f64_of_quot_cancel:
  assumes "0 < n" "0 < d"
  shows "f64_of_quot (n * 2 ^ k) (d * 2 ^ k) = f64_of_quot n d"
proof -
  have l: "quot_log2 (n * 2 ^ k) (d * 2 ^ k) = quot_log2 n d"
  proof -
    have "n * 2 ^ k * x \<ge> d * 2 ^ k * y \<longleftrightarrow> n * x \<ge> d * y" for x y :: int
      using mult_le_cancel_right_pos [of "2 ^ k" "d * y" "n * x"] by (simp add: ac_simps)
    then show ?thesis using assms by (simp add: quot_log2_def Let_def bit_length_double)
  qed
  have "round_half_even (n * 2 ^ k * x) (d * 2 ^ k * y) = round_half_even (n * x) (d * y)" for x y :: int
    using round_half_even_cancel [of "2 ^ k" "n * x" "d * y"] by (simp add: ac_simps)
  then have "f64_bits_of_quot (n * 2 ^ k) (d * 2 ^ k) = f64_bits_of_quot n d"
    using assms by (simp add: f64_bits_of_quot_def l Let_def)
  moreover have "\<not> n * 2 ^ k < 0" using assms by (simp add: not_less)
  ultimately show ?thesis using assms by (simp add: f64_of_quot_def)
qed

lemma f64_div_ints:
  assumes "0 < n" "n < 2 ^ 53" "0 < d" "d < 2 ^ 53"
  shows "f64_div (f64_of_int n) (f64_of_int d) = f64_of_quot n d"
  using f64_of_int_exact [of n] f64_of_int_exact [of d] f64_of_quot_cancel [of n d 1074] assms
  by (simp add: f64_div_def)

end
