(* ===== verification/GoText.thy ===== *)
theory GoText
  imports Main "HOL-Library.Char_ord"
begin

text \<open>
  The parts of Go's \<open>strings\<close>, \<open>strconv\<close> and \<open>time\<close> the program uses, on strings as
  lists of bytes: prefix and substring tests, lower case, trimming of white space in UTF-8,
  decimal numbers, and the RFC 3339 form of an instant in UTC.
\<close>

section \<open>Package strings\<close>

definition strings_HasPrefix :: "string \<Rightarrow> string \<Rightarrow> bool" where
  "strings_HasPrefix s p \<longleftrightarrow> take (length p) s = p"

fun strings_Contains :: "string \<Rightarrow> string \<Rightarrow> bool" where
  "strings_Contains [] p \<longleftrightarrow> p = []"
| "strings_Contains (c # s) p \<longleftrightarrow> strings_HasPrefix (c # s) p \<or> strings_Contains s p"

text \<open>
  \<open>ToLower\<close>. Two characters outside ASCII have an ASCII lower case, the capital I with a
  dot (C4 B0) and the Kelvin sign (E2 84 AA); the others have none, and are left as they
  are here, which no test for an ASCII substring can tell.
\<close>

definition lower_char :: "char \<Rightarrow> char" where
  "lower_char c = (if 65 \<le> (of_char c :: nat) \<and> (of_char c :: nat) \<le> 90 then char_of (of_char c + 32 :: nat) else c)"

fun strings_ToLower :: "string \<Rightarrow> string" where
  "strings_ToLower [] = []"
| "strings_ToLower (c # s) =
     (case s of
        d # s' \<Rightarrow>
          if c = CHR 0xC4 \<and> d = CHR 0xB0 then CHR ''i'' # strings_ToLower s'
          else (case s' of
            e # s'' \<Rightarrow>
              if c = CHR 0xE2 \<and> d = CHR 0x84 \<and> e = CHR 0xAA then CHR ''k'' # strings_ToLower s''
              else lower_char c # strings_ToLower s
          | [] \<Rightarrow> lower_char c # strings_ToLower s)
      | [] \<Rightarrow> [lower_char c])"

text \<open>The encodings of the white space characters of \<open>unicode.IsSpace\<close>.\<close>

definition ascii_spaces :: "string list" where
  "ascii_spaces = [[CHR 0x09], [CHR 0x0A], [CHR 0x0B], [CHR 0x0C], [CHR 0x0D], [CHR 0x20]]"

definition wide_spaces :: "string list" where
  "wide_spaces = [[CHR 0xC2, CHR 0x85], [CHR 0xC2, CHR 0xA0], [CHR 0xE1, CHR 0x9A, CHR 0x80]] @
     map (\<lambda>b. [CHR 0xE2, CHR 0x80, b])
       [CHR 0x80, CHR 0x81, CHR 0x82, CHR 0x83, CHR 0x84, CHR 0x85, CHR 0x86, CHR 0x87, CHR 0x88,
        CHR 0x89, CHR 0x8A, CHR 0xA8, CHR 0xA9, CHR 0xAF] @
     [[CHR 0xE2, CHR 0x81, CHR 0x9F], [CHR 0xE3, CHR 0x80, CHR 0x80]]"

definition space_encodings :: "string list" where
  "space_encodings = ascii_spaces @ wide_spaces"

lemma space_encodings_nonempty: "x \<in> set space_encodings \<Longrightarrow> x \<noteq> []"
  by (auto simp: space_encodings_def ascii_spaces_def wide_spaces_def)

text \<open>Cut one of the given non-empty words off the front as long as there is one.\<close>

function trim_front :: "string list \<Rightarrow> string \<Rightarrow> string" where
  "trim_front ws s =
     (case find (\<lambda>x. x \<noteq> [] \<and> strings_HasPrefix s x) ws of
        None \<Rightarrow> s | Some x \<Rightarrow> trim_front ws (drop (length x) s))"
  by pat_completeness auto
termination
proof (relation "measure (\<lambda>(_, s). length s)")
  fix ws s x
  assume "find (\<lambda>x. x \<noteq> [] \<and> strings_HasPrefix s x) ws = Some x"
  then have "x \<noteq> []" "take (length x) s = x" by (auto simp: find_Some_iff strings_HasPrefix_def)
  then have "0 < length x" "length x \<le> length s" by (auto, metis length_take min.cobounded1)
  then show "((ws, drop (length x) s), ws, s) \<in> measure (\<lambda>(_, s). length s)"
    by (cases s) auto
qed simp

declare trim_front.simps [simp del]

definition strings_TrimSpace :: "string \<Rightarrow> string" where
  "strings_TrimSpace s =
     rev (trim_front (map rev space_encodings) (rev (trim_front space_encodings s)))"

section \<open>Decimal numbers\<close>

definition digit :: "int \<Rightarrow> char" where
  "digit d = char_of (48 + d)"

definition digit_val :: "char \<Rightarrow> int option" where
  "digit_val c = (let n = of_char c :: int in if 48 \<le> n \<and> n \<le> 57 then Some (n - 48) else None)"

text \<open>The decimal form of a number that is not negative.\<close>

function show_dec :: "int \<Rightarrow> string" where
  "show_dec n = (if n < 10 then [digit n] else show_dec (n div 10) @ [digit (n mod 10)])"
  by pat_completeness auto
termination by (relation "measure nat") auto

declare show_dec.simps [simp del]

definition pad_dec :: "nat \<Rightarrow> int \<Rightarrow> string" where
  "pad_dec k n = (let s = show_dec n in replicate (k - length s) CHR ''0'' @ s)"

fun parse_digits :: "int \<Rightarrow> string \<Rightarrow> int option" where
  "parse_digits acc [] = Some acc"
| "parse_digits acc (c # s) =
     (case digit_val c of None \<Rightarrow> None | Some d \<Rightarrow> parse_digits (acc * 10 + d) s)"

lemma of_char_digit: "0 \<le> d \<Longrightarrow> d < 10 \<Longrightarrow> (of_char (digit d) :: int) = 48 + d"
  by (simp add: digit_def)

lemma digit_val_digit: "0 \<le> d \<Longrightarrow> d < 10 \<Longrightarrow> digit_val (digit d) = Some d"
  by (simp add: digit_val_def of_char_digit)

lemma parse_digits_append:
  "parse_digits a (s @ t) = (case parse_digits a s of None \<Rightarrow> None | Some b \<Rightarrow> parse_digits b t)"
  by (induction s arbitrary: a) (auto split: option.splits)

lemma parse_show_dec: "0 \<le> n \<Longrightarrow> parse_digits 0 (show_dec n) = Some n"
proof (induction n rule: show_dec.induct)
  case (1 n)
  then show ?case
    by (subst show_dec.simps) (auto simp: parse_digits_append digit_val_digit)
qed

lemma show_dec_nonempty: "show_dec n \<noteq> []"
  by (subst show_dec.simps) simp

section \<open>RFC 3339\<close>

text \<open>
  The civil date of a day counted from 1970-01-01, by eras of 400 years that start on the
  first of March: (year, month, day).
\<close>

definition civil_of_days :: "int \<Rightarrow> int \<times> int \<times> int" where
  "civil_of_days days =
     (let z = days + 719468;
          era = z div 146097;
          doe = z mod 146097;
          yoe = (doe - doe div 1460 + doe div 36524 - doe div 146096) div 365;
          doy = doe - (365 * yoe + yoe div 4 - yoe div 100);
          mp = (5 * doy + 2) div 153;
          d = doy - (153 * mp + 2) div 5 + 1;
          m = (if mp < 10 then mp + 3 else mp - 9);
          y = yoe + era * 400 + (if m \<le> 2 then 1 else 0)
      in (y, m, d))"

fun trim_zeros :: "string \<Rightarrow> string" where
  "trim_zeros [] = []"
| "trim_zeros (c # s) = (if c = CHR ''0'' then trim_zeros s else c # s)"

text \<open>\<open>t.UTC().Format(time.RFC3339Nano)\<close> for \<open>t\<close> in nanoseconds since 1970.\<close>

definition format_RFC3339Nano :: "int \<Rightarrow> string" where
  "format_RFC3339Nano t =
     (let secs = t div 1000000000;
          nanos = t mod 1000000000;
          (y, m, d) = civil_of_days (secs div 86400);
          sod = secs mod 86400;
          frac = rev (trim_zeros (rev (pad_dec 9 nanos)))
      in (if y < 0 then ''-'' else '''') @ pad_dec 4 \<bar>y\<bar> @ ''-'' @ pad_dec 2 m @ ''-'' @
         pad_dec 2 d @ ''T'' @ pad_dec 2 (sod div 3600) @ '':'' @ pad_dec 2 (sod div 60 mod 60) @
         '':'' @ pad_dec 2 (sod mod 60) @ (if nanos = 0 then '''' else ''.'' @ frac) @ ''Z'')"

end
