(* ===== verification/GoConf.thy ===== *)
theory GoConf
  imports FloatArith GoText
begin

text \<open>
  The conversions of \<open>strconv\<close> and \<open>time\<close> the configuration is read with: \<open>Atoi\<close>,
  \<open>ParseInt\<close>, \<open>ParseBool\<close> and \<open>ParseDuration\<close>, with their errors and limits, and the
  laws that numbers and durations written in decimal are read back, with any ASCII white
  space around them.
\<close>

section \<open>strconv\<close>

definition strconv_ErrSyntax :: go_error where
  "strconv_ErrSyntax = ErrVar ''strconv.ErrSyntax'' ''invalid syntax''"
definition strconv_ErrRange :: go_error where
  "strconv_ErrRange = ErrVar ''strconv.ErrRange'' ''value out of range''"

text \<open>A \<open>NumError\<close>; \<open>quote\<close> is \<open>strconv.Quote\<close>, which only shows in the text.\<close>

definition num_error :: "(string \<Rightarrow> string) \<Rightarrow> string \<Rightarrow> string \<Rightarrow> go_error \<Rightarrow> go_error" where
  "num_error quote fn num err = ErrWrap (''strconv.'' @ fn @ '': parsing '' @ quote num @ '': '') err ''''"

text \<open>The loop of \<open>ParseUint\<close> in base 10: the range error comes before a later bad character.\<close>

fun parse_uint :: "int \<Rightarrow> string \<Rightarrow> go_error + int" where
  "parse_uint n [] = Inr n"
| "parse_uint n (c # s) =
     (case digit_val c of
        None \<Rightarrow> Inl strconv_ErrSyntax
      | Some d \<Rightarrow>
          if n \<ge> 1844674407370955162 then Inl strconv_ErrRange
          else if n * 10 + d > 2 ^ 64 - 1 then Inl strconv_ErrRange
          else parse_uint (n * 10 + d) s)"

definition parse_sign :: "string \<Rightarrow> bool \<times> string" where
  "parse_sign s = (case s of
     c # s' \<Rightarrow> if c = CHR ''+'' then (False, s') else if c = CHR ''-'' then (True, s') else (False, s)
   | [] \<Rightarrow> (False, s))"

text \<open>\<open>ParseInt(s, 10, 64)\<close>; \<open>Atoi\<close> on a 64-bit machine differs in the name of its errors.\<close>

definition parse_int :: "(string \<Rightarrow> string) \<Rightarrow> string \<Rightarrow> string \<Rightarrow> go_error + int" where
  "parse_int quote fn s =
     (let (neg, digits) = parse_sign s
      in if digits = '''' then Inl (num_error quote fn s strconv_ErrSyntax)
         else (case parse_uint 0 digits of
            Inl err \<Rightarrow> Inl (num_error quote fn s err)
          | Inr un \<Rightarrow>
              if \<not> neg \<and> un \<ge> 2 ^ 63 then Inl (num_error quote fn s strconv_ErrRange)
              else if neg \<and> un > 2 ^ 63 then Inl (num_error quote fn s strconv_ErrRange)
              else Inr (if neg then - un else un)))"

definition strconv_ParseInt :: "(string \<Rightarrow> string) \<Rightarrow> string \<Rightarrow> go_error + int" where
  "strconv_ParseInt quote = parse_int quote ''ParseInt''"

definition strconv_Atoi :: "(string \<Rightarrow> string) \<Rightarrow> string \<Rightarrow> go_error + int" where
  "strconv_Atoi quote = parse_int quote ''Atoi''"

definition strconv_ParseBool :: "(string \<Rightarrow> string) \<Rightarrow> string \<Rightarrow> go_error + bool" where
  "strconv_ParseBool quote s =
     (if s \<in> {''1'', ''t'', ''T'', ''TRUE'', ''true'', ''True''} then Inr True
      else if s \<in> {''0'', ''f'', ''F'', ''FALSE'', ''false'', ''False''} then Inr False
      else Inl (num_error quote ''ParseBool'' s strconv_ErrSyntax))"

section \<open>time.ParseDuration\<close>

definition hex_digit :: "int \<Rightarrow> char" where
  "hex_digit d = (if d < 10 then char_of (48 + d) else char_of (87 + d))"

text \<open>The \<open>quote\<close> of package \<open>time\<close>.\<close>

definition time_quote :: "string \<Rightarrow> string" where
  "time_quote s = CHR 0x22 # concat (map (\<lambda>c.
       let n = of_char c :: int
       in if n \<ge> 128 \<or> n < 32 then [CHR 0x5C, CHR ''x'', hex_digit (n div 16), hex_digit (n mod 16)]
          else if c = CHR 0x22 \<or> c = CHR 0x5C then [CHR 0x5C, c] else [c]) s) @ [CHR 0x22]"

definition invalid_duration :: "string \<Rightarrow> go_error" where
  "invalid_duration orig = ErrText (''time: invalid duration '' @ time_quote orig)"

definition unit_map :: "(string \<times> int) list" where
  "unit_map = [(''ns'', 1), (''us'', 1000), ([CHR 0xC2, CHR 0xB5, CHR ''s''], 1000),
     ([CHR 0xCE, CHR 0xBC, CHR ''s''], 1000), (''ms'', 1000000), (''s'', 1000000000),
     (''m'', 60000000000), (''h'', 3600000000000)]"

fun leading_int :: "int \<Rightarrow> string \<Rightarrow> (int \<times> string) option" where
  "leading_int x [] = Some (x, [])"
| "leading_int x (c # s) =
     (case digit_val c of
        None \<Rightarrow> Some (x, c # s)
      | Some d \<Rightarrow>
          if x > 2 ^ 63 div 10 then None
          else if x * 10 + d > 2 ^ 63 then None
          else leading_int (x * 10 + d) s)"

fun leading_fraction :: "bool \<Rightarrow> int \<Rightarrow> float64 \<Rightarrow> string \<Rightarrow> int \<times> float64 \<times> string" where
  "leading_fraction overflow x scale [] = (x, scale, [])"
| "leading_fraction overflow x scale (c # s) =
     (case digit_val c of
        None \<Rightarrow> (x, scale, c # s)
      | Some d \<Rightarrow>
          if overflow then leading_fraction True x scale s
          else if x > (2 ^ 63 - 1) div 10 then leading_fraction True x scale s
          else if x * 10 + d > 2 ^ 63 then leading_fraction True x scale s
          else leading_fraction False (x * 10 + d) (f64_mul scale f64_10) s)"

text \<open>\<open>(\.[0-9]*)?\<close>: the fraction, its scale, the rest, and whether it has a digit.\<close>

definition parse_fraction :: "string \<Rightarrow> int \<times> float64 \<times> string \<times> bool" where
  "parse_fraction s =
     (case s of
        c # t \<Rightarrow>
          if c = CHR ''.'' then
            (let (f, scale, rest) = leading_fraction False 0 (f64_of_int 1) t
             in (f, scale, rest, length t \<noteq> length rest))
          else (0, f64_of_int 1, s, False)
      | [] \<Rightarrow> (0, f64_of_int 1, s, False))"

definition unit_char :: "char \<Rightarrow> bool" where
  "unit_char c \<longleftrightarrow> c \<noteq> CHR ''.'' \<and> digit_val c = None"

text \<open>One round of the loop: a number with its unit, in nanoseconds, and the rest.\<close>

definition parse_segment :: "string \<Rightarrow> string \<Rightarrow> go_error + int \<times> string" where
  "parse_segment orig s =
     (if s \<noteq> '''' \<and> unit_char (hd s) then Inl (invalid_duration orig)
      else case leading_int 0 s of
        None \<Rightarrow> Inl (invalid_duration orig)
      | Some (v, s1) \<Rightarrow>
          (let pre = (length s \<noteq> length s1);
               (f, scale, s2, post) = parse_fraction s1
           in if \<not> pre \<and> \<not> post then Inl (invalid_duration orig)
              else let u = takeWhile unit_char s2; s3 = dropWhile unit_char s2
              in if u = '''' then Inl (ErrText (''time: missing unit in duration '' @ time_quote orig))
              else case map_of unit_map u of
                None \<Rightarrow> Inl (ErrText (''time: unknown unit '' @ time_quote u @ '' in duration '' @ time_quote orig))
              | Some unit \<Rightarrow>
                  if v > 2 ^ 63 div unit then Inl (invalid_duration orig)
                  else let v = v * unit
                  in if f > 0 then
                       (let v = v + f64_to_int (f64_mul (f64_of_int f) (f64_div (f64_of_int unit) scale))
                        in if v > 2 ^ 63 then Inl (invalid_duration orig) else Inr (v, s3))
                     else Inr (v, s3)))"

lemma leading_int_length: "leading_int x s = Some (v, r) \<Longrightarrow> length r \<le> length s"
  by (induction x s rule: leading_int.induct) (auto split: option.splits if_splits)

lemma leading_fraction_length: "leading_fraction ov x sc s = (f, scale, r) \<Longrightarrow> length r \<le> length s"
  by (induction ov x sc s rule: leading_fraction.induct) (auto split: option.splits if_splits)

lemma parse_fraction_length: "parse_fraction s = (f, scale, r, post) \<Longrightarrow> length r \<le> length s"
  by (auto simp: parse_fraction_def split: list.splits if_splits prod.splits dest!: leading_fraction_length)

lemma parse_segment_shorter:
  assumes "parse_segment orig s = Inr (v, r)"
  shows "length r < length s"
proof -
  from assms obtain v1 s1 where l: "leading_int 0 s = Some (v1, s1)"
    by (auto simp: parse_segment_def split: option.splits if_splits)
  obtain f scale s2 post where p: "parse_fraction s1 = (f, scale, s2, post)" by (metis prod_cases4)
  have u: "takeWhile unit_char s2 \<noteq> ''''" and r: "r = dropWhile unit_char s2"
    using assms l p by (auto simp: parse_segment_def Let_def split: option.splits if_splits)
  have "length s2 = length (takeWhile unit_char s2) + length (dropWhile unit_char s2)"
    by (metis length_append takeWhile_dropWhile_id)
  moreover have "0 < length (takeWhile unit_char s2)" using u by simp
  ultimately have "length r < length s2" unfolding r by linarith
  also have "\<dots> \<le> length s" using leading_int_length [OF l] parse_fraction_length [OF p] by simp
  finally show ?thesis .
qed

function parse_segments :: "string \<Rightarrow> int \<Rightarrow> string \<Rightarrow> go_error + int" where
  "parse_segments orig d s =
     (if s = '''' then Inr d
      else case parse_segment orig s of
        Inl err \<Rightarrow> Inl err
      | Inr (v, rest) \<Rightarrow>
          (let d = (d + v) mod 2 ^ 64
           in if d > 2 ^ 63 then Inl (invalid_duration orig) else parse_segments orig d rest))"
  by pat_completeness auto
termination
  by (relation "measure (\<lambda>(_, _, s). length s)") (auto dest: parse_segment_shorter)

declare parse_segments.simps [simp del]

definition time_ParseDuration :: "string \<Rightarrow> go_error + duration" where
  "time_ParseDuration orig =
     (let (neg, s) = parse_sign orig
      in if s = ''0'' then Inr 0
         else if s = '''' then Inl (invalid_duration orig)
         else case parse_segments orig 0 s of
            Inl err \<Rightarrow> Inl err
          | Inr d \<Rightarrow>
              if neg then Inr (wrap64 (- d))
              else if d > 2 ^ 63 - 1 then Inl (invalid_duration orig)
              else Inr d)"


section \<open>Numbers are read back\<close>

lemma digit_val_bounds: "digit_val c = Some d \<Longrightarrow> 0 \<le> d \<and> d < 10"
  by (auto simp: digit_val_def Let_def split: if_splits)

lemma parse_digits_mono: "parse_digits n s = Some m \<Longrightarrow> 0 \<le> n \<Longrightarrow> n \<le> m"
proof (induction n s rule: parse_digits.induct)
  case (2 acc c s)
  then obtain d where d: "digit_val c = Some d" "parse_digits (acc * 10 + d) s = Some m"
    by (auto split: option.splits)
  with 2 digit_val_bounds [OF d(1)] have "acc * 10 + d \<le> m" by simp
  with digit_val_bounds [OF d(1)] 2(3) show ?case by simp
qed simp

lemma parse_uint_digits:
  "parse_digits n s = Some m \<Longrightarrow> 0 \<le> n \<Longrightarrow> m \<le> 2 ^ 64 - 1 \<Longrightarrow> parse_uint n s = Inr m"
proof (induction n s rule: parse_uint.induct)
  case (2 n c s)
  then obtain d where d: "digit_val c = Some d" "parse_digits (n * 10 + d) s = Some m"
    by (auto split: option.splits)
  from digit_val_bounds [OF d(1)] 2(3) have "0 \<le> n * 10 + d" "n * 10 \<le> n * 10 + d" by simp_all
  with parse_digits_mono [OF d(2)] 2 d show ?case by simp
qed simp

lemma leading_int_digits:
  "parse_digits n s = Some m \<Longrightarrow> 0 \<le> n \<Longrightarrow> m \<le> 2 ^ 63 \<Longrightarrow> rest \<noteq> '''' \<Longrightarrow> digit_val (hd rest) = None \<Longrightarrow>
    leading_int n (s @ rest) = Some (m, rest)"
proof (induction n s rule: parse_uint.induct)
  case (1 n)
  then show ?case by (cases rest) auto
next
  case (2 n c s)
  then obtain d where d: "digit_val c = Some d" "parse_digits (n * 10 + d) s = Some m"
    by (auto split: option.splits)
  from digit_val_bounds [OF d(1)] 2(3) have "0 \<le> n * 10 + d" "n * 10 \<le> n * 10 + d" by simp_all
  with parse_digits_mono [OF d(2)] 2 d show ?case by simp
qed

lemma show_dec_digits: "0 \<le> n \<Longrightarrow> \<forall>c \<in> set (show_dec n). digit_val c \<noteq> None"
proof (induction n rule: show_dec.induct)
  case (1 n)
  then show ?case by (subst show_dec.simps) (auto simp: digit_val_digit)
qed

text \<open>A text that begins and ends with a visible ASCII character.\<close>

definition visible :: "char \<Rightarrow> bool" where
  "visible c \<longleftrightarrow> 33 \<le> (of_char c :: nat) \<and> (of_char c :: nat) \<le> 126"

definition plain :: "string \<Rightarrow> bool" where
  "plain s \<longleftrightarrow> s \<noteq> '''' \<and> visible (hd s) \<and> visible (last s)"

lemma visible_not_space:
  assumes "visible c" "x \<in> set space_encodings"
  shows "hd x \<noteq> c" "hd (rev x) \<noteq> c"
  using assms by (auto simp: visible_def space_encodings_def ascii_spaces_def wide_spaces_def)

lemma trim_front_stops:
  assumes "s \<noteq> ''''" "\<And>x. x \<in> set ws \<Longrightarrow> hd x \<noteq> hd s"
  shows "trim_front ws s = s"
proof -
  have "find (\<lambda>x. x \<noteq> [] \<and> strings_HasPrefix s x) ws = None"
    unfolding find_None_iff
  proof (intro notI)
    assume "\<exists>x. x \<in> set ws \<and> (x \<noteq> [] \<and> strings_HasPrefix s x)"
    then obtain x where x: "x \<in> set ws" "x \<noteq> []" "take (length x) s = x"
      by (auto simp: strings_HasPrefix_def)
    then have "hd x = hd s" using assms(1) by (metis hd_take length_greater_0_conv)
    with assms(2) x(1) show False by blast
  qed
  then show ?thesis by (subst trim_front.simps) simp
qed

text \<open>A single byte of a word list is cut off when no longer word starts with it.\<close>

lemma trim_front_Cons:
  assumes "[c] \<in> set ws" "\<And>x. x \<in> set ws \<Longrightarrow> x \<noteq> [] \<Longrightarrow> hd x = c \<Longrightarrow> x = [c]"
  shows "trim_front ws (c # s) = trim_front ws s"
proof -
  let ?P = "\<lambda>x. x \<noteq> [] \<and> strings_HasPrefix (c # s) x"
  have "?P [c]" by (simp add: strings_HasPrefix_def)
  then have "find ?P ws \<noteq> None" using assms(1) unfolding find_None_iff by blast
  then obtain x where x: "find ?P ws = Some x" by blast
  then have w: "x \<in> set ws" "x \<noteq> []" "take (length x) (c # s) = x"
    by (auto simp: find_Some_iff strings_HasPrefix_def)
  have "hd x = c" using w(2,3) by (metis hd_take length_greater_0_conv list.sel(1))
  with assms(2) w have "x = [c]" by blast
  with x show ?thesis by (subst trim_front.simps) simp
qed

definition ascii_space :: "char \<Rightarrow> bool" where
  "ascii_space c \<longleftrightarrow> c \<in> {CHR 0x09, CHR 0x0A, CHR 0x0B, CHR 0x0C, CHR 0x0D, CHR 0x20}"

lemma trim_front_spaces:
  assumes "\<forall>c \<in> set u. ascii_space c"
  shows "trim_front space_encodings (u @ s) = trim_front space_encodings s"
    "trim_front (map rev space_encodings) (u @ s) = trim_front (map rev space_encodings) s"
proof -
  have 1: "[c] \<in> set space_encodings" "\<And>x. x \<in> set space_encodings \<Longrightarrow> hd x = c \<Longrightarrow> x = [c]"
    "[c] \<in> set (map rev space_encodings)"
    "\<And>x. x \<in> set (map rev space_encodings) \<Longrightarrow> hd x = c \<Longrightarrow> x = [c]" if "ascii_space c" for c
    using that by (auto simp: ascii_space_def space_encodings_def ascii_spaces_def wide_spaces_def)
  show "trim_front space_encodings (u @ s) = trim_front space_encodings s"
    using assms by (induction u) (simp_all add: trim_front_Cons 1)
  have 2: "trim_front (map rev space_encodings) (c # t) = trim_front (map rev space_encodings) t"
    if "ascii_space c" for c t
    using 1(3,4) [OF that] by (intro trim_front_Cons)
  show "trim_front (map rev space_encodings) (u @ s) = trim_front (map rev space_encodings) s"
    using assms by (induction u) (simp_all add: 2)
qed

text \<open>White space around a plain text is cut off, and nothing else.\<close>

lemma TrimSpace_plain:
  assumes "plain s" "\<forall>c \<in> set u. ascii_space c" "\<forall>c \<in> set v. ascii_space c"
  shows "strings_TrimSpace (u @ s @ v) = s"
proof -
  have s: "s \<noteq> ''''" "visible (hd s)" "visible (last s)" using assms(1) by (auto simp: plain_def)
  have "trim_front space_encodings (s @ v) = s @ v"
    using s visible_not_space(1) by (intro trim_front_stops) auto
  then have f: "trim_front space_encodings (u @ s @ v) = s @ v" by (simp add: trim_front_spaces(1) assms(2))
  have "trim_front (map rev space_encodings) (rev v @ rev s) = rev s"
  proof -
    have "trim_front (map rev space_encodings) (rev s) = rev s"
      using s visible_not_space(2) by (intro trim_front_stops) (auto simp: hd_rev)
    then show ?thesis using assms(3) by (simp add: trim_front_spaces(2))
  qed
  then show ?thesis unfolding strings_TrimSpace_def f by simp
qed

text \<open>Trimming leaves no space behind, so a second one changes nothing.\<close>

lemma HasPrefix_append:
  assumes "strings_HasPrefix s x"
  shows "strings_HasPrefix (s @ t) x"
proof -
  have x: "take (length x) s = x" using assms by (simp add: strings_HasPrefix_def)
  then have "length x \<le> length s" by (metis length_take min.cobounded1)
  with x show ?thesis by (simp add: strings_HasPrefix_def)
qed

lemma trim_front_done: "find (\<lambda>x. x \<noteq> [] \<and> strings_HasPrefix (trim_front ws s) x) ws = None"
proof (induction ws s rule: trim_front.induct)
  case (1 ws s)
  then show ?case
    by (cases "find (\<lambda>x. x \<noteq> [] \<and> strings_HasPrefix s x) ws")
      (simp_all add: trim_front.simps [of ws s])
qed

lemma trim_front_suffix: "\<exists>u. s = u @ trim_front ws s"
proof (induction ws s rule: trim_front.induct)
  case (1 ws s)
  show ?case
  proof (cases "find (\<lambda>x. x \<noteq> [] \<and> strings_HasPrefix s x) ws")
    case None
    then show ?thesis by (subst trim_front.simps) simp
  next
    case (Some x)
    with 1 obtain u where "drop (length x) s = u @ trim_front ws (drop (length x) s)" by blast
    moreover have "trim_front ws s = trim_front ws (drop (length x) s)"
      using Some by (subst trim_front.simps) simp
    ultimately show ?thesis by (metis append_take_drop_id append.assoc)
  qed
qed

lemma TrimSpace_idem: "strings_TrimSpace (strings_TrimSpace s) = strings_TrimSpace s"
proof -
  define t where "t = trim_front space_encodings s"
  define r where "r = trim_front (map rev space_encodings) (rev t)"
  have r: "strings_TrimSpace s = rev r" by (simp add: strings_TrimSpace_def t_def r_def)
  obtain u where "rev t = u @ r" using trim_front_suffix unfolding r_def by blast
  then have u: "t = rev r @ rev u" by (metis rev_append rev_rev_ident)
  have "strings_HasPrefix t x" if "strings_HasPrefix (rev r) x" for x
    unfolding u using that by (rule HasPrefix_append)
  then have "find (\<lambda>x. x \<noteq> [] \<and> strings_HasPrefix (rev r) x) space_encodings = None"
    using trim_front_done [of space_encodings s] unfolding find_None_iff t_def [symmetric] by blast
  then have 1: "trim_front space_encodings (rev r) = rev r" by (subst trim_front.simps) simp
  have 2: "trim_front (map rev space_encodings) r = r"
    using trim_front_done [of "map rev space_encodings" "rev t"] unfolding r_def [symmetric]
    by (subst trim_front.simps) simp
  show ?thesis unfolding r by (simp add: strings_TrimSpace_def 1 2)
qed

lemma digit_visible: "digit_val c \<noteq> None \<Longrightarrow> visible c"
proof -
  assume "digit_val c \<noteq> None"
  then have "48 \<le> (of_char c :: int)" "(of_char c :: int) \<le> 57"
    by (auto simp: digit_val_def Let_def split: if_splits)
  moreover have "(of_char c :: int) = int (of_char c)" by (simp only: of_nat_of_char)
  ultimately have "48 \<le> (of_char c :: nat)" "(of_char c :: nat) \<le> 57" by linarith+
  then show ?thesis by (simp add: visible_def)
qed

lemma show_dec_plain:
  assumes "0 \<le> n"
  shows "plain (show_dec n)" "plain (show_dec n @ ''ns'')"
proof -
  have "visible (hd (show_dec n))" "visible (last (show_dec n))"
    using show_dec_digits [OF assms] show_dec_nonempty [of n] by (simp_all add: digit_visible)
  moreover have "visible CHR ''s''" by (simp add: visible_def)
  ultimately show "plain (show_dec n)" "plain (show_dec n @ ''ns'')"
    using show_dec_nonempty [of n] by (simp_all add: plain_def)
qed

lemma parse_sign_digits: "0 \<le> n \<Longrightarrow> parse_sign (show_dec n @ r) = (False, show_dec n @ r)"
proof -
  assume n: "0 \<le> n"
  obtain c s where s: "show_dec n = c # s" using show_dec_nonempty by (cases "show_dec n") auto
  then have "digit_val c \<noteq> None" using show_dec_digits [OF n] by simp
  then have "c \<noteq> CHR ''+''" "c \<noteq> CHR ''-''" by (auto simp: digit_val_def)
  with s show ?thesis by (simp add: parse_sign_def)
qed

lemma parse_int_show:
  assumes "0 \<le> n" "n < 2 ^ 63"
  shows "parse_int quote fn (show_dec n) = Inr n"
  using parse_sign_digits [OF assms(1), of "''''"] parse_uint_digits [OF parse_show_dec [OF assms(1)]] assms
    show_dec_nonempty [of n]
  by (simp add: parse_int_def)

lemma ParseDuration_show:
  assumes "0 \<le> n" "n < 2 ^ 63"
  shows "time_ParseDuration (show_dec n @ ''ns'') = Inr n"
proof -
  let ?s = "show_dec n @ ''ns''"
  have l: "leading_int 0 ?s = Some (n, ''ns'')"
    using leading_int_digits [OF parse_show_dec [OF assms(1)], of "''ns''"] assms by (simp add: digit_val_def)
  have h: "\<not> unit_char (hd ?s)"
    using show_dec_digits [OF assms(1)] show_dec_nonempty [of n] by (auto simp: unit_char_def)
  have ns: "unit_char CHR ''n''" "unit_char CHR ''s''" by (simp_all add: unit_char_def digit_val_def)
  have seg: "parse_segment ?s ?s = Inr (n, '''')"
    using h l ns assms show_dec_nonempty [of n]
    by (simp add: parse_segment_def parse_fraction_def unit_map_def)
  have "parse_segments ?s 0 ?s = Inr n"
    using assms seg by (subst parse_segments.simps) (simp add: parse_segments.simps [of _ _ "''''"])
  moreover have "?s \<noteq> ''0''" by (cases "show_dec n") auto
  ultimately show ?thesis
    using parse_sign_digits [OF assms(1), of "''ns''"] assms by (simp add: time_ParseDuration_def)
qed

text \<open>What is read is a 64-bit number.\<close>

lemma parse_uint_nonneg: "parse_uint n s = Inr m \<Longrightarrow> 0 \<le> n \<Longrightarrow> 0 \<le> m"
proof (induction n s rule: parse_uint.induct)
  case (2 n c s)
  then obtain d where d: "digit_val c = Some d" "parse_uint (n * 10 + d) s = Inr m"
    "\<not> n \<ge> 1844674407370955162" "\<not> n * 10 + d > 2 ^ 64 - 1"
    by (auto split: option.splits if_splits)
  with 2 digit_val_bounds [OF d(1)] show ?case by simp
qed simp

lemma parse_int_in64: "parse_int quote fn s = Inr n \<Longrightarrow> in64 n"
  by (auto simp: parse_int_def in64_def split: prod.splits if_splits sum.splits dest!: parse_uint_nonneg)

lemma ParseDuration_in64:
  assumes "time_ParseDuration s = Inr d"
  shows "in64 d"
proof -
  have p: "0 \<le> x \<Longrightarrow> parse_segments orig x t = Inr y \<Longrightarrow> 0 \<le> y" for orig x t y
  proof (induction orig x t rule: parse_segments.induct)
    case (1 orig x s)
    from 1(3) show ?case
      by (subst (asm) parse_segments.simps)
        (use 1(1,2) in \<open>auto simp: Let_def split: if_splits sum.splits prod.splits\<close>)
  qed
  from assms show ?thesis
    by (auto simp: time_ParseDuration_def split: prod.splits if_splits sum.splits dest!: p [rotated])
      (auto simp: in64_def)
qed

end
