(* ===== verification/Config.thy ===== *)
theory Config
  imports GoConf
begin

text \<open>
  The configuration read from the environment: cmd/server/config/config.go and
  internal/orders/reliability_config.go. Files, certificate pools and key pairs are
  functions of the environment record; certificates stay abstract.
\<close>

section \<open>The environment of the process\<close>

record ('p, 'c) os_env =
  os_Getenv :: "string \<Rightarrow> string"
  os_ReadFile :: "string \<Rightarrow> go_error + string"
  x509_AppendCertsFromPEM :: "string \<Rightarrow> 'p option"
  tls_LoadX509KeyPair :: "string \<Rightarrow> string \<Rightarrow> go_error + 'c"
  strconv_Quote :: "string \<Rightarrow> string"

definition raw_var :: "('p, 'c) os_env \<Rightarrow> string \<Rightarrow> string" where
  "raw_var os name = strings_TrimSpace (os_Getenv os name)"

text \<open>\<open>fmt.Errorf("%s: %w", name, err)\<close> and the two plain complaints.\<close>

definition named_err :: "string \<Rightarrow> go_error \<Rightarrow> go_error" where
  "named_err name err = ErrWrap (name @ '': '') err ''''"
definition err_required :: "string \<Rightarrow> go_error" where
  "err_required name = ErrText (name @ '' is required'')"
definition err_negative :: "string \<Rightarrow> go_error" where
  "err_negative name = ErrText (name @ '' must be >= 0'')"

section \<open>Reading one variable\<close>

definition optionalDuration :: "('p, 'c) os_env \<Rightarrow> string \<Rightarrow> go_error + duration option" where
  "optionalDuration os name =
     (let raw = raw_var os name
      in if raw = '''' then Inr None
         else case time_ParseDuration raw of
           Inl err \<Rightarrow> Inl (named_err name err)
         | Inr val \<Rightarrow> if val < 0 then Inl (err_negative name) else Inr (Some val))"

definition optionalInt :: "('p, 'c) os_env \<Rightarrow> string \<Rightarrow> go_error + int option" where
  "optionalInt os name =
     (let raw = raw_var os name
      in if raw = '''' then Inr None
         else case strconv_Atoi (strconv_Quote os) raw of
           Inl err \<Rightarrow> Inl (named_err name err)
         | Inr val \<Rightarrow> if val < 0 then Inl (err_negative name) else Inr (Some val))"

definition optionalBool :: "('p, 'c) os_env \<Rightarrow> string \<Rightarrow> go_error + bool" where
  "optionalBool os name =
     (let raw = raw_var os name
      in if raw = '''' then Inr False
         else case strconv_ParseBool (strconv_Quote os) raw of
           Inl err \<Rightarrow> Inl (named_err name err)
         | Inr val \<Rightarrow> Inr val)"

definition requiredString :: "('p, 'c) os_env \<Rightarrow> string \<Rightarrow> go_error + string" where
  "requiredString os name =
     (let raw = raw_var os name in if raw = '''' then Inl (err_required name) else Inr raw)"

definition requiredInt :: "('p, 'c) os_env \<Rightarrow> string \<Rightarrow> go_error + int" where
  "requiredInt os name =
     (let raw = raw_var os name
      in if raw = '''' then Inl (err_required name)
         else case strconv_Atoi (strconv_Quote os) raw of
           Inl err \<Rightarrow> Inl (named_err name err)
         | Inr val \<Rightarrow> if val < 0 then Inl (err_negative name) else Inr val)"

definition requiredDuration :: "('p, 'c) os_env \<Rightarrow> string \<Rightarrow> go_error + duration" where
  "requiredDuration os name =
     (let raw = raw_var os name
      in if raw = '''' then Inl (err_required name)
         else case time_ParseDuration raw of
           Inl err \<Rightarrow> Inl (named_err name err)
         | Inr val \<Rightarrow> if val < 0 then Inl (err_negative name) else Inr val)"

definition requiredInt64 :: "('p, 'c) os_env \<Rightarrow> string \<Rightarrow> go_error + int" where
  "requiredInt64 os name =
     (let raw = raw_var os name
      in if raw = '''' then Inl (err_required name)
         else case strconv_ParseInt (strconv_Quote os) raw of
           Inl err \<Rightarrow> Inl (named_err name err)
         | Inr val \<Rightarrow> if val < 0 then Inl (err_negative name) else Inr val)"

section \<open>TLS\<close>

record ('p, 'c) tls_Config =
  tls_MinVersion :: int
  tls_ServerName :: string
  tls_InsecureSkipVerify :: bool
  tls_RootCAs :: "'p option"
  tls_Certificates :: "'c list"

definition tls_VersionTLS12 :: int where "tls_VersionTLS12 = 0x0303"

text \<open>The three blocks that fill \<open>tlsConfig\<close>, each with its early return.\<close>

definition tls_insecure :: "('p, 'c) os_env \<Rightarrow> string \<Rightarrow> ('p, 'c) tls_Config \<Rightarrow> go_error + ('p, 'c) tls_Config" where
  "tls_insecure os insecureStr tlsConfig =
     (if insecureStr \<noteq> ''''
      then (case strconv_ParseBool (strconv_Quote os) insecureStr of
          Inl err \<Rightarrow> Inl (named_err ''REDIS_TLS_INSECURE_SKIP_VERIFY'' err)
        | Inr insecure \<Rightarrow> Inr (tlsConfig\<lparr>tls_InsecureSkipVerify := insecure\<rparr>))
      else Inr tlsConfig)"

definition tls_ca :: "('p, 'c) os_env \<Rightarrow> string \<Rightarrow> ('p, 'c) tls_Config \<Rightarrow> go_error + ('p, 'c) tls_Config" where
  "tls_ca os caFile tlsConfig =
     (if caFile \<noteq> ''''
      then (case os_ReadFile os caFile of
          Inl err \<Rightarrow> Inl (ErrWrap ''read REDIS_TLS_CA_FILE: '' err '''')
        | Inr pemData \<Rightarrow>
            (case x509_AppendCertsFromPEM os pemData of
               None \<Rightarrow> Inl (ErrText ''REDIS_TLS_CA_FILE contains no valid certificates'')
             | Some pool \<Rightarrow> Inr (tlsConfig\<lparr>tls_RootCAs := Some pool\<rparr>)))
      else Inr tlsConfig)"

definition tls_keypair ::
  "('p, 'c) os_env \<Rightarrow> string \<Rightarrow> string \<Rightarrow> ('p, 'c) tls_Config \<Rightarrow> go_error + ('p, 'c) tls_Config" where
  "tls_keypair os certFile keyFile tlsConfig =
     (if certFile \<noteq> ''''
      then (case tls_LoadX509KeyPair os certFile keyFile of
          Inl err \<Rightarrow> Inl (ErrWrap ''load redis TLS keypair: '' err '''')
        | Inr cert \<Rightarrow> Inr (tlsConfig\<lparr>tls_Certificates := [cert]\<rparr>))
      else Inr tlsConfig)"

definition loadRedisTLSFromEnv :: "('p, 'c) os_env \<Rightarrow> go_error + ('p, 'c) tls_Config option" where
  "loadRedisTLSFromEnv os =
     (let caFile = raw_var os ''REDIS_TLS_CA_FILE'';
          certFile = raw_var os ''REDIS_TLS_CERT_FILE'';
          keyFile = raw_var os ''REDIS_TLS_KEY_FILE'';
          serverName = raw_var os ''REDIS_TLS_SERVER_NAME'';
          insecureStr = raw_var os ''REDIS_TLS_INSECURE_SKIP_VERIFY''
      in if caFile = '''' \<and> certFile = '''' \<and> keyFile = '''' \<and> serverName = '''' \<and> insecureStr = ''''
         then Inr None
         else if (certFile = '''') \<noteq> (keyFile = '''')
         then Inl (ErrText ''REDIS_TLS_CERT_FILE and REDIS_TLS_KEY_FILE must be set together'')
         else
           let tlsConfig = \<lparr>tls_MinVersion = tls_VersionTLS12, tls_ServerName = serverName,
                 tls_InsecureSkipVerify = False, tls_RootCAs = None, tls_Certificates = []\<rparr>
           in case tls_insecure os insecureStr tlsConfig of
             Inl err \<Rightarrow> Inl err
           | Inr tlsConfig \<Rightarrow>
             case tls_ca os caFile tlsConfig of
               Inl err \<Rightarrow> Inl err
             | Inr tlsConfig \<Rightarrow>
               case tls_keypair os certFile keyFile tlsConfig of
                 Inl err \<Rightarrow> Inl err
               | Inr tlsConfig \<Rightarrow> Inr (Some tlsConfig))"

section \<open>The configurations\<close>

record ('p, 'c) RedisConfig =
  cfg_URL :: string
  cfg_Stream :: string
  cfg_DialTimeout :: "duration option"
  cfg_ReadTimeout :: "duration option"
  cfg_WriteTimeout :: "duration option"
  cfg_PoolSize :: "int option"
  cfg_MinIdleConns :: "int option"
  cfg_MaxRetries :: "int option"
  cfg_HealthcheckTimeout :: duration
  cfg_LocationTTL :: duration
  cfg_StreamMaxLen :: int
  cfg_EnableOTel :: bool
  cfg_TLSConfig :: "('p, 'c) tls_Config option"

text \<open>
  \<open>LoadRedis\<close> returns the fields read so far together with the first error. The steps
  before the URL, and the chain of assignments with early returns: one step per field.
\<close>

definition redis_zero :: "string \<Rightarrow> ('p, 'c) RedisConfig" where
  "redis_zero stream = \<lparr>cfg_URL = '''', cfg_Stream = stream, cfg_DialTimeout = None,
     cfg_ReadTimeout = None, cfg_WriteTimeout = None, cfg_PoolSize = None, cfg_MinIdleConns = None,
     cfg_MaxRetries = None, cfg_HealthcheckTimeout = 0, cfg_LocationTTL = 0, cfg_StreamMaxLen = 0,
     cfg_EnableOTel = False, cfg_TLSConfig = None\<rparr>"

text \<open>\<open>if cfg.Field, err = read(); err != nil { return cfg, err }\<close>.\<close>

definition assign :: "go_error + 'v \<Rightarrow> ('v \<Rightarrow> 'cfg \<Rightarrow> 'cfg) \<Rightarrow> ('cfg \<Rightarrow> 'cfg \<times> go_error option) \<Rightarrow>
    'cfg \<Rightarrow> 'cfg \<times> go_error option" where
  "assign read put rest cfg = (case read of Inl err \<Rightarrow> (cfg, Some err) | Inr v \<Rightarrow> rest (put v cfg))"

definition LoadRedis :: "('p, 'c) os_env \<Rightarrow> ('p, 'c) RedisConfig \<times> go_error option" where
  "LoadRedis os =
     (let cfg = redis_zero (raw_var os ''REDIS_STREAM'')
      in (assign (requiredString os ''REDIS_URL'') (\<lambda>v c. c\<lparr>cfg_URL := v\<rparr>)
         (assign (optionalDuration os ''REDIS_DIAL_TIMEOUT'') (\<lambda>v c. c\<lparr>cfg_DialTimeout := v\<rparr>)
         (assign (optionalDuration os ''REDIS_READ_TIMEOUT'') (\<lambda>v c. c\<lparr>cfg_ReadTimeout := v\<rparr>)
         (assign (optionalDuration os ''REDIS_WRITE_TIMEOUT'') (\<lambda>v c. c\<lparr>cfg_WriteTimeout := v\<rparr>)
         (assign (optionalInt os ''REDIS_POOL_SIZE'') (\<lambda>v c. c\<lparr>cfg_PoolSize := v\<rparr>)
         (assign (optionalInt os ''REDIS_MIN_IDLE_CONNS'') (\<lambda>v c. c\<lparr>cfg_MinIdleConns := v\<rparr>)
         (assign (optionalInt os ''REDIS_MAX_RETRIES'') (\<lambda>v c. c\<lparr>cfg_MaxRetries := v\<rparr>)
         (assign (requiredDuration os ''REDIS_HEALTHCHECK_TIMEOUT'') (\<lambda>v c. c\<lparr>cfg_HealthcheckTimeout := v\<rparr>)
         (assign (requiredDuration os ''REDIS_LOCATION_TTL'') (\<lambda>v c. c\<lparr>cfg_LocationTTL := v\<rparr>)
         (assign (requiredInt64 os ''REDIS_STREAM_MAXLEN'') (\<lambda>v c. c\<lparr>cfg_StreamMaxLen := v\<rparr>)
         (assign (optionalBool os ''REDIS_OTEL'') (\<lambda>v c. c\<lparr>cfg_EnableOTel := v\<rparr>)
         (assign (loadRedisTLSFromEnv os) (\<lambda>v c. c\<lparr>cfg_TLSConfig := v\<rparr>)
         (\<lambda>c. (c, None)))))))))))))) cfg)"

definition GetRedisURL :: "('p, 'c) os_env \<Rightarrow> go_error + string" where
  "GetRedisURL os = requiredString os ''REDIS_URL''"

record GRPCConfig =
  grpc_RateLimitInterval :: duration
  grpc_RateLimitBurst :: int

definition LoadGRPC :: "('p, 'c) os_env \<Rightarrow> go_error + GRPCConfig" where
  "LoadGRPC os =
     (case requiredDuration os ''GRPC_RATE_LIMIT_INTERVAL'' of
        Inl err \<Rightarrow> Inl err
      | Inr interval \<Rightarrow>
          (case requiredInt os ''GRPC_RATE_LIMIT_BURST'' of
             Inl err \<Rightarrow> Inl err
           | Inr burst \<Rightarrow> Inr \<lparr>grpc_RateLimitInterval = interval, grpc_RateLimitBurst = burst\<rparr>))"

record ObservabilityConfig =
  obs_Addr :: string

definition LoadObservability :: "('p, 'c) os_env \<Rightarrow> go_error + ObservabilityConfig" where
  "LoadObservability os =
     (case requiredString os ''OBS_ADDR'' of Inl err \<Rightarrow> Inl err | Inr addr \<Rightarrow> Inr \<lparr>obs_Addr = addr\<rparr>)"

section \<open>The reliability configuration\<close>

record ReliabilityConfig =
  RetryMaxAttempts :: int
  RetryBaseDelay :: duration
  RetryMaxDelay :: duration
  BreakerMaxFailures :: int
  BreakerResetTimeout :: duration
  RateLimitInterval :: duration
  RateLimitBurst :: int

definition parseRequiredDuration :: "('p, 'c) os_env \<Rightarrow> string \<Rightarrow> go_error + duration" where
  "parseRequiredDuration os name =
     (let raw = strings_TrimSpace (os_Getenv os name)
      in if raw = '''' then Inl (ErrText (name @ '' is required''))
         else case time_ParseDuration raw of
           Inl err \<Rightarrow> Inl (ErrWrap (name @ '': '') err '''')
         | Inr val \<Rightarrow> if val < 0 then Inl (ErrText (name @ '' must be >= 0'')) else Inr val)"

definition parseRequiredInt :: "('p, 'c) os_env \<Rightarrow> string \<Rightarrow> go_error + int" where
  "parseRequiredInt os name =
     (let raw = strings_TrimSpace (os_Getenv os name)
      in if raw = '''' then Inl (ErrText (name @ '' is required''))
         else case strconv_Atoi (strconv_Quote os) raw of
           Inl err \<Rightarrow> Inl (ErrWrap (name @ '': '') err '''')
         | Inr val \<Rightarrow> if val < 0 then Inl (ErrText (name @ '' must be >= 0'')) else Inr val)"

definition loadReliabilityConfigFromEnv :: "('p, 'c) os_env \<Rightarrow> ReliabilityConfig \<times> go_error option" where
  "loadReliabilityConfigFromEnv os =
     (let cfg = \<lparr>RetryMaxAttempts = 0, RetryBaseDelay = 0, RetryMaxDelay = 0, BreakerMaxFailures = 0,
            BreakerResetTimeout = 0, RateLimitInterval = 0, RateLimitBurst = 0\<rparr>
      in (assign (parseRequiredInt os ''ORDER_RETRY_MAX_ATTEMPTS'') (\<lambda>v c. c\<lparr>RetryMaxAttempts := v\<rparr>)
         (assign (parseRequiredDuration os ''ORDER_RETRY_BASE_DELAY'') (\<lambda>v c. c\<lparr>RetryBaseDelay := v\<rparr>)
         (assign (parseRequiredDuration os ''ORDER_RETRY_MAX_DELAY'') (\<lambda>v c. c\<lparr>RetryMaxDelay := v\<rparr>)
         (assign (parseRequiredInt os ''ORDER_BREAKER_MAX_FAILURES'') (\<lambda>v c. c\<lparr>BreakerMaxFailures := v\<rparr>)
         (assign (parseRequiredDuration os ''ORDER_BREAKER_RESET_TIMEOUT'') (\<lambda>v c. c\<lparr>BreakerResetTimeout := v\<rparr>)
         (assign (parseRequiredDuration os ''ORDER_RATE_LIMIT_INTERVAL'') (\<lambda>v c. c\<lparr>RateLimitInterval := v\<rparr>)
         (assign (parseRequiredInt os ''ORDER_RATE_LIMIT_BURST'') (\<lambda>v c. c\<lparr>RateLimitBurst := v\<rparr>)
         (\<lambda>c. (c, None))))))))) cfg)"


section \<open>Reading is exact\<close>

named_theorems reads \<open>when a variable is read, and as what\<close>

text \<open>The packages config and orders read their required variables in the same way.\<close>

lemma parseRequired_eq:
  "parseRequiredInt = requiredInt" "parseRequiredDuration = requiredDuration"
  by (auto simp: fun_eq_iff parseRequiredInt_def requiredInt_def parseRequiredDuration_def
      requiredDuration_def raw_var_def named_err_def err_required_def err_negative_def Let_def
      split: sum.splits)

lemma assign_Some [reads]: "assign read put rest cfg = (c, None) \<longleftrightarrow>
    (\<exists>v. read = Inr v \<and> rest (put v cfg) = (c, None))"
  by (cases read) (auto simp: assign_def)

lemma requiredInt_Inr [reads]: "requiredInt os name = Inr n \<longleftrightarrow>
    raw_var os name \<noteq> '''' \<and> strconv_Atoi (strconv_Quote os) (raw_var os name) = Inr n \<and> 0 \<le> n"
  by (auto simp: requiredInt_def Let_def split: sum.splits)

lemma requiredInt64_Inr [reads]: "requiredInt64 os name = Inr n \<longleftrightarrow>
    raw_var os name \<noteq> '''' \<and> strconv_ParseInt (strconv_Quote os) (raw_var os name) = Inr n \<and> 0 \<le> n"
  by (auto simp: requiredInt64_def Let_def split: sum.splits)

lemma requiredDuration_Inr [reads]: "requiredDuration os name = Inr d \<longleftrightarrow>
    raw_var os name \<noteq> '''' \<and> time_ParseDuration (raw_var os name) = Inr d \<and> 0 \<le> d"
  by (auto simp: requiredDuration_def Let_def split: sum.splits)

lemma requiredString_Inr [reads]: "requiredString os name = Inr s \<longleftrightarrow> raw_var os name \<noteq> '''' \<and> s = raw_var os name"
  by (auto simp: requiredString_def Let_def)

lemma optionalInt_Inr [reads]: "optionalInt os name = Inr x \<longleftrightarrow>
    (if raw_var os name = '''' then x = None
     else \<exists>n. x = Some n \<and> strconv_Atoi (strconv_Quote os) (raw_var os name) = Inr n \<and> 0 \<le> n)"
  by (auto simp: optionalInt_def Let_def split: sum.splits)

lemma optionalDuration_Inr [reads]: "optionalDuration os name = Inr x \<longleftrightarrow>
    (if raw_var os name = '''' then x = None
     else \<exists>d. x = Some d \<and> time_ParseDuration (raw_var os name) = Inr d \<and> 0 \<le> d)"
  by (auto simp: optionalDuration_def Let_def split: sum.splits)

lemma optionalBool_Inr [reads]: "optionalBool os name = Inr b \<longleftrightarrow>
    (if raw_var os name = '''' then \<not> b else strconv_ParseBool (strconv_Quote os) (raw_var os name) = Inr b)"
  by (auto simp: optionalBool_def Let_def split: sum.splits)

definition nonneg64 :: "int \<Rightarrow> bool" where
  "nonneg64 n \<longleftrightarrow> 0 \<le> n \<and> n < 2 ^ 63"

lemma read_range:
  "strconv_Atoi q s = Inr n \<Longrightarrow> 0 \<le> n \<Longrightarrow> nonneg64 n"
  "strconv_ParseInt q s = Inr n \<Longrightarrow> 0 \<le> n \<Longrightarrow> nonneg64 n"
  "time_ParseDuration s = Inr n \<Longrightarrow> 0 \<le> n \<Longrightarrow> nonneg64 n"
  using parse_int_in64 [of q "''Atoi''" s n] parse_int_in64 [of q "''ParseInt''" s n] ParseDuration_in64 [of s n]
  by (auto simp: strconv_Atoi_def strconv_ParseInt_def nonneg64_def in64_def)

text \<open>A variable that holds a text with white space around it.\<close>

definition padded :: "string \<Rightarrow> string \<Rightarrow> bool" where
  "padded s t \<longleftrightarrow> (\<exists>u v. t = u @ s @ v \<and> (\<forall>c \<in> set u. ascii_space c) \<and> (\<forall>c \<in> set v. ascii_space c))"

lemma raw_padded: "padded s (os_Getenv os name) \<Longrightarrow> plain s \<Longrightarrow> raw_var os name = s"
  by (auto simp: padded_def raw_var_def TrimSpace_plain)

lemma requiredInt_written:
  assumes "padded (show_dec n) (os_Getenv os name)" "nonneg64 n"
  shows "requiredInt os name = Inr n"
proof -
  have "raw_var os name = show_dec n"
    using assms by (intro raw_padded) (auto simp: nonneg64_def show_dec_plain)
  with assms(2) parse_int_show [of n] show_dec_nonempty [of n] show ?thesis
    by (simp add: reads nonneg64_def strconv_Atoi_def)
qed

lemma requiredDuration_written:
  assumes "padded (show_dec n @ ''ns'') (os_Getenv os name)" "nonneg64 n"
  shows "requiredDuration os name = Inr n"
proof -
  have "raw_var os name = show_dec n @ ''ns''"
    using assms by (intro raw_padded) (auto simp: nonneg64_def show_dec_plain)
  with assms(2) ParseDuration_show [of n] show ?thesis by (simp add: reads nonneg64_def)
qed

section \<open>What the loaders promise\<close>

text \<open>A reliability configuration written to the environment, numbers in decimal.\<close>

definition reliability_vars :: "ReliabilityConfig \<Rightarrow> (string \<times> string) list" where
  "reliability_vars cfg =
     [(''ORDER_RETRY_MAX_ATTEMPTS'', show_dec (RetryMaxAttempts cfg)),
      (''ORDER_RETRY_BASE_DELAY'', show_dec (RetryBaseDelay cfg) @ ''ns''),
      (''ORDER_RETRY_MAX_DELAY'', show_dec (RetryMaxDelay cfg) @ ''ns''),
      (''ORDER_BREAKER_MAX_FAILURES'', show_dec (BreakerMaxFailures cfg)),
      (''ORDER_BREAKER_RESET_TIMEOUT'', show_dec (BreakerResetTimeout cfg) @ ''ns''),
      (''ORDER_RATE_LIMIT_INTERVAL'', show_dec (RateLimitInterval cfg) @ ''ns''),
      (''ORDER_RATE_LIMIT_BURST'', show_dec (RateLimitBurst cfg))]"

definition reliability_typed :: "ReliabilityConfig \<Rightarrow> bool" where
  "reliability_typed cfg \<longleftrightarrow> nonneg64 (RetryMaxAttempts cfg) \<and> nonneg64 (RetryBaseDelay cfg) \<and>
     nonneg64 (RetryMaxDelay cfg) \<and> nonneg64 (BreakerMaxFailures cfg) \<and>
     nonneg64 (BreakerResetTimeout cfg) \<and> nonneg64 (RateLimitInterval cfg) \<and> nonneg64 (RateLimitBurst cfg)"

lemma reliability_config_loads:
  assumes "\<And>name s. (name, s) \<in> set (reliability_vars cfg) \<Longrightarrow> padded s (os_Getenv os name)"
    and "reliability_typed cfg"
  shows "loadReliabilityConfigFromEnv os = (cfg, None)"
proof -
  note w = assms(1) and t = assms(2)
  have i: "requiredInt os name = Inr n" if "(name, show_dec n) \<in> set (reliability_vars cfg)" "nonneg64 n" for name n
    using requiredInt_written w that by blast
  have d: "requiredDuration os name = Inr n" if "(name, show_dec n @ ''ns'') \<in> set (reliability_vars cfg)" "nonneg64 n" for name n
    using requiredDuration_written w that by blast
  have "requiredInt os ''ORDER_RETRY_MAX_ATTEMPTS'' = Inr (RetryMaxAttempts cfg)"
    "requiredInt os ''ORDER_BREAKER_MAX_FAILURES'' = Inr (BreakerMaxFailures cfg)"
    "requiredInt os ''ORDER_RATE_LIMIT_BURST'' = Inr (RateLimitBurst cfg)"
    using t by (intro i; simp add: reliability_vars_def reliability_typed_def)+
  moreover have "requiredDuration os ''ORDER_RETRY_BASE_DELAY'' = Inr (RetryBaseDelay cfg)"
    "requiredDuration os ''ORDER_RETRY_MAX_DELAY'' = Inr (RetryMaxDelay cfg)"
    "requiredDuration os ''ORDER_BREAKER_RESET_TIMEOUT'' = Inr (BreakerResetTimeout cfg)"
    "requiredDuration os ''ORDER_RATE_LIMIT_INTERVAL'' = Inr (RateLimitInterval cfg)"
    using t by (intro d; simp add: reliability_vars_def reliability_typed_def)+
  ultimately show "loadReliabilityConfigFromEnv os = (cfg, None)"
    by (simp add: loadReliabilityConfigFromEnv_def parseRequired_eq assign_def)
qed

text \<open>
  C23: Round trip: every reliability configuration whose fields are 64-bit and not negative
  is read back exactly from the environment it is written to, whatever ASCII white space
  surrounds the values; and only such configurations are loaded without an error, from any
  environment whatever.
\<close>

theorem reliability_config_roundtrip:
  fixes os :: "('p, 'c) os_env"
  assumes "\<And>name s. (name, s) \<in> set (reliability_vars cfg) \<Longrightarrow> padded s (os_Getenv os name)"
  shows "(reliability_typed cfg \<longrightarrow> loadReliabilityConfigFromEnv os = (cfg, None)) \<and>
    (\<forall>(os' :: ('p, 'c) os_env) cfg'. loadReliabilityConfigFromEnv os' = (cfg', None) \<longrightarrow> reliability_typed cfg')"
  using reliability_config_loads [OF assms]
  by (auto simp: loadReliabilityConfigFromEnv_def parseRequired_eq reads reliability_typed_def dest!: read_range)


text \<open>An environment given by its variables, with no files.\<close>

definition env_of :: "(string \<times> string) list \<Rightarrow> (unit, unit) os_env" where
  "env_of vars = \<lparr>os_Getenv = (\<lambda>name. case map_of vars name of None \<Rightarrow> '''' | Some s \<Rightarrow> s),
     os_ReadFile = (\<lambda>_. Inl (ErrExt ''fs.PathError'' ''no such file'')), x509_AppendCertsFromPEM = (\<lambda>_. None),
     tls_LoadX509KeyPair = (\<lambda>_ _. Inl (ErrExt ''fs.PathError'' ''no such file'')), strconv_Quote = id\<rparr>"

definition sample_reliability :: ReliabilityConfig where
  "sample_reliability = \<lparr>RetryMaxAttempts = 3, RetryBaseDelay = 100000000, RetryMaxDelay = 2000000000,
     BreakerMaxFailures = 5, BreakerResetTimeout = 30000000000, RateLimitInterval = 0, RateLimitBurst = 10\<rparr>"

theorem reliability_config_roundtrip_witness:
  "loadReliabilityConfigFromEnv (env_of (map (\<lambda>(n, s). (n, CHR 0x09 # s @ [CHR 0x0A])) (reliability_vars sample_reliability))) =
    (sample_reliability, None)"
proof -
  let ?vars = "map (\<lambda>(n, s). (n, CHR 0x09 # s @ [CHR 0x0A])) (reliability_vars sample_reliability)"
  have p: "padded s (CHR 0x09 # s @ [CHR 0x0A])" for s
    unfolding padded_def by (intro exI [of _ "[CHR 0x09]"] exI [of _ "[CHR 0x0A]"]) (simp add: ascii_space_def)
  have w: "padded s (os_Getenv (env_of ?vars) name)"
    if "(name, s) \<in> set (reliability_vars sample_reliability)" for name s
  proof -
    have "map_of (reliability_vars sample_reliability) name = Some s"
      using that by (rule map_of_is_SomeI [rotated]) (simp add: reliability_vars_def)
    then show ?thesis using p [of s] by (simp add: env_of_def map_of_map)
  qed
  have "reliability_typed sample_reliability"
    by (simp add: reliability_typed_def sample_reliability_def nonneg64_def)
  with reliability_config_roundtrip [OF w] show ?thesis by blast
qed

text \<open>The variables of the reliability configuration in the order they are read, and when one is valid.\<close>

definition valid_int :: "('p, 'c) os_env \<Rightarrow> string \<Rightarrow> bool" where
  "valid_int os name \<longleftrightarrow> raw_var os name \<noteq> '''' \<and>
     (case strconv_Atoi (strconv_Quote os) (raw_var os name) of Inl e \<Rightarrow> False | Inr n \<Rightarrow> 0 \<le> n)"

definition valid_duration :: "('p, 'c) os_env \<Rightarrow> string \<Rightarrow> bool" where
  "valid_duration os name \<longleftrightarrow> raw_var os name \<noteq> '''' \<and>
     (case time_ParseDuration (raw_var os name) of Inl e \<Rightarrow> False | Inr d \<Rightarrow> 0 \<le> d)"

definition reliability_checks :: "('p, 'c) os_env \<Rightarrow> (string \<times> bool) list" where
  "reliability_checks os =
     map (\<lambda>n. (n, valid_int os n)) [''ORDER_RETRY_MAX_ATTEMPTS''] @
     map (\<lambda>n. (n, valid_duration os n)) [''ORDER_RETRY_BASE_DELAY'', ''ORDER_RETRY_MAX_DELAY''] @
     map (\<lambda>n. (n, valid_int os n)) [''ORDER_BREAKER_MAX_FAILURES''] @
     map (\<lambda>n. (n, valid_duration os n)) [''ORDER_BREAKER_RESET_TIMEOUT'', ''ORDER_RATE_LIMIT_INTERVAL''] @
     map (\<lambda>n. (n, valid_int os n)) [''ORDER_RATE_LIMIT_BURST'']"

definition complains :: "string \<Rightarrow> go_error option \<Rightarrow> bool" where
  "complains name err \<longleftrightarrow> (\<exists>e t. err = Some e \<and> err_Error e = name @ t)"

lemma read_cases:
  "\<not> valid_int os name \<Longrightarrow> \<exists>e. requiredInt os name = Inl e \<and> complains name (Some e)"
  "valid_int os name \<Longrightarrow> \<exists>n. requiredInt os name = Inr n"
  "\<not> valid_duration os name \<Longrightarrow> \<exists>e. requiredDuration os name = Inl e \<and> complains name (Some e)"
  "valid_duration os name \<Longrightarrow> \<exists>n. requiredDuration os name = Inr n"
  by (auto simp: valid_int_def valid_duration_def requiredInt_def requiredDuration_def complains_def
      err_required_def err_negative_def named_err_def Let_def split: sum.splits)

fun reports :: "(string \<times> bool) list \<Rightarrow> go_error option \<Rightarrow> bool" where
  "reports [] err \<longleftrightarrow> err = None"
| "reports ((name, ok) # cs) err \<longleftrightarrow> (if ok then reports cs err else complains name err)"

lemma reports_find: "reports cs err \<longleftrightarrow>
    (case find (\<lambda>(name, ok). \<not> ok) cs of None \<Rightarrow> err = None | Some (name, ok) \<Rightarrow> complains name err)"
  by (induction cs err rule: reports.induct) auto

lemma assign_reports:
  "(\<And>c. reports cs (snd (rest c))) \<Longrightarrow>
    reports ((name, valid_int os name) # cs) (snd (assign (requiredInt os name) put rest c))"
  "(\<And>c. reports cs (snd (rest c))) \<Longrightarrow>
    reports ((name, valid_duration os name) # cs) (snd (assign (requiredDuration os name) put rest c))"
  using read_cases [of os name] by (auto simp: assign_def split: sum.splits)

text \<open>
  C26: The first bad variable is the one reported: loading the reliability configuration
  succeeds exactly when all seven variables hold a number or duration that is not negative,
  and otherwise the error begins with the name of the first of them, in reading order, that
  does not.
\<close>

theorem reliability_first_error:
  "case find (\<lambda>(name, ok). \<not> ok) (reliability_checks os) of
     None \<Rightarrow> snd (loadReliabilityConfigFromEnv os) = None
   | Some (name, ok) \<Rightarrow> complains name (snd (loadReliabilityConfigFromEnv os))"
proof -
  have "reports (reliability_checks os) (snd (loadReliabilityConfigFromEnv os))"
    unfolding reliability_checks_def loadReliabilityConfigFromEnv_def parseRequired_eq Let_def list.map append.simps
    by (intro assign_reports) simp
  then show ?thesis unfolding reports_find by (auto split: option.splits)
qed

section \<open>The Redis configuration\<close>

definition redis_typed :: "('p, 'c) RedisConfig \<Rightarrow> bool" where
  "redis_typed cfg \<longleftrightarrow>
     cfg_URL cfg \<noteq> '''' \<and> strings_TrimSpace (cfg_URL cfg) = cfg_URL cfg \<and>
     strings_TrimSpace (cfg_Stream cfg) = cfg_Stream cfg \<and>
     (\<forall>d \<in> set_option (cfg_DialTimeout cfg) \<union> set_option (cfg_ReadTimeout cfg) \<union>
        set_option (cfg_WriteTimeout cfg). nonneg64 d) \<and>
     (\<forall>n \<in> set_option (cfg_PoolSize cfg) \<union> set_option (cfg_MinIdleConns cfg) \<union>
        set_option (cfg_MaxRetries cfg). nonneg64 n) \<and>
     nonneg64 (cfg_HealthcheckTimeout cfg) \<and> nonneg64 (cfg_LocationTTL cfg) \<and>
     nonneg64 (cfg_StreamMaxLen cfg) \<and>
     (\<forall>t \<in> set_option (cfg_TLSConfig cfg). tls_MinVersion t = tls_VersionTLS12)"

lemma tls_steps [reads]:
  "tls_insecure os ins t = Inr t' \<longleftrightarrow>
    (if ins = '''' then t' = t
     else \<exists>b. strconv_ParseBool (strconv_Quote os) ins = Inr b \<and> t' = t\<lparr>tls_InsecureSkipVerify := b\<rparr>)"
  "tls_ca os ca t = Inr t' \<longleftrightarrow>
    (if ca = '''' then t' = t
     else \<exists>pem pool. os_ReadFile os ca = Inr pem \<and> x509_AppendCertsFromPEM os pem = Some pool \<and>
       t' = t\<lparr>tls_RootCAs := Some pool\<rparr>)"
  "tls_keypair os cert key t = Inr t' \<longleftrightarrow>
    (if cert = '''' then t' = t
     else \<exists>c. tls_LoadX509KeyPair os cert key = Inr c \<and> t' = t\<lparr>tls_Certificates := [c]\<rparr>)"
  by (auto simp: tls_insecure_def tls_ca_def tls_keypair_def split: sum.splits option.splits)

lemma case_sum_Inr: "(case x of Inl e \<Rightarrow> Inl e | Inr v \<Rightarrow> f v) = Inr y \<longleftrightarrow> (\<exists>v. x = Inr v \<and> f v = Inr y)"
  by (cases x) auto

lemma ParseBool_true: "strconv_ParseBool q s = Inr b \<Longrightarrow> b \<longleftrightarrow> s \<in> {''1'', ''t'', ''T'', ''TRUE'', ''true'', ''True''}"
  unfolding strconv_ParseBool_def by (metis Inl_Inr_False sum.inject(2))

text \<open>The environment variables of the TLS configuration.\<close>

definition tls_vars :: "string list" where
  "tls_vars = [''REDIS_TLS_CA_FILE'', ''REDIS_TLS_CERT_FILE'', ''REDIS_TLS_KEY_FILE'',
     ''REDIS_TLS_SERVER_NAME'', ''REDIS_TLS_INSECURE_SKIP_VERIFY'']"

definition tls_safe :: "('p, 'c) os_env \<Rightarrow> ('p, 'c) tls_Config \<Rightarrow> bool" where
  "tls_safe os t \<longleftrightarrow> tls_MinVersion t = tls_VersionTLS12 \<and>
     tls_ServerName t = raw_var os ''REDIS_TLS_SERVER_NAME'' \<and>
     (tls_InsecureSkipVerify t \<longleftrightarrow>
       raw_var os ''REDIS_TLS_INSECURE_SKIP_VERIFY'' \<in> {''1'', ''t'', ''T'', ''TRUE'', ''true'', ''True''}) \<and>
     (tls_RootCAs t = None \<longleftrightarrow> raw_var os ''REDIS_TLS_CA_FILE'' = '''') \<and>
     (tls_Certificates t = [] \<longleftrightarrow> raw_var os ''REDIS_TLS_CERT_FILE'' = '''') \<and>
     (tls_Certificates t = [] \<longleftrightarrow> raw_var os ''REDIS_TLS_KEY_FILE'' = '''') \<and>
     length (tls_Certificates t) \<le> 1"

lemma tls_chain:
  assumes "tls_insecure os ins \<lparr>tls_MinVersion = tls_VersionTLS12, tls_ServerName = name,
      tls_InsecureSkipVerify = False, tls_RootCAs = None, tls_Certificates = []\<rparr> = Inr t1"
    "tls_ca os ca t1 = Inr t2" "tls_keypair os cert key t2 = Inr t3"
  shows "tls_MinVersion t3 = tls_VersionTLS12 \<and> tls_ServerName t3 = name \<and>
    (tls_InsecureSkipVerify t3 \<longleftrightarrow> ins \<in> {''1'', ''t'', ''T'', ''TRUE'', ''true'', ''True''}) \<and>
    (tls_RootCAs t3 = None \<longleftrightarrow> ca = '''') \<and> (tls_Certificates t3 = [] \<longleftrightarrow> cert = '''') \<and>
    length (tls_Certificates t3) \<le> 1"
proof -
  define t0 :: "('a, 'b) tls_Config" where "t0 = \<lparr>tls_MinVersion = tls_VersionTLS12, tls_ServerName = name,
      tls_InsecureSkipVerify = False, tls_RootCAs = None, tls_Certificates = []\<rparr>"
  have 1: "tls_MinVersion t1 = tls_MinVersion t0 \<and> tls_ServerName t1 = tls_ServerName t0 \<and>
      tls_RootCAs t1 = tls_RootCAs t0 \<and> tls_Certificates t1 = tls_Certificates t0"
    using assms(1) unfolding t0_def [symmetric] tls_steps by (auto split: if_splits)
  have i: "tls_InsecureSkipVerify t1 \<longleftrightarrow> ins \<in> {''1'', ''t'', ''T'', ''TRUE'', ''true'', ''True''}"
  proof (cases "ins = ''''")
    case True
    with assms(1) show ?thesis unfolding tls_steps by simp
  next
    case False
    with assms(1) obtain b where "strconv_ParseBool (strconv_Quote os) ins = Inr b" "tls_InsecureSkipVerify t1 = b"
      unfolding tls_steps by auto
    with ParseBool_true show ?thesis by metis
  qed
  have 2: "tls_MinVersion t2 = tls_MinVersion t1 \<and> tls_ServerName t2 = tls_ServerName t1 \<and>
      tls_InsecureSkipVerify t2 = tls_InsecureSkipVerify t1 \<and> tls_Certificates t2 = tls_Certificates t1 \<and>
      (ca \<noteq> '''' \<longrightarrow> tls_RootCAs t2 \<noteq> None) \<and> (ca = '''' \<longrightarrow> tls_RootCAs t2 = tls_RootCAs t1)"
    using assms(2) unfolding tls_steps by (auto split: if_splits)
  have 3: "tls_MinVersion t3 = tls_MinVersion t2 \<and> tls_ServerName t3 = tls_ServerName t2 \<and>
      tls_InsecureSkipVerify t3 = tls_InsecureSkipVerify t2 \<and> tls_RootCAs t3 = tls_RootCAs t2 \<and>
      (cert \<noteq> '''' \<longrightarrow> length (tls_Certificates t3) = 1) \<and> (cert = '''' \<longrightarrow> tls_Certificates t3 = tls_Certificates t2)"
    using assms(3) unfolding tls_steps by (auto split: if_splits)
  show ?thesis using 1 i 2 3 unfolding t0_def by (cases "cert = ''''") auto
qed

lemma tls_loaded:
  assumes "loadRedisTLSFromEnv os = Inr c"
  shows "(c = None \<longleftrightarrow> (\<forall>name \<in> set tls_vars. raw_var os name = '''')) \<and> (\<forall>t. c = Some t \<longrightarrow> tls_safe os t)"
proof -
  let ?v = "raw_var os"
  show ?thesis
  proof (cases "\<forall>name \<in> set tls_vars. ?v name = ''''")
    case True
    with assms show ?thesis by (simp add: loadRedisTLSFromEnv_def tls_vars_def)
  next
    case False
    then have nb: "\<not> (?v ''REDIS_TLS_CA_FILE'' = '''' \<and> ?v ''REDIS_TLS_CERT_FILE'' = '''' \<and>
        ?v ''REDIS_TLS_KEY_FILE'' = '''' \<and> ?v ''REDIS_TLS_SERVER_NAME'' = '''' \<and>
        ?v ''REDIS_TLS_INSECURE_SKIP_VERIFY'' = '''')"
      by (auto simp: tls_vars_def)
    have ck: "?v ''REDIS_TLS_CERT_FILE'' = '''' \<longleftrightarrow> ?v ''REDIS_TLS_KEY_FILE'' = ''''"
      using assms nb unfolding loadRedisTLSFromEnv_def Let_def by (metis Inl_Inr_False)
    obtain t1 t2 t3 where ch: "tls_insecure os (?v ''REDIS_TLS_INSECURE_SKIP_VERIFY'')
        \<lparr>tls_MinVersion = tls_VersionTLS12, tls_ServerName = ?v ''REDIS_TLS_SERVER_NAME'',
          tls_InsecureSkipVerify = False, tls_RootCAs = None, tls_Certificates = []\<rparr> = Inr t1"
      "tls_ca os (?v ''REDIS_TLS_CA_FILE'') t1 = Inr t2"
      "tls_keypair os (?v ''REDIS_TLS_CERT_FILE'') (?v ''REDIS_TLS_KEY_FILE'') t2 = Inr t3" "c = Some t3"
      using assms nb ck unfolding loadRedisTLSFromEnv_def Let_def
      by (simp only: if_False simp_thms case_sum_Inr) (auto simp: case_sum_Inr)
    from tls_chain [OF ch(1-3)] ck False ch(4) show ?thesis unfolding tls_safe_def by auto
  qed
qed

text \<open>
  C24: TLS to Redis is never weakened by accident. No TLS settings are produced exactly when
  all five variables are blank; otherwise the minimum version is 1.2, verification is
  skipped only when the variable says so in one of the accepted spellings of true, a CA
  file always yields a non-empty pool, and a client certificate is used exactly when both
  its file and its key file are given.
\<close>

theorem redis_tls_safe:
  assumes "loadRedisTLSFromEnv os = Inr c"
  shows "(c = None \<longleftrightarrow> (\<forall>name \<in> set tls_vars. raw_var os name = '''')) \<and> (\<forall>t. c = Some t \<longrightarrow> tls_safe os t)"
  using assms by (rule tls_loaded)

definition tls_env :: "(unit, unit) os_env" where
  "tls_env = (env_of [(''REDIS_TLS_CA_FILE'', ''ca.pem''), (''REDIS_TLS_INSECURE_SKIP_VERIFY'', ''false'')])
     \<lparr>os_ReadFile := \<lambda>_. Inr ''PEM'', x509_AppendCertsFromPEM := \<lambda>_. Some ()\<rparr>"

lemma raw_plain: "plain (os_Getenv os name) \<Longrightarrow> raw_var os name = os_Getenv os name"
  using TrimSpace_plain [of "os_Getenv os name" "''''" "''''"] by (simp add: raw_var_def)

lemma raw_blank: "os_Getenv os name = '''' \<Longrightarrow> raw_var os name = ''''"
proof -
  assume "os_Getenv os name = ''''"
  moreover have "trim_front ws '''' = ''''" for ws
    by (subst trim_front.simps) (auto simp: strings_HasPrefix_def find_Some_iff split: option.splits)
  ultimately show ?thesis by (simp add: raw_var_def strings_TrimSpace_def)
qed

theorem redis_tls_safe_witness:
  "\<exists>t. loadRedisTLSFromEnv tls_env = Inr (Some t) \<and> tls_safe tls_env t \<and> \<not> tls_InsecureSkipVerify t"
proof -
  have r: "raw_var tls_env ''REDIS_TLS_CA_FILE'' = ''ca.pem''"
    "raw_var tls_env ''REDIS_TLS_INSECURE_SKIP_VERIFY'' = ''false''"
    by (subst raw_plain; simp add: tls_env_def env_of_def plain_def visible_def)+
  have b: "raw_var tls_env ''REDIS_TLS_CERT_FILE'' = ''''" "raw_var tls_env ''REDIS_TLS_KEY_FILE'' = ''''"
    "raw_var tls_env ''REDIS_TLS_SERVER_NAME'' = ''''"
    by (rule raw_blank; simp add: tls_env_def env_of_def)+
  let ?t = "\<lparr>tls_MinVersion = tls_VersionTLS12, tls_ServerName = '''', tls_InsecureSkipVerify = False,
      tls_RootCAs = Some (), tls_Certificates = []\<rparr>"
  have f: "os_ReadFile tls_env = (\<lambda>_. Inr ''PEM'')" "x509_AppendCertsFromPEM tls_env = (\<lambda>_. Some ())"
    by (simp_all add: tls_env_def)
  have e: "loadRedisTLSFromEnv tls_env = Inr (Some ?t)"
    by (simp add: loadRedisTLSFromEnv_def r b f tls_insecure_def tls_ca_def tls_keypair_def strconv_ParseBool_def)
  from redis_tls_safe [OF e] have "tls_safe tls_env ?t" by blast
  with e show ?thesis by (intro exI [of _ ?t]) simp
qed

text \<open>A chain of assignments stops with an error where it stands, or goes on.\<close>

lemma assign_run:
  assumes "P c" "\<And>e c. P c \<Longrightarrow> Q (c, Some e)"
    and "\<And>v c. read = Inr v \<Longrightarrow> P c \<Longrightarrow> P' (put v c)" "\<And>c. P' c \<Longrightarrow> Q (rest c)"
  shows "Q (assign read put rest c)"
  using assms by (cases read) (simp_all add: assign_def)

text \<open>The configuration as far as it is filled: its numbers and texts, on every path.\<close>

definition redis_partial :: "('p, 'c) os_env \<Rightarrow> ('p, 'c) RedisConfig \<Rightarrow> bool" where
  "redis_partial os cfg \<longleftrightarrow>
     cfg_URL cfg \<in> {'''', raw_var os ''REDIS_URL''} \<and> cfg_Stream cfg = raw_var os ''REDIS_STREAM'' \<and>
     (\<forall>d \<in> set_option (cfg_DialTimeout cfg) \<union> set_option (cfg_ReadTimeout cfg) \<union>
        set_option (cfg_WriteTimeout cfg). nonneg64 d) \<and>
     (\<forall>n \<in> set_option (cfg_PoolSize cfg) \<union> set_option (cfg_MinIdleConns cfg) \<union>
        set_option (cfg_MaxRetries cfg). nonneg64 n) \<and>
     nonneg64 (cfg_HealthcheckTimeout cfg) \<and> nonneg64 (cfg_LocationTTL cfg) \<and> nonneg64 (cfg_StreamMaxLen cfg)"

lemma optional_range:
  "optionalDuration os name = Inr x \<Longrightarrow> (x = None \<longleftrightarrow> raw_var os name = '''') \<and> (\<forall>d \<in> set_option x. nonneg64 d)"
  "optionalInt os name = Inr x' \<Longrightarrow> (x' = None \<longleftrightarrow> raw_var os name = '''') \<and> (\<forall>d \<in> set_option x'. nonneg64 d)"
  by (auto simp: optionalDuration_Inr optionalInt_Inr dest: read_range split: if_splits)

lemma required_range:
  "requiredDuration os name = Inr x \<Longrightarrow> nonneg64 x" "requiredInt64 os name = Inr x \<Longrightarrow> nonneg64 x"
  "requiredString os name = Inr s \<Longrightarrow> raw_var os name \<noteq> '''' \<and> s = raw_var os name"
  by (auto simp: requiredDuration_Inr requiredInt64_Inr requiredString_Inr dest: read_range)

lemma LoadRedis_partial:
  "case LoadRedis os of (cfg, err) \<Rightarrow> redis_partial os cfg \<and> (err \<noteq> None \<longrightarrow> cfg_TLSConfig cfg = None)"
proof -
  let ?P = "\<lambda>cfg. redis_partial os cfg \<and> cfg_TLSConfig cfg = None"
  let ?Q = "\<lambda>r. case r of (cfg, err) \<Rightarrow> redis_partial os cfg \<and> (err \<noteq> None \<longrightarrow> cfg_TLSConfig cfg = None)"
  note run = assign_run [where P = ?P and P' = ?P and Q = ?Q]
  note last = assign_run [where P = ?P and P' = "redis_partial os" and Q = ?Q]
  have z: "?P (redis_zero (raw_var os ''REDIS_STREAM''))"
    by (simp add: redis_partial_def redis_zero_def nonneg64_def)
  note range = optional_range required_range
  have p: "requiredString os ''REDIS_URL'' = Inr u \<Longrightarrow> ?P c \<Longrightarrow> ?P (c\<lparr>cfg_URL := u\<rparr>)"
    "optionalDuration os n1 = Inr x1 \<Longrightarrow> ?P c \<Longrightarrow> ?P (c\<lparr>cfg_DialTimeout := x1\<rparr>)"
    "optionalDuration os n1 = Inr x1 \<Longrightarrow> ?P c \<Longrightarrow> ?P (c\<lparr>cfg_ReadTimeout := x1\<rparr>)"
    "optionalDuration os n1 = Inr x1 \<Longrightarrow> ?P c \<Longrightarrow> ?P (c\<lparr>cfg_WriteTimeout := x1\<rparr>)"
    "optionalInt os n1 = Inr x2 \<Longrightarrow> ?P c \<Longrightarrow> ?P (c\<lparr>cfg_PoolSize := x2\<rparr>)"
    "optionalInt os n1 = Inr x2 \<Longrightarrow> ?P c \<Longrightarrow> ?P (c\<lparr>cfg_MinIdleConns := x2\<rparr>)"
    "optionalInt os n1 = Inr x2 \<Longrightarrow> ?P c \<Longrightarrow> ?P (c\<lparr>cfg_MaxRetries := x2\<rparr>)"
    "requiredDuration os n1 = Inr x3 \<Longrightarrow> ?P c \<Longrightarrow> ?P (c\<lparr>cfg_HealthcheckTimeout := x3\<rparr>)"
    "requiredDuration os n1 = Inr x3 \<Longrightarrow> ?P c \<Longrightarrow> ?P (c\<lparr>cfg_LocationTTL := x3\<rparr>)"
    "requiredInt64 os n1 = Inr x4 \<Longrightarrow> ?P c \<Longrightarrow> ?P (c\<lparr>cfg_StreamMaxLen := x4\<rparr>)"
    "optionalBool os n1 = Inr x5 \<Longrightarrow> ?P c \<Longrightarrow> ?P (c\<lparr>cfg_EnableOTel := x5\<rparr>)"
    for c :: "('a, 'b) RedisConfig" and u n1 x1 x2 x3 x4 x5
    by (auto simp: redis_partial_def ball_Un dest: range)
  show ?thesis
    unfolding LoadRedis_def Let_def
    by (rule run [OF z], simp, erule (1) p, (rule run, assumption, simp, erule (1) p)+, rule last, assumption)
      (simp_all add: redis_partial_def)
qed

lemma LoadRedis_loaded:
  assumes "LoadRedis os = (cfg, None)"
  shows "redis_typed cfg \<and> cfg_URL cfg = raw_var os ''REDIS_URL'' \<and>
    (cfg_DialTimeout cfg = None \<longleftrightarrow> raw_var os ''REDIS_DIAL_TIMEOUT'' = '''') \<and>
    (cfg_ReadTimeout cfg = None \<longleftrightarrow> raw_var os ''REDIS_READ_TIMEOUT'' = '''') \<and>
    (cfg_WriteTimeout cfg = None \<longleftrightarrow> raw_var os ''REDIS_WRITE_TIMEOUT'' = '''') \<and>
    (cfg_PoolSize cfg = None \<longleftrightarrow> raw_var os ''REDIS_POOL_SIZE'' = '''') \<and>
    (cfg_MinIdleConns cfg = None \<longleftrightarrow> raw_var os ''REDIS_MIN_IDLE_CONNS'' = '''') \<and>
    (cfg_MaxRetries cfg = None \<longleftrightarrow> raw_var os ''REDIS_MAX_RETRIES'' = '''')"
proof -
  have i: "strings_TrimSpace (raw_var os name) = raw_var os name" for name
    by (simp add: raw_var_def TrimSpace_idem)
  have t: "t \<in> set_option c \<Longrightarrow> loadRedisTLSFromEnv os = Inr c \<Longrightarrow> tls_MinVersion t = tls_VersionTLS12" for c t
    using tls_loaded [of os c] by (auto simp: tls_safe_def)
  note d = optional_range(1) and n = optional_range(2) and u = required_range
  from assms obtain a b c e f g h k l m p q where
    rd: "requiredString os ''REDIS_URL'' = Inr a" "optionalDuration os ''REDIS_DIAL_TIMEOUT'' = Inr b"
    "optionalDuration os ''REDIS_READ_TIMEOUT'' = Inr c" "optionalDuration os ''REDIS_WRITE_TIMEOUT'' = Inr e"
    "optionalInt os ''REDIS_POOL_SIZE'' = Inr f" "optionalInt os ''REDIS_MIN_IDLE_CONNS'' = Inr g"
    "optionalInt os ''REDIS_MAX_RETRIES'' = Inr h" "requiredDuration os ''REDIS_HEALTHCHECK_TIMEOUT'' = Inr k"
    "requiredDuration os ''REDIS_LOCATION_TTL'' = Inr l" "requiredInt64 os ''REDIS_STREAM_MAXLEN'' = Inr m"
    "optionalBool os ''REDIS_OTEL'' = Inr p" "loadRedisTLSFromEnv os = Inr q"
    and "cfg = \<lparr>cfg_URL = a, cfg_Stream = raw_var os ''REDIS_STREAM'', cfg_DialTimeout = b,
     cfg_ReadTimeout = c, cfg_WriteTimeout = e, cfg_PoolSize = f, cfg_MinIdleConns = g,
     cfg_MaxRetries = h, cfg_HealthcheckTimeout = k, cfg_LocationTTL = l, cfg_StreamMaxLen = m,
     cfg_EnableOTel = p, cfg_TLSConfig = q\<rparr>"
    unfolding LoadRedis_def Let_def assign_Some redis_zero_def by auto
  then show ?thesis
    using u(3) [OF rd(1)] d [OF rd(2)] d [OF rd(3)] d [OF rd(4)] n [OF rd(5)] n [OF rd(6)] n [OF rd(7)]
      u(1) [OF rd(8)] u(1) [OF rd(9)] u(2) [OF rd(10)] t [OF _ rd(12)] i
    unfolding redis_typed_def by (simp add: ball_Un)
qed

text \<open>
  C25: Whatever \<open>LoadRedis\<close> returns is well formed. Also behind an error, every timeout, size and
  limit of the configuration is a 64-bit number that is not negative, the stream is the
  variable without the white space around it, the URL is that of the variable or not set yet,
  and there are no TLS settings. Without an error, the URL is there, the optional numbers are
  unset exactly when their variables are blank, and TLS settings have minimum version 1.2.
\<close>

theorem LoadRedis_well_typed:
  assumes "LoadRedis os = (cfg, err)"
  shows "redis_partial os cfg \<and> (if err \<noteq> None then cfg_TLSConfig cfg = None else redis_typed cfg \<and> cfg_URL cfg = raw_var os ''REDIS_URL'' \<and>
    (cfg_DialTimeout cfg = None \<longleftrightarrow> raw_var os ''REDIS_DIAL_TIMEOUT'' = '''') \<and>
    (cfg_ReadTimeout cfg = None \<longleftrightarrow> raw_var os ''REDIS_READ_TIMEOUT'' = '''') \<and>
    (cfg_WriteTimeout cfg = None \<longleftrightarrow> raw_var os ''REDIS_WRITE_TIMEOUT'' = '''') \<and>
    (cfg_PoolSize cfg = None \<longleftrightarrow> raw_var os ''REDIS_POOL_SIZE'' = '''') \<and>
    (cfg_MinIdleConns cfg = None \<longleftrightarrow> raw_var os ''REDIS_MIN_IDLE_CONNS'' = '''') \<and>
    (cfg_MaxRetries cfg = None \<longleftrightarrow> raw_var os ''REDIS_MAX_RETRIES'' = ''''))"
  using LoadRedis_partial [of os] LoadRedis_loaded [of os cfg] assms by auto

definition redis_vars :: "(string \<times> string) list" where
  "redis_vars = [(''REDIS_URL'', ''redis://r:6379''), (''REDIS_HEALTHCHECK_TIMEOUT'', ''2s''),
     (''REDIS_LOCATION_TTL'', ''5m''), (''REDIS_STREAM_MAXLEN'', ''1000''), (''REDIS_POOL_SIZE'', '' 8'')]"

theorem LoadRedis_well_typed_witness:
  "\<exists>cfg. LoadRedis (env_of redis_vars) = (cfg, None) \<and> redis_typed cfg \<and> cfg_PoolSize cfg = Some 8 \<and>
    cfg_LocationTTL cfg = 300000000000 \<and> cfg_DialTimeout cfg = None"
proof -
  let ?cfg = "(redis_zero '''' :: (unit, unit) RedisConfig)\<lparr>cfg_URL := ''redis://r:6379'', cfg_HealthcheckTimeout := 2000000000,
    cfg_LocationTTL := 300000000000, cfg_StreamMaxLen := 1000, cfg_PoolSize := Some 8\<rparr>"
  have e: "LoadRedis (env_of redis_vars) = (?cfg, None)" by code_simp
  have "redis_typed ?cfg" using LoadRedis_well_typed [OF e] by (simp only: simp_thms if_False)
  with e show ?thesis by (intro exI [of _ ?cfg] conjI) (simp_all add: redis_zero_def)
qed

end
