(* ===== verification/Builder.thy ===== *)
theory Builder
  imports OrderSvc Config
begin

text \<open>
  How the order service is put together: the constructors of internal/db/orders that create
  their tables, and \<open>BuildOrderService\<close> of internal/orders/builder.go.
\<close>

section \<open>Constructors with schema\<close>

definition NewPostgresPaymentClientWithSchema ::
  "'w ctx \<Rightarrow> ('w, db) ref \<Rightarrow> ('w, go_error + 'w PaymentClient) act" where
  "NewPostgresPaymentClientWithSchema ctx p w = do {
     let client = NewPostgresPaymentClient p;
     (err, w) \<leftarrow> Payment_InitSchema p ctx w;
     case err of Some err \<Rightarrow> Some (Inl err, w) | None \<Rightarrow> Some (Inr client, w)
   }"

definition NewSagaStoreWithSchema ::
  "'w ctx \<Rightarrow> ('w, db) ref \<Rightarrow> ('w, go_error + 'w SagaStoreI) act" where
  "NewSagaStoreWithSchema ctx p w = do {
     let store = NewSagaStore p;
     (err, w) \<leftarrow> SagaStore_InitSchema p ctx w;
     case err of Some err \<Rightarrow> Some (Inl err, w) | None \<Rightarrow> Some (Inr store, w)
   }"

definition NewPostgresDriverClientWithSchema ::
  "'w ctx \<Rightarrow> ('w, db) ref \<Rightarrow> ('w, go_error + 'w DriverClient) act" where
  "NewPostgresDriverClientWithSchema ctx p w = do {
     let client = NewPostgresDriverClient p;
     (err, w) \<leftarrow> Driver_InitSchema p ctx w;
     case err of Some err \<Rightarrow> Some (Inl err, w) | None \<Rightarrow> Some (Inr client, w)
   }"

section \<open>BuildOrderService\<close>

text \<open>The places the constructors allocate their structs at.\<close>

record 'w order_cells =
  oc_paymentLimiter :: "('w, limiter) ref"
  oc_driverLimiter :: "('w, limiter) ref"
  oc_paymentBreaker :: "('w, breaker) ref"
  oc_driverBreaker :: "('w, breaker) ref"

text \<open>The clients, limiters and breakers the configuration asks for, around the Postgres clients.\<close>

definition reliability_policy :: "ReliabilityConfig \<Rightarrow> 'w RetryPolicy" where
  "reliability_policy cfg = \<lparr>MaxAttempts = RetryMaxAttempts cfg, BaseDelay = RetryBaseDelay cfg,
     MaxDelay = RetryMaxDelay cfg, Jitter = None, Sleep = None, ShouldRetry = None\<rparr>"

definition reliable_service ::
  "'w runtime \<Rightarrow> 'w order_cells \<Rightarrow> ('w, go_error + string) prim \<Rightarrow> ReliabilityConfig \<Rightarrow>
   'w PaymentClient \<Rightarrow> 'w DriverClient \<Rightarrow> 'w SagaStoreI \<Rightarrow> ('w, 'w OrderService) prim" where
  "reliable_service rt cells newV7 cfg payments drivers sagas w =
     (let retryPolicy = reliability_policy cfg;
          (paymentLimiter, w) = NewRateLimiter rt (oc_paymentLimiter cells) (RateLimitInterval cfg) (RateLimitBurst cfg) w;
          (driverLimiter, w) = NewRateLimiter rt (oc_driverLimiter cells) (RateLimitInterval cfg) (RateLimitBurst cfg) w;
          (paymentBreaker, w) = NewCircuitBreaker rt (oc_paymentBreaker cells)
            \<lparr>MaxFailures = BreakerMaxFailures cfg, ResetTimeout = BreakerResetTimeout cfg, Now = None\<rparr> w;
          (driverBreaker, w) = NewCircuitBreaker rt (oc_driverBreaker cells)
            \<lparr>MaxFailures = BreakerMaxFailures cfg, ResetTimeout = BreakerResetTimeout cfg, Now = None\<rparr> w;
          reliablePayments = NewReliablePaymentClient payments (Some paymentLimiter) (Some paymentBreaker) retryPolicy;
          reliableDrivers = NewReliableDriverClient drivers (Some driverLimiter) (Some driverBreaker) retryPolicy
      in (NewOrderService newV7 (reliable_payments rt reliablePayments) (reliable_drivers rt reliableDrivers) sagas
            (Some (newOrderID newV7)) (Some (newDriverID newV7)), w))"

definition BuildOrderService ::
  "'w runtime \<Rightarrow> ('w, tables) sql_driver \<Rightarrow> ('p, 'c) os_env \<Rightarrow> 'w order_cells \<Rightarrow> ('w, go_error + string) prim \<Rightarrow>
   (string \<Rightarrow> 'w \<Rightarrow> 'w) \<Rightarrow> 'w ctx \<Rightarrow> string \<Rightarrow> (string \<Rightarrow> 'w \<Rightarrow> 'w) option \<Rightarrow>
   ('w, go_error + 'w OrderService \<times> ('w \<Rightarrow> 'w)) act" where
  "BuildOrderService rt sql os cells newV7 log_Printf ctx dsn logf w =
     (let logf = (case logf of None \<Rightarrow> log_Printf | Some f \<Rightarrow> f)
      in if dsn = '''' then Some (Inl (ErrText ''DATABASE_URL is required''), w)
         else case sql_Open sql ''pgx'' dsn w of
           (Inl err, w) \<Rightarrow> Some (Inl (ErrWrap ''postgres open failed: '' err ''''), w)
         | (Inr sqlDB, w) \<Rightarrow> do {
             let (setupCtx, w) = context_WithTimeout rt ctx (5 * 1000000000) w;
             (payments, w) \<leftarrow> NewPostgresPaymentClientWithSchema setupCtx sqlDB w;
             case payments of
               Inl err \<Rightarrow> Some (Inl (ErrWrap ''postgres init failed: '' err ''''), snd (sql_Close sql sqlDB w))
             | Inr payments \<Rightarrow> do {
                 (sagas, w) \<leftarrow> NewSagaStoreWithSchema setupCtx sqlDB w;
                 case sagas of
                   Inl err \<Rightarrow> Some (Inl (ErrWrap ''saga store init failed: '' err ''''), snd (sql_Close sql sqlDB w))
                 | Inr sagas \<Rightarrow> do {
                     (drivers, w) \<leftarrow> NewPostgresDriverClientWithSchema setupCtx sqlDB w;
                     case drivers of
                       Inl err \<Rightarrow> Some (Inl (ErrWrap ''driver store init failed: '' err ''''), snd (sql_Close sql sqlDB w))
                     | Inr drivers \<Rightarrow>
                         (case loadReliabilityConfigFromEnv os of
                            (_, Some err) \<Rightarrow> Some (Inl (ErrWrap ''reliability config: '' err ''''), snd (sql_Close sql sqlDB w))
                          | (reliabilityCfg, None) \<Rightarrow>
                              (let (service, w) = reliable_service rt cells newV7 reliabilityCfg payments drivers sagas w;
                                   cleanup = (\<lambda>w. case sql_Close sql sqlDB w of
                                     (Some err, w) \<Rightarrow> logf (''close postgres: '' @ err_Error err) w
                                   | (None, w) \<Rightarrow> w)
                               in Some (Inr (service, cleanup), w)))
                   }
               }
           })"

section \<open>Schemas\<close>

text \<open>A statement that reports success created its table or found it there.\<close>

lemma create_table_ok: "fst (create_table T refs now t) = Inr n \<Longrightarrow>
    set (tb_created (snd (create_table T refs now t))) = insert T (set (tb_created t))"
  by (auto simp: create_table_def split: if_splits)

text \<open>Everything but the list of created tables.\<close>

definition contents :: "tables \<Rightarrow> tables" where
  "contents t = t\<lparr>tb_created := []\<rparr>"

lemma create_table_contents: "contents (snd (create_table T refs now t)) = contents t"
  by (simp add: contents_def create_table_def)

context sql_orders begin

lemma create_step:
  assumes "ExecContext p ctx (create_table T refs) v = (r, v')"
  shows "contents (tabs v') = contents (tabs v) \<and> set (tb_created (tabs v)) \<subseteq> set (tb_created (tabs v')) \<and>
    (\<forall>x. r = Inr x \<longrightarrow> set (tb_created (tabs v')) = insert T (set (tb_created (tabs v))))"
proof -
  have s: "set (tb_created t) \<subseteq> set (tb_created (snd (create_table T refs now t)))" for now t
    by (simp add: create_table_def) blast
  from exec_effect [OF assms] show ?thesis
  proof (elim disjE exE conjE)
    fix e assume "r = Inl e" "tabs v' = tabs v" then show ?thesis by simp
  next
    fix now assume t: "tabs v' = snd (create_table T refs now (tabs v))"
      and r: "\<forall>n e. r = Inr (n, e) \<longrightarrow> fst (create_table T refs now (tabs v)) = Inr n"
    from r create_table_ok [of T refs now "tabs v"]
    have "\<forall>x. r = Inr x \<longrightarrow> set (tb_created (tabs v')) = insert T (set (tb_created (tabs v)))"
      by (auto simp: t)
    with s [of "tabs v" now] show ?thesis by (simp add: t create_table_contents)
  qed
qed

text \<open>The three constructors: tables appear, rows stay.\<close>

lemma schema_effect:
  "Payment_InitSchema p ctx v = Some (e, v') \<Longrightarrow> contents (tabs v') = contents (tabs v) \<and>
    set (tb_created (tabs v)) \<subseteq> set (tb_created (tabs v')) \<and>
    (e = None \<longrightarrow> T_payments \<in> set (tb_created (tabs v')))"
  "SagaStore_InitSchema p ctx v = Some (e, v') \<Longrightarrow> contents (tabs v') = contents (tabs v) \<and>
    set (tb_created (tabs v)) \<subseteq> set (tb_created (tabs v')) \<and>
    (e = None \<longrightarrow> {T_order_sagas, T_order_saga_steps} \<subseteq> set (tb_created (tabs v')))"
  "Driver_InitSchema p ctx v = Some (e, v') \<Longrightarrow> contents (tabs v') = contents (tabs v) \<and>
    set (tb_created (tabs v)) \<subseteq> set (tb_created (tabs v')) \<and>
    (e = None \<longrightarrow> T_order_assignments \<in> set (tb_created (tabs v')))"
  by (auto simp: Payment_InitSchema_def Driver_InitSchema_def dest!: create_step
      split: prod.split_asm sum.split_asm)
    (auto simp: SagaStore_InitSchema_def dest!: create_step split: prod.split_asm sum.split_asm)

end

section \<open>The plant\<close>

text \<open>
  The machinery the service is built from: the pool, the limiters and breakers at places of
  their own, a clock and a context that write none of them, and the pools that are open.
\<close>

locale order_plant = sql_pool p sql conns
  for p :: "('w, db) ref" and rt :: "'w runtime" and cells :: "'w order_cells" and ctx :: "'w ctx"
    and sql :: "('w, tables) sql_driver" and conns :: "'w \<Rightarrow> int" +
  assumes limiter_cells: "cell (oc_paymentLimiter cells)" "cell (oc_driverLimiter cells)"
    and breaker_cells: "cell (oc_paymentBreaker cells)" "cell (oc_driverBreaker cells)"
    and db_apart: "separate p (oc_paymentLimiter cells)" "separate p (oc_driverLimiter cells)"
      "separate p (oc_paymentBreaker cells)" "separate p (oc_driverBreaker cells)"
    and limiters_apart: "separate (oc_paymentLimiter cells) (oc_driverLimiter cells)"
    and breakers_apart: "separate (oc_paymentBreaker cells) (oc_driverBreaker cells)"
    and mixed_apart: "separate (oc_paymentLimiter cells) (oc_paymentBreaker cells)"
      "separate (oc_paymentLimiter cells) (oc_driverBreaker cells)"
      "separate (oc_driverLimiter cells) (oc_paymentBreaker cells)"
      "separate (oc_driverLimiter cells) (oc_driverBreaker cells)"
    and db_still: "still p (time_Now rt)" "still p ctx"
    and limiter_still: "still (oc_paymentLimiter cells) (time_Now rt)" "still (oc_paymentLimiter cells) ctx"
      "still (oc_driverLimiter cells) (time_Now rt)" "still (oc_driverLimiter cells) ctx"
    and breaker_still: "still (oc_paymentBreaker cells) (time_Now rt)" "still (oc_paymentBreaker cells) ctx"
      "still (oc_driverBreaker cells) (time_Now rt)" "still (oc_driverBreaker cells) ctx"
    and conns_still: "conns (snd (time_Now rt v)) = conns v" "conns (snd (ctx v)) = conns v"
    and conns_cells: "conns (wr (oc_paymentLimiter cells) l v) = conns v"
      "conns (wr (oc_driverLimiter cells) l v) = conns v" "conns (wr (oc_paymentBreaker cells) b v) = conns v"
      "conns (wr (oc_driverBreaker cells) b v) = conns v"
begin

lemma ctx_client: "sql_orders p ctx"
  using db_still(2) by unfold_locales (simp add: still_def)

text \<open>The context of the set-up is as quiet as the caller's.\<close>

lemma setup_still:
  assumes "context_WithTimeout rt ctx d v = (sctx, v')"
  shows "rd p v' = rd p v" "conns v' = conns v" "rd p (snd (sctx x)) = rd p x" "conns (snd (sctx x)) = conns x"
  using context_WithTimeout_keeps [where F = "rd p", OF assms] db_still
    context_WithTimeout_keeps [where F = conns, OF assms] conns_still
  by (simp_all add: still_def)

lemma setup_client: "context_WithTimeout rt ctx d v = (sctx, v') \<Longrightarrow> sql_orders p sctx"
  using setup_still(3) by unfold_locales blast

lemma setup_conns: "context_WithTimeout rt ctx d v = (sctx, v') \<Longrightarrow> untouched p sctx (\<lambda>x. conns x = n)"
  using conns_untouched setup_still(4) by blast

lemma schema_conns:
  assumes "untouched p sctx C" "C v"
  shows "NewPostgresPaymentClientWithSchema sctx p v = Some (r1, v') \<Longrightarrow> C v'"
    "NewSagaStoreWithSchema sctx p v = Some (r2, v') \<Longrightarrow> C v'"
    "NewPostgresDriverClientWithSchema sctx p v = Some (r3, v') \<Longrightarrow> C v'"
proof -
  note step = exec_untouched [OF _ assms(1)]
  obtain r v1 where e: "ExecContext p sctx (create_table T_order_sagas []) v = (r, v1)" by fastforce
  obtain r' v2 where f: "ExecContext p sctx (create_table T_order_saga_steps [T_order_sagas]) v1 = (r', v2)" by fastforce
  have "v' = v1 \<or> v' = v2" if "NewSagaStoreWithSchema sctx p v = Some (r2, v')"
    using that by (cases r; cases r') (auto simp: NewSagaStoreWithSchema_def SagaStore_InitSchema_def e f)
  then show "NewSagaStoreWithSchema sctx p v = Some (r2, v') \<Longrightarrow> C v'"
    using step [OF e assms(2)] step [OF f step [OF e assms(2)]] by fastforce
  obtain rp vp where pe: "ExecContext p sctx (create_table T_payments []) v = (rp, vp)" by fastforce
  have "v' = vp" if "NewPostgresPaymentClientWithSchema sctx p v = Some (r1, v')"
    using that by (cases rp) (auto simp: NewPostgresPaymentClientWithSchema_def Payment_InitSchema_def pe)
  then show "NewPostgresPaymentClientWithSchema sctx p v = Some (r1, v') \<Longrightarrow> C v'"
    using step [OF pe assms(2)] by simp
  obtain rd vd where de: "ExecContext p sctx (create_table T_order_assignments [T_order_sagas]) v = (rd, vd)" by fastforce
  have "v' = vd" if "NewPostgresDriverClientWithSchema sctx p v = Some (r3, v')"
    using that by (cases rd) (auto simp: NewPostgresDriverClientWithSchema_def Driver_InitSchema_def de)
  then show "NewPostgresDriverClientWithSchema sctx p v = Some (r3, v') \<Longrightarrow> C v'"
    using step [OF de assms(2)] by simp
qed

end

text \<open>What \<open>reliable_service\<close> wires, apart from what it writes.\<close>

definition service_limiter :: "'w runtime \<Rightarrow> ReliabilityConfig \<Rightarrow> ('w, limiter) ref \<Rightarrow> 'w RateLimiter" where
  "service_limiter rt cfg L = \<lparr>rl_rate = RateLimitInterval cfg, rl_burst = RateLimitBurst cfg,
     rl_now = time_Now rt, rl_sleep = sleepWithContext rt, rl_onWait = None, rl_ptr = L\<rparr>"

definition service_breaker :: "'w runtime \<Rightarrow> ReliabilityConfig \<Rightarrow> ('w, breaker) ref \<Rightarrow> 'w CircuitBreaker" where
  "service_breaker rt cfg B = \<lparr>cb_maxFails = (if BreakerMaxFailures cfg < 1 then 1 else BreakerMaxFailures cfg),
     cb_resetAfter = (if BreakerResetTimeout cfg \<le> 0 then 2 * 1000000000 else BreakerResetTimeout cfg),
     cb_now = time_Now rt, cb_ptr = B\<rparr>"

definition wired_service ::
  "'w runtime \<Rightarrow> 'w order_cells \<Rightarrow> ('w, go_error + string) prim \<Rightarrow> ReliabilityConfig \<Rightarrow> ('w, db) ref \<Rightarrow>
   'w OrderService" where
  "wired_service rt cells newV7 cfg p =
     \<lparr>os_payments = reliable_payments rt \<lparr>rp_base = NewPostgresPaymentClient p,
        rp_limiter = Some (service_limiter rt cfg (oc_paymentLimiter cells)),
        rp_breaker = Some (service_breaker rt cfg (oc_paymentBreaker cells)), rp_retry = reliability_policy cfg\<rparr>,
      os_drivers = reliable_drivers rt \<lparr>rd_base = NewPostgresDriverClient p,
        rd_limiter = Some (service_limiter rt cfg (oc_driverLimiter cells)),
        rd_breaker = Some (service_breaker rt cfg (oc_driverBreaker cells)), rd_retry = reliability_policy cfg\<rparr>,
      os_sagas = NewSagaStore p, os_idGen = newOrderID newV7, os_driverSel = newDriverID newV7\<rparr>"

text \<open>Machinery as new: full buckets, closed breakers.\<close>

definition machinery_new :: "'w order_cells \<Rightarrow> ReliabilityConfig \<Rightarrow> 'w \<Rightarrow> bool" where
  "machinery_new cells cfg v \<longleftrightarrow>
     rl_tokens (rd (oc_paymentLimiter cells) v) = RateLimitBurst cfg \<and>
     rl_tokens (rd (oc_driverLimiter cells) v) = RateLimitBurst cfg \<and>
     rd (oc_paymentBreaker cells) v = new_breaker \<and> rd (oc_driverBreaker cells) v = new_breaker"

context order_plant begin

lemma service_built:
  assumes "reliable_service rt cells newV7 cfg (NewPostgresPaymentClient p) (NewPostgresDriverClient p) (NewSagaStore p) v = (s, v')"
  shows "s = wired_service rt cells newV7 cfg p" "rd p v' = rd p v" "conns v' = conns v" "machinery_new cells cfg v'"
proof -
  let ?LP = "oc_paymentLimiter cells" and ?LD = "oc_driverLimiter cells"
  let ?BP = "oc_paymentBreaker cells" and ?BD = "oc_driverBreaker cells"
  obtain t1 v1 where t1: "time_Now rt v = (t1, v1)" by fastforce
  define v2 where "v2 = wr ?LP \<lparr>rl_tokens = RateLimitBurst cfg, rl_last = t1\<rparr> v1"
  obtain t2 v3 where t2: "time_Now rt v2 = (t2, v3)" by fastforce
  define v4 where "v4 = wr ?LD \<lparr>rl_tokens = RateLimitBurst cfg, rl_last = t2\<rparr> v3"
  define v5 where "v5 = wr ?BP new_breaker v4"
  define v6 where "v6 = wr ?BD new_breaker v5"
  have sv: "s = wired_service rt cells newV7 cfg p \<and> v' = v6"
    using assms t1 t2
    by (auto simp: reliable_service_def NewRateLimiter_def NewRateLimiterWithHook_def NewCircuitBreaker_def Let_def
        wired_service_def NewOrderService_def NewReliablePaymentClient_def NewReliableDriverClient_def
        service_limiter_def service_breaker_def v2_def v4_def v5_def v6_def split: prod.split_asm)
  note ap = separateD [OF db_apart(1)] separateD [OF db_apart(2)] separateD [OF db_apart(3)] separateD [OF db_apart(4)]
    separateD [OF limiters_apart] separateD [OF breakers_apart] separateD [OF mixed_apart(1)]
    separateD [OF mixed_apart(2)] separateD [OF mixed_apart(3)] separateD [OF mixed_apart(4)]
  show "s = wired_service rt cells newV7 cfg p" using sv by blast
  show "rd p v' = rd p v"
    using sv stillD [OF db_still(1) t1] stillD [OF db_still(1) t2]
    by (simp add: v2_def v4_def v5_def v6_def ap)
  show "conns v' = conns v"
    using sv conns_still(1) [of v] conns_still(1) [of v2] t1 t2
    by (simp add: v2_def v4_def v5_def v6_def conns_cells)
  show "machinery_new cells cfg v'"
    using sv stillD [OF limiter_still(1) t2] limiter_cells breaker_cells
    by (simp add: machinery_new_def v2_def v4_def v5_def v6_def ap cell.rd_wr)
qed

text \<open>What comes out of the builder.\<close>

lemma build_effect:
  assumes "BuildOrderService rt sql os cells newV7 lg ctx dsn logf v = Some (res, v')"
  shows "case res of
      Inl e \<Rightarrow> conns v' = conns v
    | Inr (s, cleanup) \<Rightarrow> conns v' = conns v + 1 \<and>
        ((\<forall>m x. conns ((case logf of None \<Rightarrow> lg | Some f \<Rightarrow> f) m x) = conns x) \<longrightarrow>
          (\<forall>x. conns (cleanup x) = conns x - 1)) \<and>
        contents (db_tables (rd p v')) = contents (db_tables (rd p v)) \<and> all_created (db_tables (rd p v')) \<and>
        (\<exists>cfg. loadReliabilityConfigFromEnv os = (cfg, None) \<and> s = wired_service rt cells newV7 cfg p \<and>
          machinery_new cells cfg v')"
proof (cases "dsn = ''''")
  case True
  with assms(1) show ?thesis by (auto simp: BuildOrderService_def)
next
  case dsn: False
  obtain q v1 where op: "sql_Open sql ''pgx'' dsn v = (q, v1)" by fastforce
  show ?thesis
  proof (cases q)
    case (Inl e)
    with assms(1) dsn op open_failed [OF op [unfolded Inl]] show ?thesis by (auto simp: BuildOrderService_def)
  next
    case (Inr q')
    note o1 = open_ok [OF op [unfolded Inr]]
    obtain sctx v2 where sc: "context_WithTimeout rt ctx (5 * 1000000000) v1 = (sctx, v2)" by fastforce
    have c2: "conns v2 = conns v + 1" and r2: "rd p v2 = rd p v" using setup_still(1,2) [OF sc] o1 by simp_all
    note un = setup_conns [OF sc, of "conns v + 1"] and cl = setup_client [OF sc]
    note cs = schema_conns [OF un] and ef = sql_orders.schema_effect [OF cl]
    from assms(1) dsn op Inr sc o1 obtain pr v3 where 3: "NewPostgresPaymentClientWithSchema sctx p v2 = Some (pr, v3)"
      by (auto simp: BuildOrderService_def bind_Some_iff Let_def)
    have c3: "conns v3 = conns v + 1" using cs(1) [OF c2 3] .
    show ?thesis
    proof (cases pr)
      case (Inl e)
      with assms(1) dsn op Inr sc o1 3 c3 show ?thesis by (auto simp: BuildOrderService_def Let_def close)
    next
      case pay: (Inr pay)
      then have p3: "pay = NewPostgresPaymentClient p" and i3: "Payment_InitSchema p sctx v2 = Some (None, v3)"
        using 3 by (auto simp: NewPostgresPaymentClientWithSchema_def bind_pair_Some_iff split: option.split_asm)
      from assms(1) dsn op Inr sc o1 3 pay obtain sr v4 where 4: "NewSagaStoreWithSchema sctx p v3 = Some (sr, v4)"
        by (auto simp: BuildOrderService_def bind_Some_iff Let_def)
      have c4: "conns v4 = conns v + 1" using cs(2) [OF c3 4] .
      show ?thesis
      proof (cases sr)
        case (Inl e)
        with assms(1) dsn op Inr sc o1 3 pay 4 c4 show ?thesis by (auto simp: BuildOrderService_def Let_def close)
      next
        case saga: (Inr sagas)
        then have p4: "sagas = NewSagaStore p" and i4: "SagaStore_InitSchema p sctx v3 = Some (None, v4)"
          using 4 by (auto simp: NewSagaStoreWithSchema_def bind_pair_Some_iff split: option.split_asm)
        from assms(1) dsn op Inr sc o1 3 pay 4 saga obtain dr v5
          where 5: "NewPostgresDriverClientWithSchema sctx p v4 = Some (dr, v5)"
          by (auto simp: BuildOrderService_def bind_Some_iff Let_def)
        have c5: "conns v5 = conns v + 1" using cs(3) [OF c4 5] .
        show ?thesis
        proof (cases dr)
          case (Inl e)
          with assms(1) dsn op Inr sc o1 3 pay 4 saga 5 c5 show ?thesis
            by (auto simp: BuildOrderService_def Let_def close)
        next
          case drv: (Inr drivers)
          then have p5: "drivers = NewPostgresDriverClient p" and i5: "Driver_InitSchema p sctx v4 = Some (None, v5)"
            using 5 by (auto simp: NewPostgresDriverClientWithSchema_def bind_pair_Some_iff split: option.split_asm)
          obtain cfg ce where cf: "loadReliabilityConfigFromEnv os = (cfg, ce)" by fastforce
          show ?thesis
          proof (cases ce)
            case (Some e)
            with assms(1) dsn op Inr sc o1 3 pay 4 saga 5 drv cf c5 show ?thesis
              by (auto simp: BuildOrderService_def Let_def close)
          next
            case None
            obtain s v6 where rs: "reliable_service rt cells newV7 cfg pay drivers sagas v5 = (s, v6)" by fastforce
            note sb = service_built [OF rs [unfolded p3 p4 p5]]
            from assms(1) dsn op Inr sc o1 3 pay 4 saga 5 drv cf None rs
            have v': "v' = v6" and res: "res = Inr (s, \<lambda>w. case sql_Close sql p w of
                (Some err, w) \<Rightarrow> (case logf of None \<Rightarrow> lg | Some f \<Rightarrow> f) (''close postgres: '' @ err_Error err) w
              | (None, w) \<Rightarrow> w)"
              by (auto simp: BuildOrderService_def Let_def)
            let ?log = "case logf of None \<Rightarrow> lg | Some f \<Rightarrow> f"
            have "conns (case sql_Close sql p x of (Some err, w) \<Rightarrow> ?log (''close postgres: '' @ err_Error err) w
              | (None, w) \<Rightarrow> w) = conns x - 1" if "\<forall>m x. conns (?log m x) = conns x" for x
              using close(1) [of x] that by (auto split: prod.split option.split)
            moreover have "contents (db_tables (rd p v')) = contents (db_tables (rd p v))" "all_created (db_tables (rd p v'))"
              using ef(1) [OF i3] ef(2) [OF i4] ef(3) [OF i5] sb(2) r2
              by (auto simp: v' all_created_def)
            ultimately show ?thesis using sb(1,3,4) c5 cf None by (simp add: res v')
          qed
        qed
      qed
    qed
  qed
qed

end

section \<open>A site\<close>

text \<open>
  A process with one database behind it: the pool, the limiters and the breakers each in a
  field of their own, a clock that ticks, identifiers that are counted, and the number of
  pools that are open.
\<close>

record site =
  site_db :: db
  site_payLimiter :: limiter
  site_drvLimiter :: limiter
  site_payBreaker :: breaker
  site_drvBreaker :: breaker
  site_pools :: int
  site_clock :: instant
  site_ids :: int

definition site_ptr :: "(site, db) ref" where
  "site_ptr = \<lparr>rd = site_db, wr = (\<lambda>a w. w\<lparr>site_db := a\<rparr>)\<rparr>"

definition site_cells :: "site order_cells" where
  "site_cells =
     \<lparr>oc_paymentLimiter = \<lparr>rd = site_payLimiter, wr = (\<lambda>a w. w\<lparr>site_payLimiter := a\<rparr>)\<rparr>,
      oc_driverLimiter = \<lparr>rd = site_drvLimiter, wr = (\<lambda>a w. w\<lparr>site_drvLimiter := a\<rparr>)\<rparr>,
      oc_paymentBreaker = \<lparr>rd = site_payBreaker, wr = (\<lambda>a w. w\<lparr>site_payBreaker := a\<rparr>)\<rparr>,
      oc_driverBreaker = \<lparr>rd = site_drvBreaker, wr = (\<lambda>a w. w\<lparr>site_drvBreaker := a\<rparr>)\<rparr>\<rparr>"

definition site_rt :: "site runtime" where
  "site_rt = \<lparr>time_Now = (\<lambda>w. (site_clock w, w\<lparr>site_clock := site_clock w + 1\<rparr>)),
     select_timer = (\<lambda>ctx d w. (True, w\<lparr>site_clock := site_clock w + d\<rparr>)), rand_Int63n = (\<lambda>n w. (0, w))\<rparr>"

definition site_sql :: "(site, tables) sql_driver" where
  "site_sql = \<lparr>sql_Open = (\<lambda>d dsn w. if d = ''pgx'' then (Inr site_ptr, w\<lparr>site_pools := site_pools w + 1\<rparr>)
       else (Inl (ErrExt ''sql'' ''unknown driver''), w)),
     sql_Close = (\<lambda>q w. (None, w\<lparr>site_pools := site_pools w - 1\<rparr>))\<rparr>"

definition site_newV7 :: "(site, go_error + string) prim" where
  "site_newV7 w = (Inr (CHR ''o'' # show_dec (site_ids w)), w\<lparr>site_ids := site_ids w + 1\<rparr>)"

lemmas site_defs = site_ptr_def site_cells_def site_rt_def site_sql_def site_newV7_def

interpretation site: order_plant site_ptr site_rt site_cells context_Background site_sql site_pools
  by unfold_locales
    (auto simp: site_defs separate_def apart_def still_def context_Background_def split: if_splits)

definition site_start :: "(nat \<Rightarrow> fault) \<Rightarrow> site" where
  "site_start f = \<lparr>site_db = db_with empty_tables f, site_payLimiter = \<lparr>rl_tokens = 0, rl_last = 0\<rparr>,
     site_drvLimiter = \<lparr>rl_tokens = 0, rl_last = 0\<rparr>, site_payBreaker = new_breaker,
     site_drvBreaker = new_breaker, site_pools = 0, site_clock = 0, site_ids = 1\<rparr>"

definition site_env :: "(unit, unit) os_env" where
  "site_env = env_of (map (\<lambda>(n, s). (n, s)) (reliability_vars sample_reliability))"

definition site_build :: "site \<Rightarrow> ((go_error + site OrderService \<times> (site \<Rightarrow> site)) \<times> site) option" where
  "site_build = BuildOrderService site_rt site_sql site_env site_cells site_newV7 (\<lambda>_ w. w) context_Background
     ''postgres://orders'' None"

text \<open>
  C16: \<open>BuildOrderService\<close> never leaks a pool: whatever fails (the pool, one of the tables, the
  configuration), no connection stays open; and when it succeeds one pool is open which the
  returned cleanup closes, all tables exist and none has lost or gained a row, and the service
  is the order service over the reliable clients with the limits, breakers and retries of the
  environment, full buckets and closed breakers.
\<close>

theorem BuildOrderService_owns_its_pool:
  assumes "order_plant p rt cells ctx sql conns"
    and "BuildOrderService rt sql os cells newV7 log_Printf ctx dsn logf v = Some (res, v')"
  shows "case res of
      Inl e \<Rightarrow> conns v' = conns v
    | Inr (s, cleanup) \<Rightarrow> conns v' = conns v + 1 \<and>
        ((\<forall>m x. conns ((case logf of None \<Rightarrow> log_Printf | Some f \<Rightarrow> f) m x) = conns x) \<longrightarrow>
          (\<forall>x. conns (cleanup x) = conns x - 1)) \<and>
        contents (db_tables (rd p v')) = contents (db_tables (rd p v)) \<and> all_created (db_tables (rd p v')) \<and>
        (\<exists>cfg. loadReliabilityConfigFromEnv os = (cfg, None) \<and> s = wired_service rt cells newV7 cfg p \<and>
          machinery_new cells cfg v')"
  by (rule order_plant.build_effect [OF assms])

lemma site_env_loads: "loadReliabilityConfigFromEnv site_env = (sample_reliability, None)"
proof -
  have w: "padded s (os_Getenv site_env name)" if "(name, s) \<in> set (reliability_vars sample_reliability)" for name s
  proof -
    have "map_of (reliability_vars sample_reliability) name = Some s"
      using that by (rule map_of_is_SomeI [rotated]) (simp add: reliability_vars_def)
    then show ?thesis
      unfolding padded_def by (intro exI [of _ "[]"]) (simp add: site_env_def env_of_def)
  qed
  have "reliability_typed sample_reliability"
    by (simp add: reliability_typed_def sample_reliability_def nonneg64_def)
  with reliability_config_loads [OF w] show ?thesis by blast
qed

lemma site_built: "\<exists>s cleanup v'. site_build (site_start (\<lambda>_. Fine)) = Some (Inr (s, cleanup), v') \<and>
    healthy site_ptr v' \<and> site_ids v' = 1"
  by (simp add: site_build_def BuildOrderService_def site_env_loads NewPostgresPaymentClientWithSchema_def
      NewSagaStoreWithSchema_def NewPostgresDriverClientWithSchema_def Payment_InitSchema_def
      SagaStore_InitSchema_def Driver_InitSchema_def context_WithTimeout_def site_start_def site_defs
      db_eval create_table_def reliable_service_def NewRateLimiter_def NewRateLimiterWithHook_def
      NewCircuitBreaker_def healthy_def fated_def)

theorem BuildOrderService_owns_its_pool_witness:
  "\<exists>s cleanup v'. site_build (site_start (\<lambda>_. Fine)) = Some (Inr (s, cleanup), v') \<and>
    site_pools v' = 1 \<and> site_pools (cleanup v') = 0"
proof -
  from site_built obtain s cleanup v' where b: "site_build (site_start (\<lambda>_. Fine)) = Some (Inr (s, cleanup), v')"
    by blast
  from BuildOrderService_owns_its_pool [OF site.order_plant_axioms b [unfolded site_build_def]] b
  show ?thesis by (auto simp: site_start_def)
qed

end
