(* ===== verification/Deploy.thy ===== *)
theory Deploy
  imports Builder
begin

text \<open>
  The order service as it is deployed: what \<open>BuildOrderService\<close> wires together, seen through
  its limiters, breakers and retries, on a world that holds all of it.
\<close>

section \<open>Through the wrappers\<close>

text \<open>A limiter that is switched off, or has a token; a breaker that is closed.\<close>

definition lets_through :: "'w RateLimiter \<Rightarrow> 'w \<Rightarrow> bool" where
  "lets_through l w \<longleftrightarrow> rl_rate l \<le> 0 \<or> rl_burst l \<le> 0 \<or>
     (sane_rate (rl_rate l) (rl_burst l) \<and> bucket_wf (rl_burst l) (rd (rl_ptr l) w) \<and>
      0 < rl_tokens (rd (rl_ptr l) w))"

lemma lets_through_cong: "rd (rl_ptr l) w' = rd (rl_ptr l) w \<Longrightarrow> lets_through l w' = lets_through l w"
  by (simp add: lets_through_def)

lemma breaker_enter_closed: "cb_state b = circuitClosed \<Longrightarrow> breaker_enter ra now b = (True, b)"
  by (simp add: breaker_enter_def)

lemma Wait_lets_through:
  assumes "lets_through l w" "live ctx" "J w"
    and still: "still (rl_ptr l) ctx" "still (rl_ptr l) (rl_now l)"
    and J: "\<And>v. J v \<Longrightarrow> J (snd (ctx v))" "\<And>v. J v \<Longrightarrow> J (snd (rl_now l v))" "\<And>v b. J v \<Longrightarrow> J (wr (rl_ptr l) b v)"
  shows "\<exists>w'. Wait (Some l) (Some ctx) w = Some (None, w') \<and> J w'"
proof -
  obtain v1 where c: "ctx w = (None, v1)" using assms(2) by (metis live_def prod.collapse)
  obtain t v2 where n: "rl_now l v1 = (t, v2)" by fastforce
  have j: "J v1" "J v2" using J(1) [OF assms(3)] J(2) [of v1] c n by simp_all
  have r: "rd (rl_ptr l) v2 = rd (rl_ptr l) w" using stillD [OF still(1) c] stillD [OF still(2) n] by simp
  show ?thesis
  proof (cases "rl_rate l \<le> 0 \<or> rl_burst l \<le> 0")
    case True
    with c j(1) show ?thesis by (simp add: Wait_def)
  next
    case False
    then have s: "sane_rate (rl_rate l) (rl_burst l)" "bucket_wf (rl_burst l) (rd (rl_ptr l) v2)"
      "0 < rl_tokens (rd (rl_ptr l) v2)"
      using assms(1) by (auto simp: lets_through_def r)
    obtain b where "limiter_round (rl_rate l) (rl_burst l) t (rd (rl_ptr l) v2) = (None, b)"
      using limiter_round_grants_iff [OF s(1,2), of t] s(3) by (metis prod.collapse)
    with False c n have "Wait (Some l) (Some ctx) w = Some (None, wr (rl_ptr l) b v2)"
      by (simp add: Wait_def ctx_or_background_def wait_loop.simps [of l])
    with J(3) [OF j(2)] show ?thesis by blast
  qed
qed

text \<open>
  A call that will succeed goes straight through: one token, one admission, no retry. \<open>J\<close>
  is what the machinery leaves alone, \<open>Q\<close> what the call achieves.
\<close>

lemma reliable_passes:
  assumes l: "lets_through l w" and live: "live ctx" and J0: "J w"
    and still: "still (rl_ptr l) ctx" "still (rl_ptr l) (rl_now l)" and c: "cell (cb_ptr c)"
    and J: "\<And>v. J v \<Longrightarrow> J (snd (ctx v))" "\<And>v. J v \<Longrightarrow> J (snd (rl_now l v))"
      "\<And>v b. J v \<Longrightarrow> J (wr (rl_ptr l) b v)" "\<And>v. J v \<Longrightarrow> J (snd (cb_now c v))"
    and closed: "\<And>v. J v \<Longrightarrow> cb_state (rd (cb_ptr c) v) = circuitClosed"
    and fn: "\<And>v. J v \<Longrightarrow> \<exists>v'. fn v = Some (None, v') \<and> Q v'"
    and Q: "\<And>v b. Q v \<Longrightarrow> Q (wr (cb_ptr c) b v)"
  shows "\<exists>w'. retry_Do rt pol (Some ctx) (attempt_of (Some l) (Some c) ctx fn) w = Some (None, w') \<and> Q w'"
proof -
  obtain v1 where v1: "ctx w = (None, v1)" using live by (metis live_def prod.collapse)
  have j1: "J v1" using J(1) [OF J0] v1 by simp
  have "lets_through l v1" using l lets_through_cong [of l v1 w, OF stillD [OF still(1) v1]] by simp
  from Wait_lets_through [where J = J, OF this live j1 still J(1-3)] obtain v2
    where v2: "Wait (Some l) (Some ctx) v1 = Some (None, v2)" "J v2" by blast
  obtain t v3 where n: "cb_now c v2 = (t, v3)" by fastforce
  have j3: "J v3" using J(4) [OF v2(2)] n by simp
  have e: "wr (cb_ptr c) (rd (cb_ptr c) v3) v3 = v3" using c by (simp add: cell_def)
  from fn [OF j3] obtain v4 where f: "fn v3 = Some (None, v4)" "Q v4" by blast
  have "attempt_of (Some l) (Some c) ctx fn v1 =
      Some (None, wr (cb_ptr c) (breaker_leave (cb_maxFails c) t None (rd (cb_ptr c) v4)) v4)"
    by (simp add: attempt_of_def v2(1) Execute_def n breaker_enter_closed [OF closed [OF j3]] e f(1))
  with Q [OF f(2)] show ?thesis
    by (simp add: retry_Do_def ctx_or_background_def retry_loop_step [where ctx = ctx and w = w, OF _ v1])
qed

section \<open>The wired service\<close>

text \<open>Limits under which the token arithmetic cannot overflow, or no limits at all.\<close>

definition sane_limits :: "ReliabilityConfig \<Rightarrow> bool" where
  "sane_limits cfg \<longleftrightarrow> RateLimitInterval cfg \<le> 0 \<or> RateLimitBurst cfg \<le> 0 \<or>
     sane_rate (RateLimitInterval cfg) (RateLimitBurst cfg)"

definition driver_gate :: "'w runtime \<Rightarrow> 'w order_cells \<Rightarrow> ReliabilityConfig \<Rightarrow> 'w \<Rightarrow> bool" where
  "driver_gate rt cells cfg v \<longleftrightarrow> lets_through (service_limiter rt cfg (oc_driverLimiter cells)) v \<and>
     cb_state (rd (oc_driverBreaker cells) v) = circuitClosed"

definition gates :: "'w runtime \<Rightarrow> 'w order_cells \<Rightarrow> ReliabilityConfig \<Rightarrow> 'w \<Rightarrow> bool" where
  "gates rt cells cfg v \<longleftrightarrow> lets_through (service_limiter rt cfg (oc_paymentLimiter cells)) v \<and>
     cb_state (rd (oc_paymentBreaker cells) v) = circuitClosed \<and> driver_gate rt cells cfg v"

lemma gates_new: "sane_limits cfg \<Longrightarrow> machinery_new cells cfg v \<Longrightarrow> gates rt cells cfg v"
  by (auto simp: gates_def driver_gate_def machinery_new_def lets_through_def service_limiter_def
      sane_limits_def bucket_wf_def sane_rate_def new_breaker_def)

context order_plant begin

lemmas places = separateD [OF db_apart(1)] separateD [OF db_apart(2)] separateD [OF db_apart(3)]
  separateD [OF db_apart(4)] separateD [OF limiters_apart] separateD [OF breakers_apart]
  separateD [OF mixed_apart(1)] separateD [OF mixed_apart(2)] separateD [OF mixed_apart(3)]
  separateD [OF mixed_apart(4)]

lemmas quiet = db_still [unfolded still_def, rule_format] limiter_still [unfolded still_def, rule_format]
  breaker_still [unfolded still_def, rule_format]

lemma gates_untouched: "untouched p ctx (gates rt cells cfg)" "untouched p ctx (driver_gate rt cells cfg)"
  by (simp_all add: untouched_def gates_def driver_gate_def lets_through_def service_limiter_def places quiet)

lemma passes_charge:
  assumes "live ctx" "o' \<noteq> ''''" "good p x" "gates rt cells cfg x"
    and "sh_ledger (shop_of (db_tables (rd p x))) o' = Unpaid"
  shows "\<exists>x'. pc_Charge (os_payments (wired_service rt cells newV7 cfg p)) ctx o' a x = Some (None, x') \<and>
    good p x' \<and> driver_gate rt cells cfg x' \<and>
    shop_of (db_tables (rd p x')) = set_payment o' (Charged a) (shop_of (db_tables (rd p x)))"
proof -
  let ?l = "service_limiter rt cfg (oc_paymentLimiter cells)" and ?c = "service_breaker rt cfg (oc_paymentBreaker cells)"
  let ?J = "\<lambda>v. rd p v = rd p x \<and> cb_state (rd (oc_paymentBreaker cells) v) = circuitClosed \<and> driver_gate rt cells cfg v"
  let ?Q = "\<lambda>v. good p v \<and> driver_gate rt cells cfg v \<and>
    shop_of (db_tables (rd p v)) = set_payment o' (Charged a) (shop_of (db_tables (rd p x)))"
  have sel: "rl_ptr ?l = oc_paymentLimiter cells" "rl_now ?l = time_Now rt" "cb_ptr ?c = oc_paymentBreaker cells"
    "cb_now ?c = time_Now rt" by (simp_all add: service_limiter_def service_breaker_def)
  have dg: "driver_gate rt cells cfg (snd (ctx v)) = driver_gate rt cells cfg v"
    "driver_gate rt cells cfg (snd (time_Now rt v)) = driver_gate rt cells cfg v"
    "driver_gate rt cells cfg (wr (oc_paymentLimiter cells) b v) = driver_gate rt cells cfg v"
    "driver_gate rt cells cfg (wr (oc_paymentBreaker cells) b' v) = driver_gate rt cells cfg v" for v b b'
    by (simp_all add: driver_gate_def lets_through_def service_limiter_def places quiet)
  have "\<exists>w'. retry_Do rt pol (Some ctx) (attempt_of (Some ?l) (Some ?c) ctx (Payment_Charge p ctx o' a)) x =
      Some (None, w') \<and> ?Q w'" for pol
  proof (rule reliable_passes [where J = ?J and Q = ?Q])
    show "lets_through ?l x" "?J x" using assms(4) by (simp_all add: gates_def)
    show "still (rl_ptr ?l) ctx" "still (rl_ptr ?l) (rl_now ?l)" "cell (cb_ptr ?c)"
      using limiter_still(1,2) breaker_cells(1) by (simp_all add: sel)
    show "?J (snd (ctx v))" "?J (snd (rl_now ?l v))" "?J (wr (rl_ptr ?l) b v)" "?J (snd (cb_now ?c v))"
      if "?J v" for v b using that by (simp_all add: sel dg places quiet)
    show "?Q (wr (cb_ptr ?c) b v)" if "?Q v" for v b
      using that good_same [of p v "wr (cb_ptr ?c) b v"] by (simp add: sel dg places)
    show "\<exists>v'. Payment_Charge p ctx o' a v = Some (None, v') \<and> ?Q v'" if "?J v" for v
    proof -
      from that have r: "rd p v = rd p x" by simp
      from sql_orders.Charge_run [OF ctx_client good_same [OF assms(3) r] assms(1,2), of a] assms(5)
      obtain v' where v': "Payment_Charge p ctx o' a v = Some (None, v')" "good p v'"
        "shop_of (db_tables (rd p v')) = set_payment o' (Charged a) (shop_of (db_tables (rd p v)))"
        unfolding r by blast
      obtain e y where y: "ExecContext p ctx (insert_payment o' a) v = (e, y)" by fastforce
      have "driver_gate rt cells cfg y" using exec_untouched [OF y gates_untouched(2)] that by blast
      moreover have "y = v'" using v'(1) y assms(2)
        by (auto simp: Payment_Charge_def split: sum.split_asm if_split_asm option.split_asm)
      ultimately show ?thesis using v' r by simp
    qed
  qed (use assms in \<open>simp_all add: sel\<close>)
  then show ?thesis
    by (simp add: wired_service_def NewOrderService_def reliable_payments_def reliable_Charge_def payment_do_eq
        NewPostgresPaymentClient_def)
qed

lemma passes_assign:
  assumes "live ctx" "o' \<noteq> ''''" "d \<noteq> ''''" "good p x" "driver_gate rt cells cfg x"
    and "sh_status (shop_of (db_tables (rd p x))) o' \<noteq> None"
    and "sh_driver (shop_of (db_tables (rd p x))) o' = None"
  shows "\<exists>x'. dc_Assign (os_drivers (wired_service rt cells newV7 cfg p)) ctx o' d x = Some (None, x') \<and>
    good p x' \<and> shop_of (db_tables (rd p x')) = set_driver o' d (shop_of (db_tables (rd p x)))"
proof -
  let ?l = "service_limiter rt cfg (oc_driverLimiter cells)" and ?c = "service_breaker rt cfg (oc_driverBreaker cells)"
  let ?J = "\<lambda>v. rd p v = rd p x \<and> cb_state (rd (oc_driverBreaker cells) v) = circuitClosed"
  let ?Q = "\<lambda>v. good p v \<and> shop_of (db_tables (rd p v)) = set_driver o' d (shop_of (db_tables (rd p x)))"
  have sel: "rl_ptr ?l = oc_driverLimiter cells" "rl_now ?l = time_Now rt" "cb_ptr ?c = oc_driverBreaker cells"
    "cb_now ?c = time_Now rt" by (simp_all add: service_limiter_def service_breaker_def)
  have "\<exists>w'. retry_Do rt pol (Some ctx) (attempt_of (Some ?l) (Some ?c) ctx (Driver_Assign p ctx o' d)) x =
      Some (None, w') \<and> ?Q w'" for pol
  proof (rule reliable_passes [where J = ?J and Q = ?Q])
    show "lets_through ?l x" "?J x" using assms(5) by (simp_all add: driver_gate_def)
    show "still (rl_ptr ?l) ctx" "still (rl_ptr ?l) (rl_now ?l)" "cell (cb_ptr ?c)"
      using limiter_still(3,4) breaker_cells(2) by (simp_all add: sel)
    show "?J (snd (ctx v))" "?J (snd (rl_now ?l v))" "?J (wr (rl_ptr ?l) b v)" "?J (snd (cb_now ?c v))"
      if "?J v" for v b using that by (simp_all add: sel places quiet)
    show "?Q (wr (cb_ptr ?c) b v)" if "?Q v" for v b
      using that good_same [of p v "wr (cb_ptr ?c) b v"] by (simp add: sel places)
    show "\<exists>v'. Driver_Assign p ctx o' d v = Some (None, v') \<and> ?Q v'" if "?J v" for v
    proof -
      from that have r: "rd p v = rd p x" by simp
      from sql_orders.Assign_run [OF ctx_client good_same [OF assms(4) r] assms(1,2,3)] assms(6,7)
      show ?thesis unfolding r by blast
    qed
  qed (use assms in \<open>simp_all add: sel\<close>)
  then show ?thesis
    by (simp add: wired_service_def NewOrderService_def reliable_drivers_def reliable_Assign_def driver_do_eq
        NewPostgresDriverClient_def)
qed

text \<open>
  A charge whose acknowledgement is lost. Whatever the limiter and the breaker do afterwards, each
  further attempt is refused by them or finds the order charged, so the retries end with an error.
\<close>

lemma Wait_rd:
  assumes "\<And>d. still p (select_timer rt ctx d)"
    and "Wait (Some (service_limiter rt cfg (oc_paymentLimiter cells))) (Some ctx) v = Some (r, v')"
  shows "rd p v' = rd p v"
proof -
  let ?l = "service_limiter rt cfg (oc_paymentLimiter cells)" and ?P = "\<lambda>u. rd p u = rd p v"
  have sleep: "rd p u' = rd p u" if "sleepWithContext rt ctx d u = Some (e, u')" for d u e u'
  proof -
    obtain fired u1 where t: "select_timer rt ctx d u = (fired, u1)" by fastforce
    from that stillD [OF assms(1) t] quiet(2) [of u1] show ?thesis
      by (auto simp: sleepWithContext_def t split: if_splits)
  qed
  have "limiter_keeps ?P ctx ?l"
    unfolding limiter_keeps_def by (auto simp: service_limiter_def quiet places dest: sleep)
  from wait_loop_keeps [OF this] assms(2) show ?thesis
    by (auto simp: Wait_def ctx_or_background_def quiet dest: stillD [OF db_still(2)] split: if_splits)
qed

lemma charge_lost:
  assumes "live ctx" "o' \<noteq> ''''" "sound p f x" "f 0 = Unacked e" "\<And>n. f (Suc n) = Fine" "gates rt cells cfg x"
    and "sh_ledger (shop_of (db_tables (rd p x))) o' = Unpaid"
    and wait: "\<And>v. Wait (Some (service_limiter rt cfg (oc_paymentLimiter cells))) (Some ctx) v \<noteq> None"
    and timer: "\<And>d. still p (select_timer rt ctx d)" and rand: "\<And>n. still p (rand_Int63n rt n)"
  shows "\<exists>err x'. pc_Charge (os_payments (wired_service rt cells newV7 cfg p)) ctx o' a x = Some (Some err, x') \<and>
    good p x' \<and> shop_of (db_tables (rd p x')) = set_payment o' (Charged a) (shop_of (db_tables (rd p x)))"
proof -
  let ?l = "service_limiter rt cfg (oc_paymentLimiter cells)" and ?c = "service_breaker rt cfg (oc_paymentBreaker cells)"
  let ?S = "set_payment o' (Charged a) (shop_of (db_tables (rd p x)))"
  let ?fn = "attempt_of (Some ?l) (Some ?c) ctx (Payment_Charge p ctx o' a)"
  define J where "J v \<longleftrightarrow> rd p v = rd p x \<and> cb_state (rd (oc_paymentBreaker cells) v) = circuitClosed \<and> lets_through ?l v" for v
  define G where "G v \<longleftrightarrow> good p v \<and> shop_of (db_tables (rd p v)) = ?S" for v
  have G: "rd p v' = rd p v \<Longrightarrow> G v \<Longrightarrow> G v'" for v v' by (auto simp: G_def intro: good_same)
  have sel: "rl_ptr ?l = oc_paymentLimiter cells" "rl_now ?l = time_Now rt" "cb_ptr ?c = oc_paymentBreaker cells"
    "cb_now ?c = time_Now rt" by (simp_all add: service_limiter_def service_breaker_def)
  have first: "\<exists>err v'. ?fn v = Some (Some err, v') \<and> G v'" if "J v" for v
  proof -
    let ?K = "\<lambda>v. rd p v = rd p x \<and> cb_state (rd (oc_paymentBreaker cells) v) = circuitClosed"
    have "\<exists>w'. Wait (Some ?l) (Some ctx) v = Some (None, w') \<and> ?K w'"
      by (rule Wait_lets_through) (use that assms(1) limiter_still(1,2) in \<open>simp_all add: J_def sel places quiet\<close>)
    then obtain v1 where 1: "Wait (Some ?l) (Some ctx) v = Some (None, v1)" "?K v1" by blast
    obtain t v2 where 2: "time_Now rt v1 = (t, v2)" by fastforce
    have r2: "rd p v2 = rd p x" "cb_state (rd (oc_paymentBreaker cells) v2) = circuitClosed"
      using 1(2) stillD [OF db_still(1) 2] stillD [OF breaker_still(1) 2] by simp_all
    have w: "wr (oc_paymentBreaker cells) (rd (oc_paymentBreaker cells) v2) v2 = v2"
      using breaker_cells(1) by (simp add: cell_def)
    have u: "sh_ledger (shop_of (db_tables (rd p v2))) o' = Unpaid" using assms(7) r2(1) by simp
    from sql_orders.Charge_lost [OF ctx_client sound_same [OF assms(3) r2(1)] assms(4,1,2) u, of a] obtain v3
      where 3: "Payment_Charge p ctx o' a v2 = Some (Some e, v3)" "sound p (\<lambda>n. f (Suc n)) v3"
        "shop_of (db_tables (rd p v3)) = set_payment o' (Charged a) (shop_of (db_tables (rd p v2)))" .
    have "G v3" using 3(2,3) by (simp add: G_def good_sound assms(5) r2(1))
    then have "G (wr (oc_paymentBreaker cells) b v3)" for b by (rule G [rotated]) (simp add: places)
    then show ?thesis
      using 1(1) 2 w 3(1) by (simp add: attempt_of_def Execute_def sel breaker_enter_closed [OF r2(2)])
  qed
  have later: "\<exists>err v'. ?fn v = Some (Some err, v') \<and> G v'" if "G v" for v
  proof -
    obtain r v1 where 1: "Wait (Some ?l) (Some ctx) v = Some (r, v1)" using wait [of v] by auto
    have G1: "G v1" using G [OF Wait_rd [OF timer 1] that] .
    obtain t v2 where 2: "time_Now rt v1 = (t, v2)" by fastforce
    obtain adm b where b: "breaker_enter (cb_resetAfter ?c) t (rd (oc_paymentBreaker cells) v2) = (adm, b)" by fastforce
    have G3: "G (wr (oc_paymentBreaker cells) b' v2)" for b'
      by (rule G [OF _ G1]) (simp add: places stillD [OF db_still(1) 2])
    have "good p (wr (oc_paymentBreaker cells) b v2)"
      "sh_ledger (shop_of (db_tables (rd p (wr (oc_paymentBreaker cells) b v2)))) o' = Charged a"
      using G3 [of b] by (simp_all add: G_def set_payment_def del: shop_of_sel)
    from sql_orders.Charge_again [OF ctx_client this(1) assms(1,2) this(2), of a] obtain v4
      where 4: "Payment_Charge p ctx o' a (wr (oc_paymentBreaker cells) b v2) = Some (Some ErrAlreadyCharged, v4)"
        "good p v4" "shop_of (db_tables (rd p v4)) = shop_of (db_tables (rd p (wr (oc_paymentBreaker cells) b v2)))" .
    have "G v4" using 4(2,3) G3 [of b] by (simp add: G_def)
    then have "G (wr (oc_paymentBreaker cells) b' v4)" for b' by (rule G [rotated]) (simp add: places)
    with 1 2 b 4(1) G1 G3 [of b] show ?thesis
      by (cases r; cases adm) (auto simp: attempt_of_def Execute_def sel Let_def)
  qed
  let ?P = "\<lambda>j v. if j = (1::int) then J v else 1 < j \<and> G v"
  have "\<exists>err j x'. retry_Do rt pol (Some ctx) ?fn x = Some (Some err, x') \<and> 1 < j \<and> ?P j x'"
    if pol: "Sleep pol = None" "Jitter pol = None" for pol
    unfolding retry_Do_def ctx_or_background_def option.case
  proof (rule retry_loop_fails)
    show "?P 1 x" using assms(6) by (simp add: J_def gates_def)
    show "\<exists>v'. ctx v = (None, v') \<and> ?P j v'" if "?P j v" for j v
    proof -
      obtain v' where c: "ctx v = (None, v')" using assms(1) by (metis live_def prod.collapse)
      have "rd p v' = rd p v" "rd (oc_paymentBreaker cells) v' = rd (oc_paymentBreaker cells) v"
        "lets_through ?l v' = lets_through ?l v"
        using stillD [OF db_still(2) c] stillD [OF breaker_still(2) c] stillD [OF limiter_still(2) c]
        by (simp_all add: lets_through_def sel)
      with that c G show ?thesis by (auto simp: J_def split: if_splits)
    qed
    show "\<exists>err v'. ?fn v = Some (Some err, v') \<and> ?P (j + 1) v'" if "?P j v" for j v
      using that first [of v] later [of v] by (auto split: if_splits)
    show "?P j (snd (policy_jitter rt pol d v))" if "?P j v" "1 < j" for j d v
    proof -
      have "rd p (snd (policy_jitter rt pol d v)) = rd p v"
        using rand by (auto simp: policy_jitter_def pol defaultJitter_def Let_def still_def split: prod.splits) (metis snd_conv)?
      with that G show ?thesis by auto
    qed
    show "\<exists>r v'. policy_sleep rt pol ctx d v = Some (r, v') \<and> ?P j v'" if "?P j v" "1 < j" for j d v
    proof -
      obtain fired v1 where t: "select_timer rt ctx d v = (fired, v1)" by fastforce
      obtain c v2 where c: "ctx v1 = (c, v2)" by fastforce
      have "rd p v1 = rd p v" "rd p v2 = rd p v" using stillD [OF timer t] stillD [OF db_still(2) c] by simp_all
      with that G t c show ?thesis by (auto simp: policy_sleep_def pol sleepWithContext_def)
    qed
  qed simp
  from this [of "reliability_policy cfg"] show ?thesis
    by (auto simp: wired_service_def reliable_payments_def reliable_Charge_def payment_do_eq
        NewPostgresPaymentClient_def reliability_policy_def G_def)
qed

text \<open>A fresh order through the wired service.\<close>

lemma wired_order:
  assumes "live ctx" "good p w" "gates rt cells cfg w"
    and ids: "newV7 w = (Inr o', w1)" "newV7 w1 = (Inr d, w2)" "o' \<noteq> ''''" "d \<noteq> ''''"
    and quietV7: "still p newV7" "still (oc_paymentLimiter cells) newV7" "still (oc_driverLimiter cells) newV7"
      "still (oc_paymentBreaker cells) newV7" "still (oc_driverBreaker cells) newV7"
    and "key \<noteq> ''''" "\<not> f64_is_nan a"
    and sh: "sh = shop_of (db_tables (rd p w))" "sh_holder sh key = None" "sh_status sh o' = None"
      "sh_ledger sh o' = Unpaid"
  shows "\<exists>w'. CreateOrder (wired_service rt cells newV7 cfg p) ctx u a key w = Some ((o', None), w') \<and>
    good p w' \<and> shop_of (db_tables (rd p w')) = set_status o' SagaStatusSucceeded (set_driver o' d
      (set_payment o' (Charged a) (take_key key o' u a sh)))"
proof -
  let ?s = "wired_service rt cells newV7 cfg p"
  note q = stillD [OF quietV7(1)] stillD [OF quietV7(2)] stillD [OF quietV7(3)] stillD [OF quietV7(4)] stillD [OF quietV7(5)]
  have rd2: "rd p w2 = rd p w" using q(1) [OF ids(1)] q(1) [OF ids(2)] by simp
  have g2: "good p w2" using good_same [OF assms(2) rd2] .
  have gate2: "gates rt cells cfg w2"
    using assms(3) q(2-5) [OF ids(1)] q(2-5) [OF ids(2)]
    by (simp add: gates_def driver_gate_def lets_through_def service_limiter_def)
  have nd: "sh_driver sh o' = None" using no_driver_yet [OF assms(2)] sh(1,3) by simp
  have "\<exists>w'. CreateOrder ?s ctx u a key w = Some ((o', None), w') \<and> good p w' \<and>
      shop_of (db_tables (rd p w')) = set_status o' SagaStatusSucceeded (set_driver o' d
        (set_payment o' (Charged a) (take_key key o' u a (shop_of (db_tables (rd p w2))))))"
  proof (rule sql_orders.order_placed_by [where C = "gates rt cells cfg" and D = "driver_gate rt cells cfg",
        OF ctx_client g2 assms(1) _ _ _ ids(3) _ _ gates_untouched(1) gate2 gates_untouched(2)])
    show "\<exists>x'. pc_Charge (os_payments ?s) ctx o' a x = Some (None, x') \<and> good p x' \<and> driver_gate rt cells cfg x' \<and>
        shop_of (db_tables (rd p x')) = set_payment o' (Charged a) (shop_of (db_tables (rd p x)))"
      if "good p x" "gates rt cells cfg x" "sh_ledger (shop_of (db_tables (rd p x))) o' = Unpaid" for x
      by (rule passes_charge [OF assms(1) ids(3) that])
    show "\<exists>x'. dc_Assign (os_drivers ?s) ctx o' d x = Some (None, x') \<and> good p x' \<and>
        shop_of (db_tables (rd p x')) = set_driver o' d (shop_of (db_tables (rd p x)))"
      if "good p x" "driver_gate rt cells cfg x"
        "sh_status (shop_of (db_tables (rd p x))) o' = Some SagaStatusStarted"
        "sh_driver (shop_of (db_tables (rd p x))) = sh_driver (shop_of (db_tables (rd p w2)))" for x
      by (rule passes_assign [OF assms(1) ids(3,4) that(1,2)])
        (use that(3,4) nd in \<open>simp_all add: rd2 sh(1)\<close>)
    show "os_sagas ?s = NewSagaStore p" "os_idGen ?s w = Some (o', w1)" "os_driverSel ?s w1 = Some (d, w2)"
      using ids by (simp_all add: wired_service_def newUUID_Some)
  qed (use assms sh in \<open>simp_all add: rd2\<close>)
  then show ?thesis by (simp add: rd2 sh(1))
qed

text \<open>A fresh order whose charge is not acknowledged, and the same request again.\<close>

lemma wired_lost:
  assumes "live ctx" "sound p ((\<lambda>_. Fine)(3 := Unacked e)) w" "gates rt cells cfg w"
    and ids: "newV7 w = (Inr o', w1)" "newV7 w1 = (Inr d, w2)" "o' \<noteq> ''''"
    and quietV7: "still p newV7" "still (oc_paymentLimiter cells) newV7" "still (oc_driverLimiter cells) newV7"
      "still (oc_paymentBreaker cells) newV7" "still (oc_driverBreaker cells) newV7"
    and "key \<noteq> ''''" "\<not> f64_is_nan a"
    and sh: "sh = shop_of (db_tables (rd p w))" "sh_holder sh key = None" "sh_status sh o' = None"
      "sh_ledger sh o' = Unpaid"
    and outside: "\<And>v. Wait (Some (service_limiter rt cfg (oc_paymentLimiter cells))) (Some ctx) v \<noteq> None"
      "\<And>d. still p (select_timer rt ctx d)" "\<And>n. still p (rand_Int63n rt n)"
  shows "\<exists>err w'. CreateOrder (wired_service rt cells newV7 cfg p) ctx u a key w = Some (('''', Some err), w') \<and>
    good p w' \<and> shop_of (db_tables (rd p w')) = set_status o' SagaStatusFailed
      (set_payment o' (Charged a) (take_key key o' u a sh))"
proof -
  let ?s = "wired_service rt cells newV7 cfg p" and ?f = "(\<lambda>_. Fine)(3 := Unacked e)"
  note q = stillD [OF quietV7(1)] stillD [OF quietV7(2)] stillD [OF quietV7(3)] stillD [OF quietV7(4)] stillD [OF quietV7(5)]
  have rd2: "rd p w2 = rd p w" using q(1) [OF ids(1)] q(1) [OF ids(2)] by simp
  have gate2: "gates rt cells cfg w2"
    using assms(3) q(2-5) [OF ids(1)] q(2-5) [OF ids(2)]
    by (simp add: gates_def driver_gate_def lets_through_def service_limiter_def)
  have "\<exists>err w'. CreateOrder ?s ctx u a key w = Some (('''', Some err), w') \<and> good p w' \<and>
      shop_of (db_tables (rd p w')) = set_status o' SagaStatusFailed (set_payment o' (Charged a)
        (take_key key o' u a (shop_of (db_tables (rd p w2)))))"
  proof (rule sql_orders.order_declined [where C = "gates rt cells cfg" and f = ?f,
        OF ctx_client sound_same [OF assms(2) rd2] _ _ _ assms(1) _ _ _ _ _ gates_untouched(1) gate2])
    show "\<exists>err x'. pc_Charge (os_payments ?s) ctx o' a x = Some (Some err, x') \<and> good p x' \<and>
        shop_of (db_tables (rd p x')) = set_payment o' (Charged a) (shop_of (db_tables (rd p x)))"
      if "sound p (\<lambda>n. ?f (n + 3)) x" "gates rt cells cfg x" "sh_ledger (shop_of (db_tables (rd p x))) o' = Unpaid" for x
      by (rule charge_lost [OF assms(1) ids(3) that(1) _ _ that(2,3) outside]) simp_all
    show "os_sagas ?s = NewSagaStore p" "os_idGen ?s w = Some (o', w1)" "os_driverSel ?s w1 = Some (d, w2)"
      using ids by (simp_all add: wired_service_def newUUID_Some)
  qed (use assms sh in \<open>simp_all add: rd2\<close>)
  then show ?thesis by (simp add: rd2 sh(1))
qed

lemma wired_replay:
  assumes "live ctx" "good p w" and ids: "newV7 w = (Inr o', w1)" "newV7 w1 = (Inr d, w2)" "still p newV7"
    and "key \<noteq> ''''" "\<not> f64_is_nan a" "sh_holder (shop_of (db_tables (rd p w))) key = Some (o1, u, a)"
    and "sh_status (shop_of (db_tables (rd p w))) o1 = Some st" "st \<noteq> SagaStatusSucceeded"
  shows "\<exists>w'. CreateOrder (wired_service rt cells newV7 cfg p) ctx u a key w =
      Some ((o1, Some (ErrText (''order already processed with status '' @ st))), w') \<and> db_tables (rd p w') = db_tables (rd p w)"
proof -
  let ?s = "wired_service rt cells newV7 cfg p"
  have rd2: "rd p w2 = rd p w" using stillD [OF ids(3) ids(1)] stillD [OF ids(3) ids(2)] by simp
  have s: "os_sagas ?s = NewSagaStore p" "os_idGen ?s w = Some (o', w1)" "os_driverSel ?s w1 = Some (d, w2)"
    using ids by (simp_all add: wired_service_def newUUID_Some)
  have "sh_holder (shop_of (db_tables (rd p w2))) key = Some (o1, u, a)" "f64_eq a a"
    using assms(7,8) by (simp_all add: rd2 f64_eq_refl)
  from sql_orders.order_replayed [OF ctx_client good_same [OF assms(2) rd2] assms(1,6) this s] assms(9,10)
  show ?thesis by (simp add: rd2)
qed

end

lemma contents_same:
  assumes "contents t' = contents t"
  shows "tables_wf t' = tables_wf t" "shop_of t' = shop_of t"
  using assms by (cases t; cases t'; simp add: contents_def tables_wf_def shop_of_def ledger_def driver_of_def
      holder_def status_of_def fun_eq_iff)+

text \<open>
  C5: From an empty machine to a placed order. After a successful \<open>BuildOrderService\<close>, with a
  database that answers and limits whose arithmetic cannot overflow (or none), the first order
  with a fresh key goes through limiter, breaker and retries of both clients and is placed:
  charged once, with the chosen driver, \<open>succeeded\<close>, and nothing else in the shop is changed.
\<close>

theorem deployed_order_placed:
  assumes "order_plant p rt cells ctx0 sql conns" "order_plant p rt cells ctx sql conns" "live ctx"
    and "BuildOrderService rt sql os cells newV7 log_Printf ctx0 dsn logf v = Some (Inr (s, cleanup), w)"
    and "healthy p w" "tables_wf (db_tables (rd p v))" "sane_limits (fst (loadReliabilityConfigFromEnv os))"
    and "newV7 w = (Inr orderID, w1)" "newV7 w1 = (Inr driverID, w2)" "orderID \<noteq> ''''" "driverID \<noteq> ''''"
    and "still p newV7" "still (oc_paymentLimiter cells) newV7" "still (oc_driverLimiter cells) newV7"
      "still (oc_paymentBreaker cells) newV7" "still (oc_driverBreaker cells) newV7"
    and "key \<noteq> ''''" "\<not> f64_is_nan amount"
    and "sh = shop_of (db_tables (rd p v))" "sh_holder sh key = None" "sh_status sh orderID = None"
      "sh_ledger sh orderID = Unpaid"
  shows "\<exists>w'. CreateOrder s ctx userID amount key w = Some ((orderID, None), w') \<and> good p w' \<and>
    shop_of (db_tables (rd p w')) = set_status orderID SagaStatusSucceeded (set_driver orderID driverID
      (set_payment orderID (Charged amount) (take_key key orderID userID amount sh)))"
proof -
  from order_plant.build_effect [OF assms(1,4)] obtain cfg
    where b: "contents (db_tables (rd p w)) = contents (db_tables (rd p v))" "all_created (db_tables (rd p w))"
      "loadReliabilityConfigFromEnv os = (cfg, None)" "s = wired_service rt cells newV7 cfg p"
      "machinery_new cells cfg w" by auto
  have "good p w" using assms(5,6) b(2) by (simp add: good_def contents_same(1) [OF b(1)])
  moreover have "gates rt cells cfg w" using gates_new [OF _ b(5)] assms(7) b(3) by simp
  moreover have "sh = shop_of (db_tables (rd p w))" using assms(19) by (simp add: contents_same(2) [OF b(1)])
  ultimately show ?thesis
    unfolding b(4) using assms by (intro order_plant.wired_order [OF assms(2)]) simp_all
qed

theorem deployed_order_placed_witness:
  "\<exists>s cleanup w w'. site_build (site_start (\<lambda>_. Fine)) = Some (Inr (s, cleanup), w) \<and>
    CreateOrder s context_Background ''u1'' f64_10 ''k1'' w = Some ((''o1'', None), w') \<and>
    ledger (db_tables (site_db w')) ''o1'' = Charged f64_10 \<and>
    driver_of (db_tables (site_db w')) ''o1'' = Some ''o2''"
proof -
  let ?v = "site_start (\<lambda>_. Fine)"
  from site_built obtain s cleanup w where b: "site_build ?v = Some (Inr (s, cleanup), w)"
    and h: "healthy site_ptr w" and ids: "site_ids w = 1" by blast
  have d: "show_dec 1 = ''1''" "show_dec 2 = ''2''" by code_simp+
  have n1: "site_newV7 w = (Inr ''o1'', w\<lparr>site_ids := 2\<rparr>)"
    "site_newV7 (w\<lparr>site_ids := 2\<rparr>) = (Inr ''o2'', w\<lparr>site_ids := 3\<rparr>)"
    by (simp_all add: site_newV7_def ids d)
  have sh: "shop_of (db_tables (rd site_ptr ?v)) =
      \<lparr>sh_ledger = (\<lambda>_. Unpaid), sh_driver = (\<lambda>_. None), sh_holder = (\<lambda>_. None), sh_status = (\<lambda>_. None)\<rparr>"
    "tables_wf (db_tables (rd site_ptr ?v))"
    by (simp_all add: site_ptr_def site_start_def db_with_def shop_of_def empty_tables_def ledger_def
        driver_of_def holder_def status_of_def fun_eq_iff tables_wf_def)
  have st: "still site_ptr site_newV7" "still (oc_paymentLimiter site_cells) site_newV7"
    "still (oc_driverLimiter site_cells) site_newV7" "still (oc_paymentBreaker site_cells) site_newV7"
    "still (oc_driverBreaker site_cells) site_newV7"
    by (simp_all add: still_def site_defs)
  have lim: "sane_limits (fst (loadReliabilityConfigFromEnv site_env))"
    by (simp add: site_env_loads sane_limits_def sample_reliability_def)
  have live: "live (context_Background :: site ctx)" by (simp add: live_def context_Background_def)
  from deployed_order_placed [OF site.order_plant_axioms site.order_plant_axioms live b [unfolded site_build_def] h sh(2) lim
      n1 _ _ st _ f64_nan_is_nan(2), of "''k1''", OF _ _ _ refl]
  obtain w' where "CreateOrder s context_Background ''u1'' f64_10 ''k1'' w = Some ((''o1'', None), w')"
    and e: "shop_of (db_tables (rd site_ptr w')) = set_status ''o1'' SagaStatusSucceeded (set_driver ''o1'' ''o2''
      (set_payment ''o1'' (Charged f64_10) (take_key ''k1'' ''o1'' ''u1'' f64_10 (shop_of (db_tables (rd site_ptr ?v))))))"
    unfolding sh(1) by auto
  moreover have "sh_ledger (shop_of (db_tables (rd site_ptr w'))) ''o1'' = Charged f64_10"
    "sh_driver (shop_of (db_tables (rd site_ptr w'))) ''o1'' = Some ''o2''"
    unfolding e by (simp_all add: shop_defs)
  then have "ledger (db_tables (site_db w')) ''o1'' = Charged f64_10"
    "driver_of (db_tables (site_db w')) ''o1'' = Some ''o2''" by (simp_all add: site_ptr_def)
  ultimately show ?thesis using b by blast
qed

section \<open>A lost acknowledgement\<close>


text \<open>
  A customer's request, and the same request again, on a site where the acknowledgement of the
  eighth statement (four tables are created before the request) is lost.
\<close>

definition lost_ack_site :: site where
  "lost_ack_site = site_start (\<lambda>n. if n = 7 then Unacked (ErrText ''connection reset'') else Fine)"

lemma lost_ack_built: "\<exists>s cleanup v'. site_build lost_ack_site = Some (Inr (s, cleanup), v') \<and>
    fated site_ptr ((\<lambda>_. Fine)(3 := Unacked (ErrText ''connection reset''))) v' \<and> site_ids v' = 1"
  by (simp add: lost_ack_site_def site_build_def BuildOrderService_def site_env_loads
      NewPostgresPaymentClientWithSchema_def NewSagaStoreWithSchema_def NewPostgresDriverClientWithSchema_def
      Payment_InitSchema_def SagaStore_InitSchema_def Driver_InitSchema_def context_WithTimeout_def site_start_def
      site_defs db_eval create_table_def reliable_service_def NewRateLimiter_def NewRateLimiterWithHook_def
      NewCircuitBreaker_def fated_def)

definition lost_ack_run :: "(string \<times> go_error option) option" where
  "lost_ack_run =
     (case site_build lost_ack_site of
        Some (Inr (s, cleanup), w) \<Rightarrow> map_option fst (CreateOrder s context_Background ''u1'' f64_10 ''k1'' w)
      | _ \<Rightarrow> None)"


end
