(* ===== verification/Ingest.thy ===== *)
theory Ingest
  imports SqlDb Float64 GoText
begin

text \<open>
  Package internal/ingest and the Postgres location store of internal/db/ingest: validated
  locations, the store and publisher interfaces, the store that writes to several stores,
  the fan-out publisher, the Redis store and the history table.
\<close>

section \<open>Locations\<close>

text \<open>A \<open>time.Time\<close> as nanoseconds since 1970 in UTC; the zero \<open>Time\<close> is 1 January of year 1.\<close>

type_synonym time = int

definition zero_Time :: time where "zero_Time = - 62135596800 * 10 ^ 9"

record Location =
  DriverID :: string
  Lat :: float64
  Long :: float64
  Timestamp :: time

definition ErrInvalidDriverID :: go_error where
  "ErrInvalidDriverID = ErrVar ''ingest.ErrInvalidDriverID'' ''driver id is required''"
definition ErrInvalidLatitude :: go_error where
  "ErrInvalidLatitude = ErrVar ''ingest.ErrInvalidLatitude'' ''latitude must be between -90 and 90''"
definition ErrInvalidLongitude :: go_error where
  "ErrInvalidLongitude = ErrVar ''ingest.ErrInvalidLongitude'' ''longitude must be between -180 and 180''"

definition NewLocation :: "string \<Rightarrow> float64 \<Rightarrow> float64 \<Rightarrow> time \<Rightarrow> go_error + Location" where
  "NewLocation driverID lat long timestamp =
     (if driverID = '''' then Inl ErrInvalidDriverID
      else if f64_lt lat f64_m90 \<or> f64_lt f64_90 lat then Inl ErrInvalidLatitude
      else if f64_lt long f64_m180 \<or> f64_lt f64_180 long then Inl ErrInvalidLongitude
      else Inr \<lparr>DriverID = driverID, Lat = lat, Long = long, Timestamp = timestamp\<rparr>)"

section \<open>Stores and publishers\<close>

record 'w LocationStore =
  ls_Update :: "'w ctx \<Rightarrow> Location \<Rightarrow> ('w, go_error option) act"

record 'w LocationPublisher =
  lp_Publish :: "'w ctx \<Rightarrow> Location \<Rightarrow> ('w, go_error option) act"

definition StorePublisher_Publish ::
  "'w LocationStore \<Rightarrow> 'w ctx \<Rightarrow> Location \<Rightarrow> ('w, go_error option) act" where
  "StorePublisher_Publish store ctx loc = ls_Update store ctx loc"

definition NewStorePublisher :: "'w LocationStore \<Rightarrow> 'w LocationPublisher" where
  "NewStorePublisher store = \<lparr>lp_Publish = StorePublisher_Publish store\<rparr>"

record 'w IngestService =
  is_publisher :: "'w LocationPublisher"

definition NewIngestService :: "'w LocationPublisher \<Rightarrow> 'w IngestService" where
  "NewIngestService publisher = \<lparr>is_publisher = publisher\<rparr>"

definition Ingest :: "'w IngestService \<Rightarrow> 'w ctx \<Rightarrow> Location \<Rightarrow> ('w, go_error option) act" where
  "Ingest s ctx loc = lp_Publish (is_publisher s) ctx loc"

text \<open>The loop of \<open>MultiLocationStore.Update\<close>, with the errors collected so far.\<close>

fun multi_loop ::
  "'w LocationStore list \<Rightarrow> 'w ctx \<Rightarrow> Location \<Rightarrow> go_error list \<Rightarrow> ('w, go_error list) act" where
  "multi_loop [] ctx loc errs w = Some (errs, w)"
| "multi_loop (store # stores) ctx loc errs w = do {
     (err, w) \<leftarrow> ls_Update store ctx loc w;
     multi_loop stores ctx loc (case err of Some err \<Rightarrow> errs @ [err] | None \<Rightarrow> errs) w
   }"

definition Multi_Update ::
  "'w LocationStore list \<Rightarrow> 'w ctx \<Rightarrow> Location \<Rightarrow> ('w, go_error option) act" where
  "Multi_Update stores ctx loc w = do {
     (errs, w) \<leftarrow> multi_loop stores ctx loc [] w;
     Some (errors_Join errs, w)
   }"

definition NewMultiLocationStore :: "'w LocationStore list \<Rightarrow> 'w LocationStore" where
  "NewMultiLocationStore stores = \<lparr>ls_Update = Multi_Update stores\<rparr>"

section \<open>The fan-out publisher\<close>

text \<open>
  The part of \<open>encoding/json\<close> the code uses: a value built from strings, numbers and
  times, and its text, with the values \<open>Marshal\<close> refuses. The concrete text of an accepted
  value is \<open>render\<close>, a parameter.
\<close>

datatype json = JString string | JNumber float64 | JTime time | JObject "(string \<times> json) list"

definition json_unsupported :: "float64 \<Rightarrow> go_error" where
  "json_unsupported x = ErrExt ''json.UnsupportedValueError'' (''json: unsupported value: '' @
     (if f64_is_nan x then ''NaN'' else if f64_neg x then ''-Inf'' else ''+Inf''))"
definition json_year :: go_error where
  "json_year = ErrExt ''json.MarshalerError''
     ''json: error calling MarshalJSON for type time.Time: Time.MarshalJSON: year outside of range [0,9999]''"

text \<open>The first and the last nanosecond of the years 0 to 9999.\<close>

definition min_json_time :: time where "min_json_time = - 62167219200 * 10 ^ 9"
definition max_json_time :: time where "max_json_time = 253402300800 * 10 ^ 9 - 1"

fun json_refused :: "json \<Rightarrow> go_error option" where
  "json_refused (JString s) = None"
| "json_refused (JNumber x) = (if f64_finite x then None else Some (json_unsupported x))"
| "json_refused (JTime t) = (if min_json_time \<le> t \<and> t \<le> max_json_time then None else Some json_year)"
| "json_refused (JObject fs) =
     fold (\<lambda>f acc. case acc of None \<Rightarrow> json_refused (snd f) | Some e \<Rightarrow> Some e) fs None"

definition json_Marshal :: "(json \<Rightarrow> string) \<Rightarrow> json \<Rightarrow> go_error + string" where
  "json_Marshal render v = (case json_refused v of Some e \<Rightarrow> Inl e | None \<Rightarrow> Inr (render v))"

record 'w FanoutPublisher =
  fp_storage :: "'w LocationPublisher"
  fp_broadcaster :: "(string \<Rightarrow> ('w, unit) act) option"

definition location_payload :: "Location \<Rightarrow> json" where
  "location_payload loc = JObject
     [(''type'', JString ''location''), (''driver_id'', JString (DriverID loc)),
      (''lat'', JNumber (Lat loc)), (''long'', JNumber (Long loc)),
      (''timestamp'', JTime (Timestamp loc))]"

definition Fanout_Publish ::
  "(json \<Rightarrow> string) \<Rightarrow> 'w FanoutPublisher \<Rightarrow> 'w ctx \<Rightarrow> Location \<Rightarrow> ('w, go_error option) act" where
  "Fanout_Publish render p ctx loc w = do {
     (err, w) \<leftarrow> lp_Publish (fp_storage p) ctx loc w;
     case err of
       Some err \<Rightarrow> Some (Some err, w)
     | None \<Rightarrow>
         (case json_Marshal render (location_payload loc) of
            Inl err \<Rightarrow> Some (Some err, w)
          | Inr data \<Rightarrow>
              (case fp_broadcaster p of
                 None \<Rightarrow> Some (None, w)
               | Some broadcast \<Rightarrow> do { (_, w) \<leftarrow> broadcast data w; Some (None, w) }))
   }"

definition NewFanoutPublisher ::
  "(json \<Rightarrow> string) \<Rightarrow> 'w LocationPublisher \<Rightarrow> (string \<Rightarrow> ('w, unit) act) option \<Rightarrow> 'w LocationPublisher" where
  "NewFanoutPublisher render storage broadcaster =
     \<lparr>lp_Publish = Fanout_Publish render \<lparr>fp_storage = storage, fp_broadcaster = broadcaster\<rparr>\<rparr>"

section \<open>The Redis store\<close>

text \<open>
  The client surface of go-redis the store uses, as its interfaces in the source: commands
  are queued on a pipeline, \<open>Exec\<close> sends them. Field values are strings and floats.
\<close>

datatype redis_value = RString string | RFloat float64

record XAddArgs =
  xa_Stream :: string
  xa_Values :: "(string \<times> redis_value) list"
  xa_MaxLen :: int
  xa_Approx :: bool

record 'w RedisPipeliner =
  pipe_HSet :: "'w ctx \<Rightarrow> string \<Rightarrow> (string \<times> redis_value) list \<Rightarrow> ('w, unit) act"
  pipe_Expire :: "'w ctx \<Rightarrow> string \<Rightarrow> duration \<Rightarrow> ('w, unit) act"
  pipe_XAdd :: "'w ctx \<Rightarrow> XAddArgs \<Rightarrow> ('w, unit) act"
  pipe_Exec :: "'w ctx \<Rightarrow> ('w, go_error option) act"

record 'w RedisPipelineClient =
  rc_Pipeline :: "('w, 'w RedisPipeliner) act"

record 'w RedisLocationStore =
  rs_client :: "'w RedisPipelineClient"
  rs_stream :: string
  rs_keyPrefix :: string
  rs_ttl :: duration
  rs_maxLen :: int

definition NewRedisLocationStore ::
  "'w RedisPipelineClient \<Rightarrow> string \<Rightarrow> duration \<Rightarrow> int \<Rightarrow> 'w RedisLocationStore" where
  "NewRedisLocationStore client stream ttl maxLen =
     (let stream = (if stream = '''' then ''location_events'' else stream)
      in \<lparr>rs_client = client, rs_stream = stream, rs_keyPrefix = ''driver:'', rs_ttl = ttl,
          rs_maxLen = maxLen\<rparr>)"

definition location_fields :: "Location \<Rightarrow> (string \<times> redis_value) list" where
  "location_fields loc =
     [(''driver_id'', RString (DriverID loc)), (''lat'', RFloat (Lat loc)),
      (''long'', RFloat (Long loc)), (''timestamp'', RString (format_RFC3339Nano (Timestamp loc)))]"

definition xadd_args :: "'w RedisLocationStore \<Rightarrow> Location \<Rightarrow> XAddArgs" where
  "xadd_args r loc =
     (let args = \<lparr>xa_Stream = rs_stream r, xa_Values = location_fields loc,
            xa_MaxLen = 0, xa_Approx = False\<rparr>
      in if rs_maxLen r > 0 then args\<lparr>xa_MaxLen := rs_maxLen r, xa_Approx := True\<rparr> else args)"

definition Redis_Update ::
  "'w RedisLocationStore \<Rightarrow> 'w ctx \<Rightarrow> Location \<Rightarrow> ('w, go_error option) act" where
  "Redis_Update r ctx loc w =
     (case ctx w of
        (Some err, w) \<Rightarrow> Some (Some err, w)
      | (None, w) \<Rightarrow> do {
          let key = rs_keyPrefix r @ DriverID loc;
          (pipe, w) \<leftarrow> rc_Pipeline (rs_client r) w;
          (_, w) \<leftarrow> pipe_HSet pipe ctx key (location_fields loc) w;
          (_, w) \<leftarrow> (if rs_ttl r > 0 then pipe_Expire pipe ctx key (rs_ttl r) w else Some ((), w));
          (_, w) \<leftarrow> pipe_XAdd pipe ctx (xadd_args r loc) w;
          pipe_Exec pipe ctx w
        })"

definition redis_store :: "'w RedisLocationStore \<Rightarrow> 'w LocationStore" where
  "redis_store r = \<lparr>ls_Update = Redis_Update r\<rparr>"

section \<open>The history table\<close>

record location_row =
  lr_id :: nat
  lr_driver_id :: string
  lr_lat :: float64
  lr_long :: float64
  lr_recorded_at :: int

record loc_tables =
  lt_created :: bool
  lt_seq :: nat
  lt_rows :: "location_row list"

definition create_locations :: "loc_tables stmt" where
  "create_locations now t = (Inr 0, t\<lparr>lt_created := True\<rparr>)"

text \<open>A \<open>TIMESTAMPTZ\<close> holds microseconds.\<close>

definition insert_location :: "string \<Rightarrow> float64 \<Rightarrow> float64 \<Rightarrow> time \<Rightarrow> loc_tables stmt" where
  "insert_location driverID lat long recordedAt now t =
     (if \<not> lt_created t then (Inl undefined_table, t)
      else (Inr 1, t\<lparr>lt_seq := Suc (lt_seq t), lt_rows := lt_rows t @
        [\<lparr>lr_id = Suc (lt_seq t), lr_driver_id = driverID, lr_lat = lat, lr_long = long,
          lr_recorded_at = recordedAt div 1000\<rparr>]\<rparr>))"

definition Location_InitSchema :: "('w, loc_tables sqldb) ref \<Rightarrow> 'w ctx \<Rightarrow> ('w, go_error option) act" where
  "Location_InitSchema p ctx w =
     (case ExecContext p ctx create_locations w of
        (Inl e, w) \<Rightarrow> Some (Some e, w) | (Inr _, w) \<Rightarrow> Some (None, w))"

definition Location_Update ::
  "('w, loc_tables sqldb) ref \<Rightarrow> 'w ctx \<Rightarrow> Location \<Rightarrow> ('w, go_error option) act" where
  "Location_Update p ctx loc w =
     (case ExecContext p ctx (insert_location (DriverID loc) (Lat loc) (Long loc) (Timestamp loc)) w of
        (Inl e, w) \<Rightarrow> Some (Some e, w) | (Inr _, w) \<Rightarrow> Some (None, w))"

definition NewPostgresLocationStore :: "('w, loc_tables sqldb) ref \<Rightarrow> 'w LocationStore" where
  "NewPostgresLocationStore p = \<lparr>ls_Update = Location_Update p\<rparr>"

definition NewPostgresLocationStoreWithSchema ::
  "('w, loc_tables sqldb) ref \<Rightarrow> 'w ctx \<Rightarrow> ('w, go_error + 'w LocationStore) act" where
  "NewPostgresLocationStoreWithSchema p ctx w = do {
     (err, w) \<leftarrow> Location_InitSchema p ctx w;
     case err of
       Some e \<Rightarrow> Some (Inl e, w)
     | None \<Rightarrow> Some (Inr (NewPostgresLocationStore p), w)
   }"

section \<open>What the parts promise\<close>

text \<open>The values \<open>NewLocation\<close> lets through, as numbers: the closed interval, and NaN.\<close>

definition within :: "int \<Rightarrow> float64 \<Rightarrow> bool" where
  "within b x \<longleftrightarrow> f64_is_nan x \<or> f64_finite x \<and> \<bar>f64_scaled x\<bar> \<le> b * 2 ^ 1074"

lemma outside_range:
  assumes "f64_finite lo" "f64_finite hi" "f64_scaled lo = - b * 2 ^ 1074" "f64_scaled hi = b * 2 ^ 1074"
  shows "f64_lt x lo \<or> f64_lt hi x \<longleftrightarrow> \<not> within b x"
proof (cases "f64_finite x")
  case True
  then show ?thesis
    using assms f64_finite_not_nan [OF True] by (auto simp: within_def f64_lt_scaled)
next
  case False
  show ?thesis
  proof (cases "f64_is_nan x")
    case True
    then show ?thesis by (simp add: within_def f64_lt_def)
  next
    case nan: False
    with False have inf: "f64_mag x = 0x7FF0000000000000" using f64_cases by (auto simp: f64_is_inf_def)
    have key: "\<bar>f64_key y\<bar> = f64_mag y" for y by (simp add: f64_key_def)
    have "\<bar>f64_key lo\<bar> < 0x7FF0000000000000" "\<bar>f64_key hi\<bar> < 0x7FF0000000000000"
      "\<bar>f64_key x\<bar> = 0x7FF0000000000000"
      using assms(1,2) inf by (simp_all only: key f64_finite_def)
    then have "f64_key x < f64_key lo \<or> f64_key hi < f64_key x" by linarith
    then have "f64_lt x lo \<or> f64_lt hi x"
      using nan f64_finite_not_nan [OF assms(1)] f64_finite_not_nan [OF assms(2)]
      by (auto simp: f64_lt_def)
    with False nan show ?thesis by (simp add: within_def)
  qed
qed

text \<open>
  C40: \<open>NewLocation\<close> accepts exactly the locations with a driver id, a latitude in
  \<open>[-90, 90]\<close> and a longitude in \<open>[-180, 180]\<close>, checks them in that order, and keeps the
  fields as given; infinities are refused, but NaN passes both range tests.
\<close>

theorem NewLocation_exact:
  "NewLocation driverID lat long ts =
     (if driverID = '''' then Inl ErrInvalidDriverID
      else if \<not> within 90 lat then Inl ErrInvalidLatitude
      else if \<not> within 180 long then Inl ErrInvalidLongitude
      else Inr \<lparr>DriverID = driverID, Lat = lat, Long = long, Timestamp = ts\<rparr>)"
  using outside_range [of f64_m90 f64_90 90 lat] outside_range [of f64_m180 f64_180 180 long]
  by (simp add: NewLocation_def f64_consts_scaled)

text \<open>One store after the other, each with its result.\<close>

inductive each_store ::
  "'w ctx \<Rightarrow> Location \<Rightarrow> 'w LocationStore list \<Rightarrow> 'w \<Rightarrow> go_error option list \<Rightarrow> 'w \<Rightarrow> bool" for ctx loc where
  each_none: "each_store ctx loc [] v [] v"
| each_more: "ls_Update s ctx loc v = Some (r, v1) \<Longrightarrow> each_store ctx loc ss v1 rs v2 \<Longrightarrow>
    each_store ctx loc (s # ss) v (r # rs) v2"

inductive_cases each_ConsE: "each_store ctx loc (s # ss) v rs v2"

fun somes :: "'a option list \<Rightarrow> 'a list" where
  "somes [] = []"
| "somes (None # rs) = somes rs"
| "somes (Some x # rs) = x # somes rs"

lemma multi_loop_each:
  "multi_loop ss ctx loc errs v = Some (errs', v') \<Longrightarrow>
    \<exists>rs. each_store ctx loc ss v rs v' \<and> errs' = errs @ somes rs"
proof (induction ss arbitrary: errs v)
  case Nil
  then show ?case by (auto intro: each_none)
next
  case (Cons s ss)
  then obtain r v1 where 1: "ls_Update s ctx loc v = Some (r, v1)"
    and 2: "multi_loop ss ctx loc (case r of Some e \<Rightarrow> errs @ [e] | None \<Rightarrow> errs) v1 = Some (errs', v')"
    by (auto simp: bind_pair_Some_iff)
  from Cons.IH [OF 2] obtain rs where "each_store ctx loc ss v1 rs v'"
    "errs' = (case r of Some e \<Rightarrow> errs @ [e] | None \<Rightarrow> errs) @ somes rs" by blast
  with each_more [OF 1] show ?case
    by (intro exI [of _ "r # rs"]) (auto split: option.splits)
qed

lemma somes_Nil: "somes rs = [] \<longleftrightarrow> (\<forall>r \<in> set rs. r = None)"
  by (induction rs rule: somes.induct) auto

text \<open>
  \<open>MultiLocationStore.Update\<close> gives every store its chance: whatever the earlier ones
  answer, each store is updated once, in order; the result is nil exactly when all of them
  succeeded, and otherwise joins all their errors in order.
\<close>

theorem Multi_Update_tries_all:
  assumes "Multi_Update stores ctx loc w = Some (res, w')"
  shows "\<exists>rs. each_store ctx loc stores w rs w' \<and> length rs = length stores \<and>
    (res = None \<longleftrightarrow> (\<forall>r \<in> set rs. r = None)) \<and>
    (res \<noteq> None \<longrightarrow> res = Some (ErrJoin (somes rs)))"
proof -
  have l: "each_store ctx loc ss v rs v' \<Longrightarrow> length rs = length ss" for ss v rs v'
    by (induction rule: each_store.induct) auto
  from assms obtain errs where 1: "multi_loop stores ctx loc [] w = Some (errs, w')" "res = errors_Join errs"
    by (auto simp: Multi_Update_def bind_pair_Some_iff)
  from multi_loop_each [OF 1(1)] obtain rs where rs: "each_store ctx loc stores w rs w'"
    "errs = somes rs" by auto
  with 1(2) l [OF rs(1)] somes_Nil [of rs] show ?thesis
    by (intro exI [of _ rs]) (auto simp: errors_Join_def)
qed

text \<open>A world for the witnesses: the updates made, and the answers still to give.\<close>

record feed =
  fd_seen :: "Location list"
  fd_sent :: "string list"
  fd_answers :: "go_error option list"

definition feed_store :: "feed LocationStore" where
  "feed_store = \<lparr>ls_Update = (\<lambda>_ loc v. case fd_answers v of
      [] \<Rightarrow> Some (None, v\<lparr>fd_seen := fd_seen v @ [loc]\<rparr>)
    | a # as \<Rightarrow> Some (a, v\<lparr>fd_seen := fd_seen v @ [loc], fd_answers := as\<rparr>))\<rparr>"

definition feed_broadcast :: "string \<Rightarrow> (feed, unit) act" where
  "feed_broadcast data v = Some ((), v\<lparr>fd_sent := fd_sent v @ [data]\<rparr>)"

definition fleet :: Location where
  "fleet = \<lparr>DriverID = ''d1'', Lat = f64_10, Long = f64_10, Timestamp = zero_Time\<rparr>"

theorem Multi_Update_tries_all_witness:
  "\<exists>rs w'. each_store context_Background fleet [feed_store, feed_store]
      \<lparr>fd_seen = [], fd_sent = [], fd_answers = [Some (ErrText ''down'')]\<rparr> rs w' \<and> length rs = 2 \<and>
    fd_seen w' = [fleet, fleet]"
proof -
  let ?w = "\<lparr>fd_seen = [], fd_sent = [], fd_answers = [Some (ErrText ''down'')]\<rparr>"
  have "Multi_Update [feed_store, feed_store] context_Background fleet ?w =
      Some (Some (ErrJoin [ErrText ''down'']), \<lparr>fd_seen = [fleet, fleet], fd_sent = [], fd_answers = []\<rparr>)"
    by (simp add: Multi_Update_def feed_store_def errors_Join_def)
  from Multi_Update_tries_all [OF this] obtain rs where "each_store context_Background fleet [feed_store, feed_store] ?w rs
      \<lparr>fd_seen = [fleet, fleet], fd_sent = [], fd_answers = []\<rparr>" "length rs = length [feed_store, feed_store]" by blast
  then show ?thesis by (intro exI conjI) auto
qed

text \<open>The values \<open>json.Marshal\<close> accepts in a location message.\<close>

lemma payload_refused:
  "json_refused (location_payload loc) = None \<longleftrightarrow> f64_finite (Lat loc) \<and> f64_finite (Long loc) \<and>
     min_json_time \<le> Timestamp loc \<and> Timestamp loc \<le> max_json_time"
  by (simp add: location_payload_def)

text \<open>
  C39: The fan-out publisher stores first. A failed store is reported and nothing is
  broadcast; after a stored location exactly its message is broadcast, once, if it can be
  encoded; if it cannot (a coordinate that is NaN or infinite, a year outside 0 to 9999)
  an error is reported although the location is stored, even with no broadcaster at all.
\<close>

theorem Fanout_stores_first:
  assumes "lp_Publish (fp_storage p) ctx loc w = Some (err, w1)"
  defines "encodable \<equiv> f64_finite (Lat loc) \<and> f64_finite (Long loc) \<and>
     min_json_time \<le> Timestamp loc \<and> Timestamp loc \<le> max_json_time"
  shows "Fanout_Publish render p ctx loc w =
     (if err \<noteq> None then Some (err, w1)
      else if \<not> encodable then Some (json_refused (location_payload loc), w1)
      else (case fp_broadcaster p of None \<Rightarrow> Some (None, w1)
        | Some broadcast \<Rightarrow> map_option (\<lambda>(_, w2). (None, w2)) (broadcast (render (location_payload loc)) w1)))
    \<and> (err = None \<and> \<not> encodable \<longrightarrow> (\<exists>e. Fanout_Publish render p ctx loc w = Some (Some e, w1)))"
proof -
  have enc: "encodable \<longleftrightarrow> json_refused (location_payload loc) = None"
    unfolding encodable_def by (rule payload_refused [symmetric])
  have u: "Fanout_Publish render p ctx loc w =
     (case err of Some err \<Rightarrow> Some (Some err, w1)
      | None \<Rightarrow> (case json_Marshal render (location_payload loc) of Inl err \<Rightarrow> Some (Some err, w1)
        | Inr data \<Rightarrow> (case fp_broadcaster p of None \<Rightarrow> Some (None, w1)
          | Some broadcast \<Rightarrow> broadcast data w1 \<bind> (\<lambda>(_, w). Some (None, w)))))"
    by (simp add: Fanout_Publish_def assms(1))
  have b: "(m \<bind> (\<lambda>(_, w). Some (None, w))) = map_option (\<lambda>(_, w2). (None, w2)) m" for m :: "(unit \<times> 'a) option"
    by (cases m) auto
  show ?thesis
    unfolding u enc json_Marshal_def b
    by (cases err; cases "json_refused (location_payload loc)") (simp_all split: option.splits)
qed

theorem Fanout_stores_first_witness:
  "\<exists>e. Fanout_Publish (\<lambda>_. ''{}'') \<lparr>fp_storage = NewStorePublisher feed_store, fp_broadcaster = None\<rparr>
      context_Background (fleet\<lparr>Lat := f64_nan\<rparr>) \<lparr>fd_seen = [], fd_sent = [], fd_answers = []\<rparr> =
    Some (Some e, \<lparr>fd_seen = [fleet\<lparr>Lat := f64_nan\<rparr>], fd_sent = [], fd_answers = []\<rparr>)"
proof -
  let ?p = "\<lparr>fp_storage = NewStorePublisher feed_store, fp_broadcaster = None\<rparr>"
  have st: "lp_Publish (fp_storage ?p) context_Background (fleet\<lparr>Lat := f64_nan\<rparr>)
      \<lparr>fd_seen = [], fd_sent = [], fd_answers = []\<rparr> =
    Some (None, \<lparr>fd_seen = [fleet\<lparr>Lat := f64_nan\<rparr>], fd_sent = [], fd_answers = []\<rparr>)"
    by (simp add: NewStorePublisher_def StorePublisher_Publish_def feed_store_def)
  have "\<not> f64_finite (Lat (fleet\<lparr>Lat := f64_nan\<rparr>))"
    by (simp add: f64_finite_def f64_nan_def f64_mag_def)
  then show ?thesis
    by (intro Fanout_stores_first [OF st, THEN conjunct2, THEN mp]) simp
qed

section \<open>The Redis pipeline\<close>

text \<open>
  What go-redis documents of a pipeline: a new one is empty, a command is appended to the
  queue and nothing is sent, \<open>Exec\<close> sends the queue as one batch. \<open>queue\<close> and \<open>sent\<close>
  read these off the world.
\<close>

datatype redis_cmd = CHSet string "(string \<times> redis_value) list" | CExpire string duration | CXAdd XAddArgs

locale redis_pipeline =
  fixes client :: "'w RedisPipelineClient" and ctx :: "'w ctx"
    and queue :: "'w \<Rightarrow> redis_cmd list" and sent :: "'w \<Rightarrow> redis_cmd list list"
  assumes start: "rc_Pipeline client v = Some (pipe, v') \<Longrightarrow> queue v' = [] \<and> sent v' = sent v"
    and hset: "rc_Pipeline client x = Some (pipe, x') \<Longrightarrow> pipe_HSet pipe ctx key vals v = Some (u, v') \<Longrightarrow>
      queue v' = queue v @ [CHSet key vals] \<and> sent v' = sent v"
    and expire: "rc_Pipeline client x = Some (pipe, x') \<Longrightarrow> pipe_Expire pipe ctx key d v = Some (u, v') \<Longrightarrow>
      queue v' = queue v @ [CExpire key d] \<and> sent v' = sent v"
    and xadd: "rc_Pipeline client x = Some (pipe, x') \<Longrightarrow> pipe_XAdd pipe ctx args v = Some (u, v') \<Longrightarrow>
      queue v' = queue v @ [CXAdd args] \<and> sent v' = sent v"
    and exec: "rc_Pipeline client x = Some (pipe, x') \<Longrightarrow> pipe_Exec pipe ctx v = Some (e, v') \<Longrightarrow>
      sent v' = sent v @ [queue v]"
    and ctx_silent: "sent (snd (ctx v)) = sent v"
begin

definition batch :: "'w RedisLocationStore \<Rightarrow> Location \<Rightarrow> redis_cmd list" where
  "batch r loc = CHSet (rs_keyPrefix r @ DriverID loc) (location_fields loc) #
     (if rs_ttl r > 0 then [CExpire (rs_keyPrefix r @ DriverID loc) (rs_ttl r)] else []) @
     [CXAdd (xadd_args r loc)]"

lemma Update_sends_batch:
  assumes "rs_client r = client" "Redis_Update r ctx loc v = Some (res, v')"
  shows "(case ctx v of
      (Some e, v1) \<Rightarrow> res = Some e \<and> sent v' = sent v
    | (None, v1) \<Rightarrow> sent v' = sent v @ [batch r loc])"
proof -
  obtain c v1 where c: "ctx v = (c, v1)" by fastforce
  have s1: "sent v1 = sent v" using ctx_silent [of v] by (simp add: c)
  show ?thesis
  proof (cases c)
    case (Some e)
    with assms(2) c s1 show ?thesis by (auto simp: Redis_Update_def)
  next
    case None
    from assms(2) obtain pipe v2 u3 v3 u4 v4 u5 v5
      where p: "rc_Pipeline client v1 = Some (pipe, v2)"
        and h: "pipe_HSet pipe ctx (rs_keyPrefix r @ DriverID loc) (location_fields loc) v2 = Some (u3, v3)"
        and x: "(if rs_ttl r > 0 then pipe_Expire pipe ctx (rs_keyPrefix r @ DriverID loc) (rs_ttl r) v3
          else Some ((), v3)) = Some (u4, v4)"
        and a: "pipe_XAdd pipe ctx (xadd_args r loc) v4 = Some (u5, v5)"
        and e: "pipe_Exec pipe ctx v5 = Some (res, v')"
      by (auto simp: Redis_Update_def c None assms(1) bind_pair_Some_iff Let_def)
    have "queue v4 = CHSet (rs_keyPrefix r @ DriverID loc) (location_fields loc) #
        (if rs_ttl r > 0 then [CExpire (rs_keyPrefix r @ DriverID loc) (rs_ttl r)] else [])"
      and "sent v4 = sent v"
      using start [OF p] hset [OF p h] expire [OF p] x s1 by (auto split: if_splits)
    then have "queue v5 = batch r loc" "sent v5 = sent v"
      using xadd [OF p a] by (simp_all add: batch_def)
    with exec [OF p e] c None show ?thesis by simp
  qed
qed

end

text \<open>
  A client of its own: one pipeline at a time, whose queue and batches are the world, and a
  list of answers of the server.
\<close>

record redis_world =
  rw_queue :: "redis_cmd list"
  rw_sent :: "redis_cmd list list"
  rw_answers :: "go_error option list"

definition queue_pipe :: "redis_world RedisPipeliner" where
  "queue_pipe = \<lparr>pipe_HSet = (\<lambda>_ key vals v. Some ((), v\<lparr>rw_queue := rw_queue v @ [CHSet key vals]\<rparr>)),
     pipe_Expire = (\<lambda>_ key d v. Some ((), v\<lparr>rw_queue := rw_queue v @ [CExpire key d]\<rparr>)),
     pipe_XAdd = (\<lambda>_ args v. Some ((), v\<lparr>rw_queue := rw_queue v @ [CXAdd args]\<rparr>)),
     pipe_Exec = (\<lambda>_ v. Some (case rw_answers v of [] \<Rightarrow> None | a # _ \<Rightarrow> a,
       v\<lparr>rw_queue := [], rw_sent := rw_sent v @ [rw_queue v], rw_answers := tl (rw_answers v)\<rparr>))\<rparr>"

definition queue_client :: "redis_world RedisPipelineClient" where
  "queue_client = \<lparr>rc_Pipeline = (\<lambda>v. Some (queue_pipe, v\<lparr>rw_queue := []\<rparr>))\<rparr>"

interpretation queued: redis_pipeline queue_client context_Background rw_queue rw_sent
  by unfold_locales (auto simp: queue_client_def queue_pipe_def context_Background_def)

text \<open>
  C37: A Redis update sends exactly one batch: the hash of the driver's key set to the
  location, its expiry only when a positive TTL is configured, and the stream entry with
  the same fields, trimmed (approximately) to \<open>maxLen\<close> only when that is positive; with a
  context that is already done nothing is sent and its error comes back.
\<close>

theorem Redis_Update_batch:
  assumes "redis_pipeline client ctx queue sent" "Redis_Update r ctx loc v = Some (res, v')"
    and "r = NewRedisLocationStore client stream ttl maxLen"
  defines "key \<equiv> ''driver:'' @ DriverID loc"
  shows "(case ctx v of
      (Some e, v1) \<Rightarrow> res = Some e \<and> sent v' = sent v
    | (None, v1) \<Rightarrow> sent v' = sent v @
        [[CHSet key (location_fields loc)] @ (if ttl > 0 then [CExpire key ttl] else []) @
         [CXAdd \<lparr>xa_Stream = (if stream = '''' then ''location_events'' else stream),
           xa_Values = location_fields loc, xa_MaxLen = (if maxLen > 0 then maxLen else 0),
           xa_Approx = (maxLen > 0)\<rparr>]])"
proof -
  have "rs_client r = client" by (simp add: assms(3) NewRedisLocationStore_def)
  from redis_pipeline.Update_sends_batch [OF assms(1) this assms(2)] show ?thesis
    unfolding redis_pipeline.batch_def [OF assms(1)] key_def
    by (simp add: assms(3) NewRedisLocationStore_def xadd_args_def Let_def split: prod.splits option.splits)
qed

theorem Redis_Update_batch_witness:
  "\<exists>v'. Redis_Update (NewRedisLocationStore queue_client '''' 0 5) context_Background fleet
      \<lparr>rw_queue = [], rw_sent = [], rw_answers = [Some (ErrText ''READONLY'')]\<rparr> = Some (Some (ErrText ''READONLY''), v') \<and>
    rw_sent v' = [[CHSet ''driver:d1'' (location_fields fleet),
      CXAdd \<lparr>xa_Stream = ''location_events'', xa_Values = location_fields fleet, xa_MaxLen = 5, xa_Approx = True\<rparr>]]"
proof -
  let ?v = "\<lparr>rw_queue = [], rw_sent = [], rw_answers = [Some (ErrText ''READONLY'')]\<rparr>"
  obtain v' where e: "Redis_Update (NewRedisLocationStore queue_client '''' 0 5) context_Background fleet ?v =
      Some (Some (ErrText ''READONLY''), v')"
    by (simp add: Redis_Update_def NewRedisLocationStore_def queue_client_def queue_pipe_def context_Background_def)
  from Redis_Update_batch [OF queued.redis_pipeline_axioms e refl] e show ?thesis
    by (auto simp: context_Background_def fleet_def)
qed

section \<open>The history\<close>

text \<open>
  C38: The history table is append-only. Whatever the connection does, an update leaves the
  table alone or appends one row with the driver, the coordinates and the time in
  microseconds, under the next id of the sequence; it reports success only when it did.
\<close>

theorem Location_Update_appends:
  assumes "sql_client p ctx" "lt_created (db_tables (rd p w))" "Location_Update p ctx loc w = Some (res, w')"
  defines "t \<equiv> db_tables (rd p w)" and "t' \<equiv> db_tables (rd p w')"
  shows "(t' = t \<and> res \<noteq> None) \<or>
    (lt_seq t' = Suc (lt_seq t) \<and> lt_created t' \<and> lt_rows t' = lt_rows t @
      [\<lparr>lr_id = Suc (lt_seq t), lr_driver_id = DriverID loc, lr_lat = Lat loc, lr_long = Long loc,
        lr_recorded_at = Timestamp loc div 1000\<rparr>])"
proof -
  let ?stmt = "insert_location (DriverID loc) (Lat loc) (Long loc) (Timestamp loc)"
  obtain r w1 where e: "ExecContext p ctx ?stmt w = (r, w1)" by fastforce
  with assms(3) have w': "w' = w1" and res: "res \<noteq> None \<longleftrightarrow> (\<exists>e. r = Inl e)"
    by (auto simp: Location_Update_def split: sum.splits)
  from sql_client.exec_effect [OF assms(1) e] show ?thesis
    using assms(2) res by (auto simp: w' t_def t'_def insert_location_def)
qed

definition loc_self :: "(loc_tables sqldb, loc_tables sqldb) ref" where
  "loc_self = \<lparr>rd = (\<lambda>s. s), wr = (\<lambda>s _. s)\<rparr>"

interpretation selfloc: sql_client loc_self context_Background
  by unfold_locales (auto simp: loc_self_def context_Background_def)

theorem Location_Update_appends_witness:
  "\<exists>w'. Location_Update loc_self context_Background fleet
      \<lparr>db_tables = \<lparr>lt_created = True, lt_seq = 4, lt_rows = []\<rparr>, db_seq = 0,
       db_env = (\<lambda>_. (Unacked (ErrText ''reset''), 0)), db_errtext = (\<lambda>_. '''')\<rparr> = Some (Some (ErrText ''reset''), w') \<and>
    map lr_id (lt_rows (db_tables w')) \<in> {[], [5]}"
proof -
  let ?w = "\<lparr>db_tables = \<lparr>lt_created = True, lt_seq = 4, lt_rows = []\<rparr>, db_seq = 0,
       db_env = (\<lambda>_. (Unacked (ErrText ''reset''), 0)), db_errtext = (\<lambda>_. '''')\<rparr>"
  obtain w' where e: "Location_Update loc_self context_Background fleet ?w = Some (Some (ErrText ''reset''), w')"
    by (simp add: Location_Update_def ExecContext_def loc_self_def context_Background_def insert_location_def)
  have "lt_created (db_tables (rd loc_self ?w))" by (simp add: loc_self_def)
  from Location_Update_appends [OF selfloc.sql_client_axioms this e] e show ?thesis
    by (auto simp: loc_self_def)
qed

end
