(* ===== verification/LocationWiring.thy ===== *)
theory LocationWiring
  imports Ingest Config
begin

text \<open>
  cmd/server/location_store.go: the location store of the server, built from the
  configuration, a Redis client and a Postgres pool. The surface of go-redis and of its
  OpenTelemetry plugin that the file uses is a record, a parameter of the definitions.
\<close>

section \<open>The Redis library\<close>

text \<open>
  The fields of \<open>redis.Options\<close> the file sets, and the ones \<open>ParseURL\<close> takes from the URL
  and nobody touches.
\<close>

record ('p, 'c, 'o) redis_Options =
  ro_DialTimeout :: duration
  ro_ReadTimeout :: duration
  ro_WriteTimeout :: duration
  ro_PoolSize :: int
  ro_MinIdleConns :: int
  ro_MaxRetries :: int
  ro_TLSConfig :: "('p, 'c) tls_Config option"
  ro_rest :: 'o

text \<open>A client, and what \<open>InstrumentTracing\<close> and \<open>InstrumentMetrics\<close> do to it.\<close>

record 'w redis_Client =
  cl_Pipeline :: "('w, 'w RedisPipeliner) act"
  cl_Ping :: "'w ctx \<Rightarrow> ('w, go_error option) act"
  cl_Close :: "('w, go_error option) prim"
  cl_InstrumentTracing :: "('w, go_error option) prim"
  cl_InstrumentMetrics :: "('w, go_error option) prim"

record ('w, 'p, 'c, 'o) redis_lib =
  redis_ParseURL :: "string \<Rightarrow> go_error + ('p, 'c, 'o) redis_Options"
  redis_NewClient :: "('p, 'c, 'o) redis_Options \<Rightarrow> ('w, 'w redis_Client) prim"

section \<open>The adapters\<close>

definition redisPipelineAdapter :: "'w RedisPipeliner \<Rightarrow> 'w RedisPipeliner" where
  "redisPipelineAdapter pipe =
     \<lparr>pipe_HSet = (\<lambda>ctx key values. pipe_HSet pipe ctx key values),
      pipe_Expire = (\<lambda>ctx key expiration. pipe_Expire pipe ctx key expiration),
      pipe_XAdd = (\<lambda>ctx a. pipe_XAdd pipe ctx a),
      pipe_Exec = (\<lambda>ctx. pipe_Exec pipe ctx)\<rparr>"

definition redisClientAdapter :: "'w redis_Client \<Rightarrow> 'w RedisPipelineClient" where
  "redisClientAdapter client = \<lparr>rc_Pipeline = (\<lambda>w. do {
     (pipe, w) \<leftarrow> cl_Pipeline client w;
     Some (redisPipelineAdapter pipe, w)
   })\<rparr>"

lemma pipeline_adapter_id: "redisPipelineAdapter pipe = pipe"
  by (simp add: redisPipelineAdapter_def)

lemma client_adapter_id: "rc_Pipeline (redisClientAdapter client) w = cl_Pipeline client w"
  by (cases "cl_Pipeline client w") (auto simp: redisClientAdapter_def pipeline_adapter_id)

section \<open>buildLocationStore\<close>

definition apply_options ::
  "('p, 'c) RedisConfig \<Rightarrow> ('p, 'c, 'o) redis_Options \<Rightarrow> ('p, 'c, 'o) redis_Options" where
  "apply_options cfg opts =
     (let opts = (case cfg_DialTimeout cfg of None \<Rightarrow> opts | Some d \<Rightarrow> opts\<lparr>ro_DialTimeout := d\<rparr>);
          opts = (case cfg_ReadTimeout cfg of None \<Rightarrow> opts | Some d \<Rightarrow> opts\<lparr>ro_ReadTimeout := d\<rparr>);
          opts = (case cfg_WriteTimeout cfg of None \<Rightarrow> opts | Some d \<Rightarrow> opts\<lparr>ro_WriteTimeout := d\<rparr>);
          opts = (case cfg_PoolSize cfg of None \<Rightarrow> opts | Some n \<Rightarrow> opts\<lparr>ro_PoolSize := n\<rparr>);
          opts = (case cfg_MinIdleConns cfg of None \<Rightarrow> opts | Some n \<Rightarrow> opts\<lparr>ro_MinIdleConns := n\<rparr>);
          opts = (case cfg_MaxRetries cfg of None \<Rightarrow> opts | Some n \<Rightarrow> opts\<lparr>ro_MaxRetries := n\<rparr>)
      in case cfg_TLSConfig cfg of None \<Rightarrow> opts | Some t \<Rightarrow> opts\<lparr>ro_TLSConfig := Some t\<rparr>)"

definition instrument_client :: "bool \<Rightarrow> 'w redis_Client \<Rightarrow> ('w, go_error option) prim" where
  "instrument_client enabled client w =
     (if enabled then
        (case cl_InstrumentTracing client w of
           (Some err, w) \<Rightarrow> (Some err, snd (cl_Close client w))
         | (None, w) \<Rightarrow>
             (case cl_InstrumentMetrics client w of
                (Some err, w) \<Rightarrow> (Some err, snd (cl_Close client w))
              | (None, w) \<Rightarrow> (None, w)))
      else (None, w))"

definition ping_context :: "'w runtime \<Rightarrow> 'w ctx option \<Rightarrow> duration \<Rightarrow> ('w, 'w ctx) prim" where
  "ping_context rt ctx timeout w =
     (let pingCtx = (case ctx of None \<Rightarrow> context_Background | Some c \<Rightarrow> c)
      in if timeout > 0 then context_WithTimeout rt pingCtx timeout w else (pingCtx, w))"

text \<open>The function \<open>buildLocationStore\<close> returns to close what it opened.\<close>

definition locations_cleanup ::
  "('w, loc_tables) sql_driver \<Rightarrow> (string \<Rightarrow> 'w \<Rightarrow> 'w) \<Rightarrow> 'w redis_Client \<Rightarrow> ('w, loc_tables sqldb) ref \<Rightarrow> 'w \<Rightarrow> 'w" where
  "locations_cleanup sql log_Printf client db w =
     (let w = (case cl_Close client w of
            (Some err, w) \<Rightarrow> log_Printf (''close redis: '' @ err_Error err) w | (None, w) \<Rightarrow> w)
      in case sql_Close sql db w of
            (Some err, w) \<Rightarrow> log_Printf (''close locations db: '' @ err_Error err) w | (None, w) \<Rightarrow> w)"

text \<open>
  A nil context is replaced for the ping only; with it the statement that creates the table
  panics in package \<open>database/sql\<close>.
\<close>

definition buildLocationStore ::
  "'w runtime \<Rightarrow> ('w, 'p, 'c, 'o) redis_lib \<Rightarrow> ('w, loc_tables) sql_driver \<Rightarrow> ('p, 'c) os_env \<Rightarrow>
   (string \<Rightarrow> 'w \<Rightarrow> 'w) \<Rightarrow> 'w ctx option \<Rightarrow> ('w, go_error + 'w LocationStore \<times> ('w \<Rightarrow> 'w)) act" where
  "buildLocationStore rt redis sql os log_Printf ctx w =
     (case LoadRedis os of
        (_, Some err) \<Rightarrow> Some (Inl err, w)
      | (cfg, None) \<Rightarrow>
         (let databaseURL = strings_TrimSpace (os_Getenv os ''DATABASE_URL'')
          in if databaseURL = '''' then Some (Inl (ErrText ''DATABASE_URL is required''), w)
             else case redis_ParseURL redis (cfg_URL cfg) of
               Inl err \<Rightarrow> Some (Inl err, w)
             | Inr opts \<Rightarrow>
                (let (client, w) = redis_NewClient redis (apply_options cfg opts) w
                 in case instrument_client (cfg_EnableOTel cfg) client w of
                      (Some err, w) \<Rightarrow> Some (Inl err, w)
                    | (None, w) \<Rightarrow> do {
                        let (pingCtx, w) = ping_context rt ctx (cfg_HealthcheckTimeout cfg) w;
                        (err, w) \<leftarrow> cl_Ping client pingCtx w;
                        case err of
                          Some err \<Rightarrow> Some (Inl err, snd (cl_Close client w))
                        | None \<Rightarrow>
                            (case sql_Open sql ''pgx'' databaseURL w of
                               (Inl err, w) \<Rightarrow> Some (Inl err, snd (cl_Close client w))
                             | (Inr db, w) \<Rightarrow>
                                 (case ctx of
                                    None \<Rightarrow> None
                                  | Some ctx \<Rightarrow> do {
                                      (historyStore, w) \<leftarrow> NewPostgresLocationStoreWithSchema db ctx w;
                                      case historyStore of
                                        Inl err \<Rightarrow> Some (Inl err, snd (sql_Close sql db (snd (cl_Close client w))))
                                      | Inr historyStore \<Rightarrow>
                                          let latestStore = redis_store (NewRedisLocationStore
                                                (redisClientAdapter client) (cfg_Stream cfg) (cfg_LocationTTL cfg) (cfg_StreamMaxLen cfg));
                                              store = NewMultiLocationStore [historyStore, latestStore]
                                          in Some (Inr (store, locations_cleanup sql log_Printf client db), w)
                                    }))
                      })))"

section \<open>What it opens and closes\<close>

text \<open>
  The clients of go-redis: \<open>NewClient\<close> makes one, \<open>Close\<close> ends it, everything else only talks
  to the server. \<open>conns\<close> counts what is open, clients and pools; \<open>obs\<close> is what a client has
  nothing to do with.
\<close>

definition made :: "('w, 'p, 'c, 'o) redis_lib \<Rightarrow> 'w redis_Client \<Rightarrow> bool" where
  "made redis client \<longleftrightarrow> (\<exists>opts v. client = fst (redis_NewClient redis opts v))"

definition held :: "('w \<Rightarrow> int) \<Rightarrow> ('w \<Rightarrow> 'h) \<Rightarrow> 'w \<Rightarrow> int \<times> 'h" where
  "held conns obs v = (conns v, obs v)"

locale redis_clients =
  fixes redis :: "('w, 'p, 'c, 'o) redis_lib" and obs :: "'w \<Rightarrow> 'h" and conns :: "'w \<Rightarrow> int"
  assumes new_client: "redis_NewClient redis opts v = (c, v') \<Longrightarrow> held conns obs v' = (conns v + 1, obs v)"
    and close_client: "made redis c \<Longrightarrow> held conns obs (snd (cl_Close c v)) = (conns v - 1, obs v)"
    and ping: "made redis c \<Longrightarrow> cl_Ping c x v = Some (e, v') \<Longrightarrow>
      (\<And>v. held conns obs (snd (x v)) = held conns obs v) \<Longrightarrow> held conns obs v' = held conns obs v"
    and instrument: "made redis c \<Longrightarrow> held conns obs (snd (cl_InstrumentTracing c v)) = held conns obs v"
      "made redis c \<Longrightarrow> held conns obs (snd (cl_InstrumentMetrics c v)) = held conns obs v"
begin

lemma heldD: "held conns obs v' = held conns obs v \<Longrightarrow> conns v' = conns v"
  "held conns obs v' = held conns obs v \<Longrightarrow> obs v' = obs v"
  by (simp_all add: held_def)

lemma instrument_held:
  assumes "made redis c" "instrument_client b c v = (e, v')"
  shows "if e = None then held conns obs v' = held conns obs v
    else held conns obs v' = (conns v - 1, obs v)"
proof -
  obtain e1 v1 where 1: "cl_InstrumentTracing c v = (e1, v1)" by fastforce
  obtain e2 v2 where 2: "cl_InstrumentMetrics c v1 = (e2, v2)" by fastforce
  have h: "held conns obs v1 = held conns obs v" "held conns obs v2 = held conns obs v"
    using instrument [OF assms(1), of v] instrument [OF assms(1), of v1] 1 2 by simp_all
  then show ?thesis
    using assms(2) 1 2 close_client [OF assms(1), of v1] close_client [OF assms(1), of v2]
    by (auto simp: instrument_client_def held_def split: if_splits option.splits)
qed

end

text \<open>The pool of the locations, the clients, and a clock and a context that disturb neither.\<close>

locale location_plant = sql_pool p sql conns + redis_clients redis "rd p" conns
  for p :: "('w, loc_tables sqldb) ref" and rt :: "'w runtime" and redis :: "('w, 'p, 'c, 'o) redis_lib"
    and ctx :: "'w ctx" and sql :: "('w, loc_tables) sql_driver" and conns :: "'w \<Rightarrow> int" +
  assumes quiet: "held conns (rd p) (snd (time_Now rt v)) = held conns (rd p) v"
      "held conns (rd p) (snd (ctx v)) = held conns (rd p) v"
begin

lemma ping_context_held:
  assumes "ping_context rt (Some ctx) d v = (x, v')"
  shows "held conns (rd p) v' = held conns (rd p) v" "held conns (rd p) (snd (x y)) = held conns (rd p) y"
  using assms context_WithTimeout_keeps [where F = "held conns (rd p)" and rt = rt and parent = ctx and d = d and w = v,
      OF _ quiet] quiet
  by (auto simp: ping_context_def split: if_splits)

lemma schema_held:
  assumes "NewPostgresLocationStoreWithSchema p ctx v = Some (r, v')"
  shows "conns v' = conns v" "lt_rows (db_tables (rd p v')) = lt_rows (db_tables (rd p v))"
    "\<forall>s. r = Inr s \<longrightarrow> s = NewPostgresLocationStore p \<and> lt_created (db_tables (rd p v'))"
proof -
  obtain x v1 where x: "ExecContext p ctx create_locations v = (x, v1)" by fastforce
  with assms have v': "v' = v1" and r: "r = (case x of Inl e \<Rightarrow> Inl e | Inr _ \<Rightarrow> Inr (NewPostgresLocationStore p))"
    by (auto simp: NewPostgresLocationStoreWithSchema_def Location_InitSchema_def split: sum.splits)
  have c: "conns (snd (ctx y)) = conns y" "rd p (snd (ctx y)) = rd p y" for y
    using heldD [OF quiet(2) [of y]] by simp_all
  show "conns v' = conns v" using exec_conns [OF x] c v' by simp
  have sc: "sql_client p ctx" by unfold_locales (rule c)
  from sql_client.exec_effect [OF sc x]
  show "lt_rows (db_tables (rd p v')) = lt_rows (db_tables (rd p v))"
    "\<forall>s. r = Inr s \<longrightarrow> s = NewPostgresLocationStore p \<and> lt_created (db_tables (rd p v'))"
    by (auto simp: v' r create_locations_def split: sum.splits)
qed

lemma cleanup_held:
  assumes "made redis c" "\<And>m x. conns (lg m x) = conns x"
  shows "conns (locations_cleanup sql lg c p x) = conns x - 2"
proof -
  obtain e1 v1 where 1: "cl_Close c x = (e1, v1)" by fastforce
  define v2 where "v2 = (case e1 of Some err \<Rightarrow> lg (''close redis: '' @ err_Error err) v1 | None \<Rightarrow> v1)"
  obtain e3 v3 where 3: "sql_Close sql p v2 = (e3, v3)" by fastforce
  have "conns v2 = conns x - 1"
    using close_client [OF assms(1), of x] 1 assms(2) by (cases e1) (simp_all add: v2_def held_def)
  moreover have "conns v3 = conns v2 - 1" using close(1) [of v2] 3 by simp
  moreover have "locations_cleanup sql lg c p x =
      (case e3 of Some err \<Rightarrow> lg (''close locations db: '' @ err_Error err) v3 | None \<Rightarrow> v3)"
    using 1 3 by (simp add: locations_cleanup_def v2_def split: option.splits)
  ultimately show ?thesis using assms(2) by (cases e3) simp_all
qed

lemma store_effect:
  assumes "buildLocationStore rt redis sql os lg (Some ctx) v = Some (res, v')"
  shows "case res of
      Inl e \<Rightarrow> conns v' = conns v \<and> lt_rows (db_tables (rd p v')) = lt_rows (db_tables (rd p v))
    | Inr (s, cleanup) \<Rightarrow> conns v' = conns v + 2 \<and>
        lt_created (db_tables (rd p v')) \<and> lt_rows (db_tables (rd p v')) = lt_rows (db_tables (rd p v)) \<and>
        (\<exists>cfg c. LoadRedis os = (cfg, None) \<and> made redis c \<and> cleanup = locations_cleanup sql lg c p \<and>
          s = NewMultiLocationStore [NewPostgresLocationStore p, redis_store (NewRedisLocationStore
            (redisClientAdapter c) (cfg_Stream cfg) (cfg_LocationTTL cfg) (cfg_StreamMaxLen cfg))])"
proof -
  obtain cfg le where cfg: "LoadRedis os = (cfg, le)" by fastforce
  define dsn where "dsn = strings_TrimSpace (os_Getenv os ''DATABASE_URL'')"
  show ?thesis
  proof (cases "le \<noteq> None \<or> dsn = '''' \<or> (\<exists>e. redis_ParseURL redis (cfg_URL cfg) = Inl e)")
    case True
    with assms cfg have "v' = v \<and> (\<exists>e. res = Inl e)"
      by (auto simp: buildLocationStore_def dsn_def Let_def split: option.split_asm if_split_asm sum.split_asm)
    then show ?thesis by auto
  next
    case False
    then obtain opts where ok: "le = None" "dsn \<noteq> ''''" "redis_ParseURL redis (cfg_URL cfg) = Inr opts"
      by (cases "redis_ParseURL redis (cfg_URL cfg)") auto
    note run = assms [unfolded buildLocationStore_def cfg ok(1), folded dsn_def]
    obtain c v1 where 1: "redis_NewClient redis (apply_options cfg opts) v = (c, v1)" by fastforce
    have made: "made redis c" using 1 unfolding made_def by (metis fst_conv)
    have h1: "held conns (rd p) v1 = (conns v + 1, rd p v)" using new_client [OF 1] .
    obtain ie v2 where 2: "instrument_client (cfg_EnableOTel cfg) c v1 = (ie, v2)" by fastforce
    note i2 = instrument_held [OF made 2]
    show ?thesis
    proof (cases ie)
      case (Some e)
      with run ok 1 2 have "v' = v2" "res = Inl e" by (simp_all add: Let_def dsn_def [symmetric])
      with i2 h1 Some show ?thesis by (simp add: held_def)
    next
      case ie: None
      obtain x v3 where 3: "ping_context rt (Some ctx) (cfg_HealthcheckTimeout cfg) v2 = (x, v3)" by fastforce
      have h3: "held conns (rd p) v3 = (conns v + 1, rd p v)"
        using ping_context_held(1) [OF 3] i2 ie h1 by simp
      from run ok 1 2 ie 3 obtain pe v4 where 4: "cl_Ping c x v3 = Some (pe, v4)"
        by (auto simp: Let_def dsn_def [symmetric] bind_pair_Some_iff)
      have h4: "held conns (rd p) v4 = (conns v + 1, rd p v)"
        using ping [OF made 4] ping_context_held(2) [OF 3] h3 by metis
      show ?thesis
      proof (cases pe)
        case (Some e)
        with run ok 1 2 ie 3 4 have "v' = snd (cl_Close c v4)" "res = Inl e"
          by (simp_all add: Let_def dsn_def [symmetric])
        with close_client [OF made, of v4] h4 show ?thesis by (simp add: held_def)
      next
        case pe: None
        obtain q v5 where 5: "sql_Open sql ''pgx'' dsn v4 = (q, v5)" by fastforce
        show ?thesis
        proof (cases q)
          case (Inl e)
          with run ok 1 2 ie 3 4 pe 5 have "v' = snd (cl_Close c v5)" "res = Inl e"
            by (simp_all add: Let_def dsn_def [symmetric])
          with close_client [OF made, of v5] h4 open_failed [OF 5 [unfolded Inl]] show ?thesis
            by (simp add: held_def)
        next
          case (Inr q')
          note o5 = open_ok [OF 5 [unfolded Inr]]
          have q': "q' = p" using o5 by simp
          from run ok 1 2 ie 3 4 pe 5 Inr q' obtain r v6 where 6: "NewPostgresLocationStoreWithSchema p ctx v5 = Some (r, v6)"
            by (auto simp: Let_def dsn_def [symmetric] bind_pair_Some_iff)
          note s6 = schema_held [OF 6]
          show ?thesis
          proof (cases r)
            case (Inl e)
            with run ok 1 2 ie 3 4 pe 5 Inr q' 6
            have "v' = snd (sql_Close sql p (snd (cl_Close c v6)))" "res = Inl e"
              by (simp_all add: Let_def dsn_def [symmetric])
            with s6(1,2) close [of "snd (cl_Close c v6)"] close_client [OF made, of v6] h4 o5 show ?thesis by (simp add: held_def)
          next
            case r: (Inr s)
            with run ok 1 2 ie 3 4 pe 5 Inr q' 6
            have "v' = v6" "res = Inr (NewMultiLocationStore [s, redis_store (NewRedisLocationStore
              (redisClientAdapter c) (cfg_Stream cfg) (cfg_LocationTTL cfg) (cfg_StreamMaxLen cfg))],
              locations_cleanup sql lg c p)"
              by (simp_all add: Let_def dsn_def [symmetric])
            with s6 r h4 o5 cfg ok(1) made show ?thesis by (auto simp: held_def)
          qed
        qed
      qed
    qed
  qed
qed

end

section \<open>Through the whole pipe\<close>

text \<open>
  A Redis pipeline and a database behind one context, neither of which disturbs the other.
\<close>

locale location_sinks = redis_pipeline client ctx queue sent + sql_client p ctx
  for client :: "'w RedisPipelineClient" and ctx :: "'w ctx" and queue :: "'w \<Rightarrow> redis_cmd list"
    and sent :: "'w \<Rightarrow> redis_cmd list list" and p :: "('w, loc_tables sqldb) ref" +
  assumes sent_wr: "sent (wr p s v) = sent v"
    and pipeline_frame: "rc_Pipeline client v = Some (pipe, v') \<Longrightarrow> rd p v' = rd p v"
    and commands_frame: "rc_Pipeline client x = Some (pipe, x') \<Longrightarrow> pipe_HSet pipe ctx key vals v = Some (u, v') \<Longrightarrow> rd p v' = rd p v"
      "rc_Pipeline client x = Some (pipe, x') \<Longrightarrow> pipe_Expire pipe ctx key d v = Some (u, v') \<Longrightarrow> rd p v' = rd p v"
      "rc_Pipeline client x = Some (pipe, x') \<Longrightarrow> pipe_XAdd pipe ctx args v = Some (u, v') \<Longrightarrow> rd p v' = rd p v"
      "rc_Pipeline client x = Some (pipe, x') \<Longrightarrow> pipe_Exec pipe ctx v = Some (e, v') \<Longrightarrow> rd p v' = rd p v"
begin

lemma Redis_Update_frame:
  assumes "rs_client r = client" "Redis_Update r ctx loc v = Some (res, v')"
  shows "rd p v' = rd p v"
proof -
  obtain c v1 where c: "ctx v = (c, v1)" by fastforce
  show ?thesis
  proof (cases c)
    case (Some e)
    with assms(2) c frame [OF c] show ?thesis by (simp add: Redis_Update_def)
  next
    case None
    with assms c obtain pipe v2 u3 v3 u4 v4 u5 v5 where s:
      "rc_Pipeline client v1 = Some (pipe, v2)"
      "pipe_HSet pipe ctx (rs_keyPrefix r @ DriverID loc) (location_fields loc) v2 = Some (u3, v3)"
      "(if rs_ttl r > 0 then pipe_Expire pipe ctx (rs_keyPrefix r @ DriverID loc) (rs_ttl r) v3
        else Some ((), v3)) = Some (u4, v4)"
      "pipe_XAdd pipe ctx (xadd_args r loc) v4 = Some (u5, v5)" "pipe_Exec pipe ctx v5 = Some (res, v')"
      by (auto simp: Redis_Update_def bind_pair_Some_iff Let_def)
    show ?thesis
      using frame [OF c] pipeline_frame [OF s(1)] commands_frame(1) [OF s(1,2)] commands_frame(2) [OF s(1), of _ _ v3]
        commands_frame(3) [OF s(1,4)] commands_frame(4) [OF s(1,5)] s(3)
      by (auto split: if_splits)
  qed
qed

lemma sent_untouched: "untouched p ctx (\<lambda>v. sent v = q)"
  by (simp add: untouched_def sent_wr ctx_silent)

text \<open>One location through the service: at most one row and one batch, both when it is acknowledged.\<close>

lemma ingest_effect:
  fixes loc :: Location and r :: "'w RedisLocationStore"
  defines "row \<equiv> \<lambda>t. \<lparr>lr_id = Suc (lt_seq t), lr_driver_id = DriverID loc, lr_lat = Lat loc, lr_long = Long loc,
      lr_recorded_at = Timestamp loc div 1000\<rparr>"
  assumes "rs_client r = client" "lt_created (tabs v)"
    and "Ingest (NewIngestService (NewFanoutPublisher render (NewStorePublisher
      (NewMultiLocationStore [NewPostgresLocationStore p, redis_store r])) bc)) ctx loc v = Some (res, v')"
    and bc: "\<And>f d x u x'. bc = Some f \<Longrightarrow> f d x = Some (u, x') \<Longrightarrow> rd p x' = rd p x \<and> sent x' = sent x"
  shows "(lt_rows (tabs v') = lt_rows (tabs v) \<or> lt_rows (tabs v') = lt_rows (tabs v) @ [row (tabs v)]) \<and>
    (sent v' = sent v \<or> sent v' = sent v @ [batch r loc]) \<and>
    (res = None \<longrightarrow> lt_rows (tabs v') = lt_rows (tabs v) @ [row (tabs v)] \<and> sent v' = sent v @ [batch r loc] \<and>
      json_refused (location_payload loc) = None)"
proof -
  let ?stmt = "insert_location (DriverID loc) (Lat loc) (Long loc) (Timestamp loc)"
  obtain r1 v1 where 1: "ExecContext p ctx ?stmt v = (r1, v1)" by fastforce
  define e1 where "e1 = (case r1 of Inl e \<Rightarrow> Some e | Inr _ \<Rightarrow> None)"
  have l1: "ls_Update (NewPostgresLocationStore p) ctx loc v = Some (e1, v1)"
    using 1 by (auto simp: NewPostgresLocationStore_def Location_Update_def e1_def split: sum.splits)
  obtain r2 v2 where 2: "Redis_Update r ctx loc v1 = Some (r2, v2)"
    and res: "res = None \<Longrightarrow> e1 = None \<and> r2 = None \<and> json_refused (location_payload loc) = None"
    and v': "rd p v' = rd p v2" "sent v' = sent v2"
  proof -
    let ?store = "NewMultiLocationStore [NewPostgresLocationStore p, redis_store r]"
    have m: "ls_Update ?store ctx loc v = do {
        (r2, v2) \<leftarrow> Redis_Update r ctx loc v1; Some (errors_Join (somes [e1, r2]), v2) }"
      using l1 by (cases e1; cases "Redis_Update r ctx loc v1")
        (auto simp: NewMultiLocationStore_def Multi_Update_def redis_store_def split: option.split)
    have i: "Fanout_Publish render \<lparr>fp_storage = NewStorePublisher ?store, fp_broadcaster = bc\<rparr> ctx loc v = Some (res, v')"
      using assms(4) by (simp add: Ingest_def NewIngestService_def NewFanoutPublisher_def)
    then obtain r2 v2 where 2: "Redis_Update r ctx loc v1 = Some (r2, v2)"
      by (cases "Redis_Update r ctx loc v1")
        (auto simp: Fanout_Publish_def NewStorePublisher_def StorePublisher_Publish_def m)
    with i have 3: "(case errors_Join (somes [e1, r2]) of Some err \<Rightarrow> Some (Some err, v2)
      | None \<Rightarrow> (case json_Marshal render (location_payload loc) of Inl err \<Rightarrow> Some (Some err, v2)
        | Inr data \<Rightarrow> (case bc of None \<Rightarrow> Some (None, v2)
          | Some broadcast \<Rightarrow> do { (_, w) \<leftarrow> broadcast data v2; Some (None, w) }))) = Some (res, v')"
      by (simp add: Fanout_Publish_def NewStorePublisher_def StorePublisher_Publish_def m
          cong: option.case_cong sum.case_cong)
    from 3 bc have "(res = None \<longrightarrow> e1 = None \<and> r2 = None \<and> json_refused (location_payload loc) = None) \<and>
      rd p v' = rd p v2 \<and> sent v' = sent v2"
      by (cases e1; cases r2) (auto simp: errors_Join_def json_Marshal_def bind_pair_Some_iff split: option.split_asm)
    with 2 that show thesis by blast
  qed
  have s1: "sent v1 = sent v" using exec_untouched [OF 1 sent_untouched [of "sent v"]] by simp
  have t1: "(tabs v1 = tabs v \<and> e1 \<noteq> None) \<or> lt_rows (tabs v1) = lt_rows (tabs v) @ [row (tabs v)]"
    using exec_effect [OF 1] assms(3) by (auto simp: e1_def insert_location_def row_def split: sum.splits)
  have t2: "tabs v' = tabs v1" using Redis_Update_frame [OF assms(2) 2] v'(1) by simp
  have s2: "sent v2 = sent v1 \<and> r2 \<noteq> None \<or> sent v2 = sent v1 @ [batch r loc]"
    using Update_sends_batch [OF assms(2) 2] by (auto split: prod.splits option.splits)
  show ?thesis using s1 t1 s2 res v' unfolding t2 by auto
qed

end

section \<open>A depot\<close>

text \<open>
  A process with one Redis server and one database behind it: the statements and the batches
  each in a field of its own, the number of open clients and pools, a clock.
\<close>

record depot =
  dp_db :: "loc_tables sqldb"
  dp_queue :: "redis_cmd list"
  dp_sent :: "redis_cmd list list"
  dp_conns :: int
  dp_clock :: instant

definition depot_ptr :: "(depot, loc_tables sqldb) ref" where
  "depot_ptr = \<lparr>rd = dp_db, wr = (\<lambda>a w. w\<lparr>dp_db := a\<rparr>)\<rparr>"

definition depot_rt :: "depot runtime" where
  "depot_rt = \<lparr>time_Now = (\<lambda>w. (dp_clock w, w\<lparr>dp_clock := dp_clock w + 1\<rparr>)),
     select_timer = (\<lambda>ctx d w. (True, w\<lparr>dp_clock := dp_clock w + d\<rparr>)), rand_Int63n = (\<lambda>n w. (0, w))\<rparr>"

definition depot_pipe :: "depot RedisPipeliner" where
  "depot_pipe = \<lparr>pipe_HSet = (\<lambda>_ key vals v. Some ((), v\<lparr>dp_queue := dp_queue v @ [CHSet key vals]\<rparr>)),
     pipe_Expire = (\<lambda>_ key d v. Some ((), v\<lparr>dp_queue := dp_queue v @ [CExpire key d]\<rparr>)),
     pipe_XAdd = (\<lambda>_ args v. Some ((), v\<lparr>dp_queue := dp_queue v @ [CXAdd args]\<rparr>)),
     pipe_Exec = (\<lambda>_ v. Some (None, v\<lparr>dp_queue := [], dp_sent := dp_sent v @ [dp_queue v]\<rparr>))\<rparr>"

definition depot_client :: "depot redis_Client" where
  "depot_client = \<lparr>cl_Pipeline = (\<lambda>v. Some (depot_pipe, v\<lparr>dp_queue := []\<rparr>)), cl_Ping = (\<lambda>x v. Some (x v)),
     cl_Close = (\<lambda>v. (None, v\<lparr>dp_conns := dp_conns v - 1\<rparr>)),
     cl_InstrumentTracing = (\<lambda>v. (None, v)), cl_InstrumentMetrics = (\<lambda>v. (None, v))\<rparr>"

definition depot_redis :: "(depot, unit, unit, string) redis_lib" where
  "depot_redis = \<lparr>redis_ParseURL = (\<lambda>url. if strings_HasPrefix url ''redis://''
       then Inr \<lparr>ro_DialTimeout = 5000000000, ro_ReadTimeout = 3000000000, ro_WriteTimeout = 3000000000, ro_PoolSize = 10,
         ro_MinIdleConns = 0, ro_MaxRetries = 3, ro_TLSConfig = None, ro_rest = url\<rparr>
       else Inl (ErrExt ''redis'' ''redis: invalid URL scheme'')),
     redis_NewClient = (\<lambda>opts v. (depot_client, v\<lparr>dp_conns := dp_conns v + 1\<rparr>))\<rparr>"

definition depot_sql :: "(depot, loc_tables) sql_driver" where
  "depot_sql = \<lparr>sql_Open = (\<lambda>d dsn w. if d = ''pgx'' then (Inr depot_ptr, w\<lparr>dp_conns := dp_conns w + 1\<rparr>)
       else (Inl (ErrExt ''sql'' ''unknown driver''), w)),
     sql_Close = (\<lambda>q w. (None, w\<lparr>dp_conns := dp_conns w - 1\<rparr>))\<rparr>"

lemmas depot_defs = depot_ptr_def depot_rt_def depot_pipe_def depot_client_def depot_redis_def depot_sql_def

interpretation depot: location_plant depot_ptr depot_rt depot_redis context_Background depot_sql dp_conns
  by unfold_locales
    ((auto simp: depot_defs held_def made_def context_Background_def split: if_splits)[1]; (metis snd_conv)?)+

interpretation sinks: location_sinks "redisClientAdapter depot_client" context_Background dp_queue dp_sent depot_ptr
  by unfold_locales
    (auto simp: client_adapter_id depot_defs context_Background_def)

definition depot_start :: "(nat \<Rightarrow> fault) \<Rightarrow> depot" where
  "depot_start f = \<lparr>dp_db = \<lparr>db_tables = \<lparr>lt_created = False, lt_seq = 0, lt_rows = []\<rparr>, db_seq = 0,
       db_env = (\<lambda>n. (f n, 0)), db_errtext = (\<lambda>_. ''pq'')\<rparr>,
     dp_queue = [], dp_sent = [], dp_conns = 0, dp_clock = 0\<rparr>"

definition depot_env :: "(unit, unit) os_env" where
  "depot_env = env_of [(''REDIS_URL'', ''redis://r''), (''REDIS_HEALTHCHECK_TIMEOUT'', ''2s''),
     (''REDIS_LOCATION_TTL'', ''0s''), (''REDIS_STREAM_MAXLEN'', ''5''), (''DATABASE_URL'', ''postgres://locations'')]"

definition depot_build :: "depot \<Rightarrow> ((go_error + depot LocationStore \<times> (depot \<Rightarrow> depot)) \<times> depot) option" where
  "depot_build = buildLocationStore depot_rt depot_redis depot_sql depot_env (\<lambda>_ w. w) (Some context_Background)"

text \<open>
  C17: \<open>buildLocationStore\<close> leaves nothing open behind an error, whichever step fails: the
  configuration, the URL, the instrumentation, the ping, the pool or the table. On success one
  Redis client and one pool are open, the returned cleanup closes both, the history table
  exists with the rows it had, and the store writes to the history first and to Redis second,
  with the stream, TTL and length of the configuration.
\<close>

theorem buildLocationStore_owns_its_connections:
  assumes "location_plant p rt redis ctx sql conns"
    and "buildLocationStore rt redis sql os log_Printf (Some ctx) v = Some (res, v')"
  shows "case res of
      Inl e \<Rightarrow> conns v' = conns v \<and> lt_rows (db_tables (rd p v')) = lt_rows (db_tables (rd p v))
    | Inr (store, cleanup) \<Rightarrow> conns v' = conns v + 2 \<and>
        lt_created (db_tables (rd p v')) \<and> lt_rows (db_tables (rd p v')) = lt_rows (db_tables (rd p v)) \<and>
        ((\<forall>m x. conns (log_Printf m x) = conns x) \<longrightarrow> (\<forall>x. conns (cleanup x) = conns x - 2)) \<and>
        (\<exists>cfg c. LoadRedis os = (cfg, None) \<and> made redis c \<and>
          store = NewMultiLocationStore [NewPostgresLocationStore p, redis_store (NewRedisLocationStore
            (redisClientAdapter c) (cfg_Stream cfg) (cfg_LocationTTL cfg) (cfg_StreamMaxLen cfg))])"
  using location_plant.store_effect [OF assms] location_plant.cleanup_held [OF assms(1), of _ log_Printf]
  by (auto split: sum.splits)

lemma depot_builds: "\<exists>store cleanup v'. depot_build (depot_start (\<lambda>_. Fine)) = Some (Inr (store, cleanup), v')"
proof -
  have "case depot_build (depot_start (\<lambda>_. Fine)) of Some (Inr _, _) \<Rightarrow> True | _ \<Rightarrow> False" by code_simp
  then show ?thesis by (auto split: option.splits sum.splits prod.splits)
qed

theorem buildLocationStore_owns_its_connections_witness:
  "\<exists>store cleanup v'. depot_build (depot_start (\<lambda>_. Fine)) = Some (Inr (store, cleanup), v') \<and>
    dp_conns v' = 2 \<and> dp_conns (cleanup v') = 0"
proof -
  from depot_builds obtain store cleanup v'
    where b: "depot_build (depot_start (\<lambda>_. Fine)) = Some (Inr (store, cleanup), v')" by blast
  from buildLocationStore_owns_its_connections [OF depot.location_plant_axioms b [unfolded depot_build_def]] b
  show ?thesis by (auto simp: depot_start_def)
qed

text \<open>
  C18: A driver's location through the whole pipe (ingest service, fan-out publisher, history
  and Redis), whatever the connections do: the history gains at most one row and Redis at most
  one batch; when the service reports success both have exactly the location, and the location
  could be encoded for the broadcast.
\<close>

theorem ingest_reaches_both_stores:
  fixes loc :: Location and client :: "'w RedisPipelineClient"
  assumes "location_sinks client ctx queue sent p" "r = NewRedisLocationStore client stream ttl maxLen"
    and "lt_created (db_tables (rd p v))"
    and "Ingest (NewIngestService (NewFanoutPublisher render (NewStorePublisher
      (NewMultiLocationStore [NewPostgresLocationStore p, redis_store r])) None)) ctx loc v = Some (res, v')"
  shows "\<exists>batch row. hd batch = CHSet (''driver:'' @ DriverID loc) (location_fields loc) \<and> lr_driver_id row = DriverID loc \<and>
    lr_lat row = Lat loc \<and> lr_long row = Long loc \<and> lr_recorded_at row = Timestamp loc div 1000 \<and>
    lt_rows (db_tables (rd p v')) \<in> {lt_rows (db_tables (rd p v)), lt_rows (db_tables (rd p v)) @ [row]} \<and>
    sent v' \<in> {sent v, sent v @ [batch]} \<and>
    (res = None \<longrightarrow> lt_rows (db_tables (rd p v')) = lt_rows (db_tables (rd p v)) @ [row] \<and> sent v' = sent v @ [batch] \<and>
      f64_finite (Lat loc) \<and> f64_finite (Long loc))"
proof -
  have rp: "redis_pipeline client ctx queue sent" using assms(1) by (simp add: location_sinks_def)
  have c: "rs_client r = client" and k: "rs_keyPrefix r = ''driver:''" by (simp_all add: assms(2) NewRedisLocationStore_def)
  from location_sinks.ingest_effect [OF assms(1) c assms(3,4)]
  show ?thesis
    by (intro exI [of _ "redis_pipeline.batch r loc"]
        exI [of _ "\<lparr>lr_id = Suc (lt_seq (db_tables (rd p v))), lr_driver_id = DriverID loc, lr_lat = Lat loc,
          lr_long = Long loc, lr_recorded_at = Timestamp loc div 1000\<rparr>"])
      (auto simp: payload_refused redis_pipeline.batch_def [OF rp] k)
qed

theorem ingest_reaches_both_stores_witness:
  "\<exists>v'. Ingest (NewIngestService (NewFanoutPublisher (\<lambda>_. ''{}'') (NewStorePublisher (NewMultiLocationStore
      [NewPostgresLocationStore depot_ptr, redis_store (NewRedisLocationStore (redisClientAdapter depot_client) '''' 0 5)])) None))
      context_Background fleet ((depot_start (\<lambda>_. Fine))\<lparr>dp_db := \<lparr>db_tables = \<lparr>lt_created = True, lt_seq = 0, lt_rows = []\<rparr>,
        db_seq = 0, db_env = (\<lambda>_. (Fine, 0)), db_errtext = (\<lambda>_. '''')\<rparr>\<rparr>) = Some (None, v') \<and>
    length (lt_rows (db_tables (dp_db v'))) = 1 \<and> length (dp_sent v') = 1"
proof -
  let ?v = "(depot_start (\<lambda>_. Fine))\<lparr>dp_db := \<lparr>db_tables = \<lparr>lt_created = True, lt_seq = 0, lt_rows = []\<rparr>,
        db_seq = 0, db_env = (\<lambda>_. (Fine, 0)), db_errtext = (\<lambda>_. '''')\<rparr>\<rparr>"
  let ?r = "NewRedisLocationStore (redisClientAdapter depot_client) '''' 0 5"
  let ?svc = "NewIngestService (NewFanoutPublisher (\<lambda>_. ''{}'') (NewStorePublisher (NewMultiLocationStore
      [NewPostgresLocationStore depot_ptr, redis_store ?r])) None)"
  have "case Ingest ?svc context_Background fleet ?v of Some (None, _) \<Rightarrow> True | _ \<Rightarrow> False" by code_simp
  then obtain v' where i: "Ingest ?svc context_Background fleet ?v = Some (None, v')"
    by (auto split: option.splits prod.splits)
  have "lt_created (db_tables (rd depot_ptr ?v))" by (simp add: depot_ptr_def)
  from ingest_reaches_both_stores [OF sinks.location_sinks_axioms refl this i] i
  show ?thesis by (auto simp: depot_ptr_def depot_start_def)
qed

end
