(* ===== verification/GrpcAdapters.thy ===== *)
theory GrpcAdapters
  imports OrderSvc Ingest
begin

text \<open>
  Package internal/adapters/grpc: the order handler with its mapping of errors to status
  codes, and the handler that drains a stream of driver locations into the ingest service.
\<close>

section \<open>The order handler\<close>

record CreateOrderRequest =
  req_UserId :: string
  req_Amount :: float64
  req_IdempotencyKey :: string

record CreateOrderResponse =
  resp_OrderId :: string
  resp_Status :: string
  resp_Message :: string

definition status_Error :: "string \<Rightarrow> string \<Rightarrow> go_error" where
  "status_Error code msg = ErrStatus code msg"

definition mapOrderError :: "go_error \<Rightarrow> go_error" where
  "mapOrderError err =
     (if errors_Is err context_Canceled then status_Error ''Canceled'' (err_Error err)
      else if errors_Is err context_DeadlineExceeded then status_Error ''DeadlineExceeded'' (err_Error err)
      else if errors_Is err ErrIdempotencyKeyRequired then status_Error ''InvalidArgument'' (err_Error err)
      else if errors_Is err ErrIdempotencyConflict then status_Error ''FailedPrecondition'' (err_Error err)
      else if strings_Contains (strings_ToLower (err_Error err)) ''payment failed''
        then status_Error ''FailedPrecondition'' (err_Error err)
      else status_Error ''Internal'' (err_Error err))"

text \<open>The adapter only needs the method \<open>CreateOrder\<close> of the service.\<close>

type_synonym 'w OrderServiceI = "'w ctx \<Rightarrow> string \<Rightarrow> float64 \<Rightarrow> string \<Rightarrow> ('w, string \<times> go_error option) act"

definition OrderServer_CreateOrder ::
  "'w OrderServiceI \<Rightarrow> 'w ctx \<Rightarrow> CreateOrderRequest \<Rightarrow> ('w, go_error + CreateOrderResponse) act" where
  "OrderServer_CreateOrder service ctx req w = do {
     ((orderID, err), w) \<leftarrow> service ctx (req_UserId req) (req_Amount req) (req_IdempotencyKey req) w;
     case err of
       Some err \<Rightarrow> Some (Inl (mapOrderError err), w)
     | None \<Rightarrow> Some (Inr \<lparr>resp_OrderId = orderID, resp_Status = ''ok'', resp_Message = ''order created''\<rparr>, w)
   }"

section \<open>The location stream\<close>

text \<open>
  A protobuf timestamp is its seconds and nanoseconds; \<open>valid\<close> and \<open>as_time\<close> are
  \<open>IsValid\<close> and \<open>AsTime\<close> of the protobuf library.
\<close>

type_synonym pb_timestamp = "int \<times> int"

record LocationMsg =
  msg_DriverId :: string
  msg_Latitude :: float64
  msg_Longitude :: float64
  msg_Timestamp :: "pb_timestamp option"

record pb_library =
  pb_IsValid :: "pb_timestamp \<Rightarrow> bool"
  pb_AsTime :: "pb_timestamp \<Rightarrow> time"

record 'w UpdateLocationStream =
  st_Recv :: "('w, go_error + LocationMsg) act"
  st_SendAndClose :: "string \<Rightarrow> ('w, go_error option) act"
  st_Context :: "'w ctx"

definition io_EOF :: go_error where
  "io_EOF = ErrVar ''io.EOF'' ''EOF''"

text \<open>A message as a location, or the status the handler ends with.\<close>

definition decode_update :: "pb_library \<Rightarrow> LocationMsg \<Rightarrow> go_error + Location" where
  "decode_update pb msg =
     (case (case msg_Timestamp msg of
              None \<Rightarrow> Inr zero_Time
            | Some t \<Rightarrow>
                if \<not> pb_IsValid pb t then Inl (status_Error ''InvalidArgument'' ''invalid timestamp'')
                else Inr (pb_AsTime pb t)) of
        Inl e \<Rightarrow> Inl e
      | Inr ts \<Rightarrow>
          (case NewLocation (msg_DriverId msg) (msg_Latitude msg) (msg_Longitude msg) ts of
             Inl err \<Rightarrow> Inl (status_Error ''InvalidArgument'' (''invalid location: '' @ err_Error err))
           | Inr loc \<Rightarrow> Inr loc))"

partial_function (option) UpdateLocation ::
  "pb_library \<Rightarrow> 'w IngestService \<Rightarrow> 'w UpdateLocationStream \<Rightarrow> 'w \<Rightarrow> (go_error option \<times> 'w) option" where
  "UpdateLocation pb ingest stream w = do {
     (msg, w) \<leftarrow> st_Recv stream w;
     case msg of
       Inl err \<Rightarrow>
         if err = io_EOF then st_SendAndClose stream ''ok'' w
         else Some (Some (status_Error ''Internal'' (''recv: '' @ err_Error err)), w)
     | Inr msg \<Rightarrow>
         (case decode_update pb msg of
            Inl err \<Rightarrow> Some (Some err, w)
          | Inr loc \<Rightarrow> do {
              (err, w) \<leftarrow> Ingest ingest (st_Context stream) loc w;
              case err of
                Some err \<Rightarrow> Some (Some (status_Error ''Internal'' (''ingest: '' @ err_Error err)), w)
              | None \<Rightarrow> UpdateLocation pb ingest stream w
            })
   }"

declare UpdateLocation.simps [code]

section \<open>What the order handler answers\<close>

lemma mapOrderError_status: "\<exists>code. mapOrderError err = ErrStatus code (err_Error err)"
  by (auto simp: mapOrderError_def status_Error_def)

lemmas go_error_vars = ErrIdempotencyKeyRequired_def ErrIdempotencyConflict_def context_Canceled_def
  context_DeadlineExceeded_def ErrAlreadyCharged_def ErrNotCharged_def ErrAlreadyRefunded_def ErrCircuitOpen_def

text \<open>
  C21: The answers of the order endpoint follow the saga: a request without a key gets
  \<open>InvalidArgument\<close>; a rejected start gets \<open>FailedPrecondition\<close> when the key is held by a
  different request; a placed order, or the replay of one, gets the order id with status
  \<open>ok\<close>; every other outcome gets an error status whose message is the text of the service's
  error. There are no other answers.
\<close>

theorem CreateOrder_answers:
  assumes "OrderServer_CreateOrder (CreateOrder (spy ctx s)) c req (w, tr) = Some (res, (w', tr'))"
  shows "(if req_IdempotencyKey req = '''' then
      res = Inl (ErrStatus ''InvalidArgument'' ''idempotency key required'') \<and> tr' = tr
    else \<exists>orderID driverID evs out.
      tr' = tr @ evs \<and>
      saga_outcome (req_UserId req) (req_Amount req) (req_IdempotencyKey req) orderID driverID
        (filter is_call evs) (stored_status evs) out \<and>
      (case snd out of
         None \<Rightarrow> res = Inr \<lparr>resp_OrderId = fst out, resp_Status = ''ok'', resp_Message = ''order created''\<rparr>
       | Some e \<Rightarrow> \<exists>code. res = Inl (ErrStatus code (err_Error e)) \<and>
           (e = ErrIdempotencyConflict \<longrightarrow> code = ''FailedPrecondition'')))"
proof -
  from assms obtain out where c: "CreateOrder (spy ctx s) c (req_UserId req) (req_Amount req)
      (req_IdempotencyKey req) (w, tr) = Some (out, (w', tr'))"
    and res: "res = (case snd out of Some err \<Rightarrow> Inl (mapOrderError err)
      | None \<Rightarrow> Inr \<lparr>resp_OrderId = fst out, resp_Status = ''ok'', resp_Message = ''order created''\<rparr>)"
    by (auto simp: OrderServer_CreateOrder_def elim!: bind_SomeE split: option.split_asm)
  have m: "mapOrderError ErrIdempotencyConflict = ErrStatus ''FailedPrecondition'' (err_Error ErrIdempotencyConflict)"
    by (simp add: mapOrderError_def status_Error_def go_error_vars)
  show ?thesis
  proof (cases "req_IdempotencyKey req = ''''")
    case True
    with c have "out = ('''', Some ErrIdempotencyKeyRequired)" "tr' = tr" by (auto simp: CreateOrder_def)
    with True res show ?thesis by (simp add: mapOrderError_def status_Error_def go_error_vars)
  next
    case False
    from CreateOrder_log [OF c False] obtain orderID driverID evs where
      o: "tr' = tr @ evs" "saga_outcome (req_UserId req) (req_Amount req) (req_IdempotencyKey req) orderID driverID
        (filter is_call evs) (stored_status evs) out" by blast
    have "case snd out of
         None \<Rightarrow> res = Inr \<lparr>resp_OrderId = fst out, resp_Status = ''ok'', resp_Message = ''order created''\<rparr>
       | Some e \<Rightarrow> \<exists>code. res = Inl (ErrStatus code (err_Error e)) \<and>
           (e = ErrIdempotencyConflict \<longrightarrow> code = ''FailedPrecondition'')"
      using mapOrderError_status m res by (auto split: option.splits)
    with o show ?thesis unfolding if_not_P [OF False] by blast
  qed
qed

theorem CreateOrder_answers_witness:
  "\<exists>w' tr'. OrderServer_CreateOrder (CreateOrder (spy context_Background (pg_service db_self fixed_id)))
      context_Background \<lparr>req_UserId = ''u1'', req_Amount = f64_10, req_IdempotencyKey = ''k1''\<rparr>
      (db_with ready (\<lambda>_. Fine), []) =
    Some (Inr \<lparr>resp_OrderId = ''o1'', resp_Status = ''ok'', resp_Message = ''order created''\<rparr>, (w', tr')) \<and>
    (\<exists>o' d out. snd out = None \<and> saga_outcome ''u1'' f64_10 ''k1'' o' d (filter is_call tr') (stored_status tr') out)"
proof -
  let ?s = "pg_service db_self fixed_id" and ?v = "db_with ready (\<lambda>_. Fine)"
  let ?req = "\<lparr>req_UserId = ''u1'', req_Amount = f64_10, req_IdempotencyKey = ''k1''\<rparr>"
  from self_placed obtain w'
    where r: "CreateOrder ?s context_Background ''u1'' f64_10 ''k1'' ?v = Some ((''o1'', None), w')" by blast
  obtain tr' where "CreateOrder (spy context_Background ?s) context_Background ''u1'' f64_10 ''k1'' (?v, []) =
      Some ((''o1'', None), (w', tr'))"
    using CreateOrder_spy [of context_Background ?s context_Background "''u1''" f64_10 "''k1''" ?v "[]"]
    by (auto simp: r)
  then have e: "OrderServer_CreateOrder (CreateOrder (spy context_Background ?s)) context_Background ?req (?v, []) =
      Some (Inr \<lparr>resp_OrderId = ''o1'', resp_Status = ''ok'', resp_Message = ''order created''\<rparr>, (w', tr'))"
    by (simp add: OrderServer_CreateOrder_def)
  from CreateOrder_answers [OF e] have "\<exists>o' d out. snd out = None \<and>
      saga_outcome ''u1'' f64_10 ''k1'' o' d (filter is_call tr') (stored_status tr') out"
    by (auto split: option.split_asm)
  with e show ?thesis by blast
qed

text \<open>
  The branch for \<open>payment failed\<close> is not reached by the payment errors of this
  repository: a charge that fails because the order is already charged, because the
  breaker is open or because of a database error without that phrase is answered with
  \<open>Internal\<close>, not with \<open>FailedPrecondition\<close>.
\<close>

theorem payment_errors_are_Internal:
  "mapOrderError ErrAlreadyCharged = ErrStatus ''Internal'' ''order already charged'' \<and>
   mapOrderError ErrNotCharged = ErrStatus ''Internal'' ''order not charged'' \<and>
   mapOrderError ErrCircuitOpen = ErrStatus ''Internal'' ''circuit breaker open'' \<and>
   mapOrderError (ErrText ''order id required'') = ErrStatus ''Internal'' ''order id required''"
  by (intro conjI; code_simp)

section \<open>The stream handler and its client\<close>

text \<open>
  What the handler relies on: \<open>Recv\<close> hands out the pending messages in order and then
  \<open>io.EOF\<close>; ingesting and closing leave the pending messages alone. \<open>seen\<close> is the log of the
  calls of \<open>Ingest\<close> with their results.
\<close>

locale update_stream =
  fixes ingest :: "'w IngestService" and stream :: "'w UpdateLocationStream"
    and pending :: "'w \<Rightarrow> LocationMsg list" and seen :: "'w \<Rightarrow> (Location \<times> go_error option) list"
  assumes recv_msg: "pending v = m # ms \<Longrightarrow>
      \<exists>v'. st_Recv stream v = Some (Inr m, v') \<and> pending v' = ms \<and> seen v' = seen v"
    and recv_eof: "pending v = [] \<Longrightarrow> \<exists>v'. st_Recv stream v = Some (Inl io_EOF, v') \<and> seen v' = seen v"
    and ingest: "\<exists>r v'. Ingest ingest (st_Context stream) loc v = Some (r, v') \<and>
      pending v' = pending v \<and> seen v' = seen v @ [(loc, r)]"
    and close: "\<exists>r v'. st_SendAndClose stream ack v = Some (r, v') \<and> seen v' = seen v"

text \<open>
  The three ways a stream ends: all messages ingested and acknowledged, stopped at the first
  message that cannot be decoded, or at the first location the service refuses.
\<close>

inductive stream_outcome ::
  "pb_library \<Rightarrow> go_error option \<Rightarrow> LocationMsg list \<Rightarrow> (Location \<times> go_error option) list \<Rightarrow> go_error option \<Rightarrow> bool"
  for pb ack where
  closed: "stream_outcome pb ack [] [] ack"
| undecodable: "decode_update pb m = Inl e \<Longrightarrow> stream_outcome pb ack (m # ms) [] (Some e)"
| refused: "decode_update pb m = Inr loc \<Longrightarrow> stream_outcome pb ack (m # ms) [(loc, Some e)]
    (Some (ErrStatus ''Internal'' (''ingest: '' @ err_Error e)))"
| ingested: "decode_update pb m = Inr loc \<Longrightarrow> stream_outcome pb ack ms log res \<Longrightarrow>
    stream_outcome pb ack (m # ms) ((loc, None) # log) res"

context update_stream begin

lemma UpdateLocation_run:
  "pending v = ms \<Longrightarrow> \<exists>res v' log ack. UpdateLocation pb ingest stream v = Some (res, v') \<and>
     seen v' = seen v @ log \<and> stream_outcome pb ack ms log res \<and>
     (\<exists>x y. st_SendAndClose stream ''ok'' x = Some (ack, y))"
proof (induction ms arbitrary: v)
  case Nil
  from recv_eof [OF Nil] obtain v1 where r: "st_Recv stream v = Some (Inl io_EOF, v1)" "seen v1 = seen v" by blast
  from close [of "''ok''" v1] obtain ack v2 where
    "st_SendAndClose stream ''ok'' v1 = Some (ack, v2)" "seen v2 = seen v1" by blast
  with r show ?case
    by (intro exI [of _ ack] exI [of _ v2] exI [of _ "[]"])
      (auto simp: UpdateLocation.simps [of pb ingest stream v] intro: closed)
next
  case (Cons m ms)
  from recv_msg [OF Cons.prems] obtain v1 where
    r: "st_Recv stream v = Some (Inr m, v1)" "pending v1 = ms" "seen v1 = seen v" by blast
  from close [of "''ok''" v1] obtain ack0 y where ack0: "st_SendAndClose stream ''ok'' v1 = Some (ack0, y)" by blast
  show ?case
  proof (cases "decode_update pb m")
    case (Inl e)
    with r ack0 show ?thesis
      by (intro exI [of _ "Some e"] exI [of _ v1] exI [of _ "[]"] exI [of _ ack0])
        (auto simp: UpdateLocation.simps [of pb ingest stream v] intro: undecodable)
  next
    case (Inr loc)
    from ingest [of loc v1] obtain e v2 where
      i: "Ingest ingest (st_Context stream) loc v1 = Some (e, v2)" "pending v2 = ms" "seen v2 = seen v @ [(loc, e)]"
      using r by auto
    show ?thesis
    proof (cases e)
      case (Some err)
      have "UpdateLocation pb ingest stream v =
          Some (Some (ErrStatus ''Internal'' (''ingest: '' @ err_Error err)), v2)"
        by (simp add: UpdateLocation.simps [of pb ingest stream v] r Inr i Some status_Error_def)
      with i Some ack0 refused [OF Inr] show ?thesis by blast
    next
      case None
      from Cons.IH [OF i(2)] obtain res v' log ack where
        h: "UpdateLocation pb ingest stream v2 = Some (res, v')" "seen v' = seen v2 @ log"
        "stream_outcome pb ack ms log res" "\<exists>x y. st_SendAndClose stream ''ok'' x = Some (ack, y)" by blast
      have "UpdateLocation pb ingest stream v = Some (res, v')"
        using h(1) by (simp add: UpdateLocation.simps [of pb ingest stream v] r Inr i None)
      moreover have "seen v' = seen v @ ((loc, None) # log)" using h(2) i None by simp
      ultimately show ?thesis using ingested [OF Inr h(3)] h(4) by blast
    qed
  qed
qed

end

text \<open>A client and a store of its own: the messages to come and the feed of updates.\<close>

record driver_world =
  dw_pending :: "LocationMsg list"
  dw_seen :: "(Location \<times> go_error option) list"
  dw_down :: "string list"

definition dw_answer :: "driver_world \<Rightarrow> Location \<Rightarrow> go_error option" where
  "dw_answer v loc = (if DriverID loc \<in> set (dw_down v) then Some (ErrText ''store down'') else None)"

definition dw_store :: "driver_world LocationStore" where
  "dw_store = \<lparr>ls_Update = (\<lambda>_ loc v. Some (dw_answer v loc,
     v\<lparr>dw_seen := dw_seen v @ [(loc, dw_answer v loc)]\<rparr>))\<rparr>"

definition dw_ingest :: "driver_world IngestService" where
  "dw_ingest = NewIngestService (NewStorePublisher dw_store)"

definition dw_stream :: "driver_world UpdateLocationStream" where
  "dw_stream = \<lparr>st_Recv = (\<lambda>v. case dw_pending v of
        [] \<Rightarrow> Some (Inl io_EOF, v) | m # ms \<Rightarrow> Some (Inr m, v\<lparr>dw_pending := ms\<rparr>)),
     st_SendAndClose = (\<lambda>_ v. Some (None, v)), st_Context = context_Background\<rparr>"

interpretation dw: update_stream dw_ingest dw_stream dw_pending dw_seen
  by unfold_locales (auto simp: dw_ingest_def dw_stream_def dw_store_def Ingest_def NewIngestService_def
      NewStorePublisher_def StorePublisher_Publish_def)

text \<open>
  C22: \<open>UpdateLocation\<close> always ends, for every list of messages a client sends: it ingests
  the locations in the order they arrived, each once, up to the first message that is
  invalid or the first location the service refuses, whose status it returns; only when
  all were accepted it acknowledges with \<open>ok\<close> and returns the result of that.
\<close>

theorem UpdateLocation_ingests_in_order:
  assumes "update_stream ingest stream pending seen" "pending w = msgs"
  shows "\<exists>res w' log ack. UpdateLocation pb ingest stream w = Some (res, w') \<and> seen w' = seen w @ log \<and>
    stream_outcome pb ack msgs log res \<and> (\<exists>x y. st_SendAndClose stream ''ok'' x = Some (ack, y))"
  using update_stream.UpdateLocation_run [OF assms] .

definition pb_plain :: pb_library where
  "pb_plain = \<lparr>pb_IsValid = (\<lambda>(s, n). 0 \<le> n \<and> n < 1000000000), pb_AsTime = (\<lambda>(s, n). s * 1000000000 + n)\<rparr>"

definition msg_at :: "string \<Rightarrow> int \<Rightarrow> LocationMsg" where
  "msg_at d n = \<lparr>msg_DriverId = d, msg_Latitude = f64_10, msg_Longitude = f64_10, msg_Timestamp = Some (5, n)\<rparr>"

theorem UpdateLocation_ingests_in_order_witness:
  "\<exists>res w' log. UpdateLocation pb_plain dw_ingest dw_stream
      \<lparr>dw_pending = [msg_at ''a'' 0, msg_at ''b'' (-1), msg_at ''c'' 0], dw_seen = [], dw_down = []\<rparr> = Some (res, w') \<and>
    dw_seen w' = log \<and> (\<exists>ack. stream_outcome pb_plain ack [msg_at ''a'' 0, msg_at ''b'' (-1), msg_at ''c'' 0] log res)"
proof -
  let ?w = "\<lparr>dw_pending = [msg_at ''a'' 0, msg_at ''b'' (-1), msg_at ''c'' 0], dw_seen = [], dw_down = []\<rparr>"
  have "dw_pending ?w = [msg_at ''a'' 0, msg_at ''b'' (-1), msg_at ''c'' 0]" by simp
  from UpdateLocation_ingests_in_order [OF dw.update_stream_axioms this, of pb_plain] show ?thesis by auto
qed

end
