(* ===== verification/Metrics.thy ===== *)
theory Metrics
  imports FloatArith
begin

text \<open>
  Package internal/observability: the counters per method with their spans, the rate-limit
  waits, the shutdown mark and the snapshot the HTTP endpoint shows. The map of the methods
  is a list of its entries, in the order a range over it happens to take.
\<close>

section \<open>The counters\<close>

record methodStats =
  ms_count :: int
  ms_errors :: int
  ms_inFlight :: int
  ms_totalLatency :: duration
  ms_maxLatency :: duration
  ms_lastLatency :: duration

record lifecycleStats =
  lc_shutdownAt :: instant
  lc_inflight :: int

record Metrics =
  m_start :: instant
  m_methods :: "(string \<times> methodStats) list"
  m_rateLimitWaits :: int
  m_rateLimitWait :: duration
  m_lifecycle :: lifecycleStats

definition new_stats :: methodStats where
  "new_stats = \<lparr>ms_count = 0, ms_errors = 0, ms_inFlight = 0, ms_totalLatency = 0,
     ms_maxLatency = 0, ms_lastLatency = 0\<rparr>"

definition new_metrics :: "instant \<Rightarrow> Metrics" where
  "new_metrics now = \<lparr>m_start = now, m_methods = [], m_rateLimitWaits = 0, m_rateLimitWait = 0,
     m_lifecycle = \<lparr>lc_shutdownAt = 0, lc_inflight = 0\<rparr>\<rparr>"

definition ensureMethod :: "string \<Rightarrow> Metrics \<Rightarrow> Metrics" where
  "ensureMethod method m =
     (case map_of (m_methods m) method of
        Some stats \<Rightarrow> m
      | None \<Rightarrow> m\<lparr>m_methods := (method, new_stats) # m_methods m\<rparr>)"

text \<open>Writing through the pointer \<open>ensureMethod\<close> returns.\<close>

definition on_method :: "string \<Rightarrow> (methodStats \<Rightarrow> methodStats) \<Rightarrow> Metrics \<Rightarrow> Metrics" where
  "on_method method f m =
     m\<lparr>m_methods := map (\<lambda>(k, s). (k, if k = method then f s else s)) (m_methods m)\<rparr>"

text \<open>The critical sections of \<open>Start\<close>, \<open>finish\<close>, \<open>AddRateLimitWait\<close> and \<open>MarkShutdown\<close>.\<close>

definition metrics_begin :: "string \<Rightarrow> Metrics \<Rightarrow> Metrics" where
  "metrics_begin method m =
     on_method method (\<lambda>s. s\<lparr>ms_inFlight := wrap64 (ms_inFlight s + 1)\<rparr>) (ensureMethod method m)"

definition metrics_finish :: "string \<Rightarrow> duration \<Rightarrow> bool \<Rightarrow> Metrics \<Rightarrow> Metrics" where
  "metrics_finish method dur failed m =
     on_method method (\<lambda>s.
       let s = s\<lparr>ms_inFlight := wrap64 (ms_inFlight s - 1)\<rparr>;
           s = s\<lparr>ms_count := wrap64 (ms_count s + 1)\<rparr>;
           s = (if failed then s\<lparr>ms_errors := wrap64 (ms_errors s + 1)\<rparr> else s);
           s = s\<lparr>ms_totalLatency := wrap64 (ms_totalLatency s + dur)\<rparr>;
           s = (if dur > ms_maxLatency s then s\<lparr>ms_maxLatency := dur\<rparr> else s)
       in s\<lparr>ms_lastLatency := dur\<rparr>) (ensureMethod method m)"

definition metrics_wait :: "duration \<Rightarrow> Metrics \<Rightarrow> Metrics" where
  "metrics_wait d m = m\<lparr>m_rateLimitWaits := wrap64 (m_rateLimitWaits m + 1),
     m_rateLimitWait := wrap64 (m_rateLimitWait m + d)\<rparr>"

definition metrics_shutdown :: "instant \<Rightarrow> int \<Rightarrow> Metrics \<Rightarrow> Metrics" where
  "metrics_shutdown now inflight m = m\<lparr>m_lifecycle := \<lparr>lc_shutdownAt = now, lc_inflight = inflight\<rparr>\<rparr>"

section \<open>The methods\<close>

text \<open>A nil \<open>*Metrics\<close> is \<^const>\<open>None\<close>; so is the \<open>metrics\<close> field of an empty span.\<close>

record 'w CallSpan =
  sp_metrics :: "('w, Metrics) ref option"
  sp_method :: string
  sp_start :: instant

definition empty_span :: "'w CallSpan" where
  "empty_span = \<lparr>sp_metrics = None, sp_method = '''', sp_start = 0\<rparr>"

definition NewMetrics :: "'w runtime \<Rightarrow> ('w, Metrics) ref \<Rightarrow> ('w, ('w, Metrics) ref) prim" where
  "NewMetrics rt ptr w = (let (now, w) = time_Now rt w in (ptr, wr ptr (new_metrics now) w))"

definition Metrics_Start :: "'w runtime \<Rightarrow> ('w, Metrics) ref option \<Rightarrow> string \<Rightarrow> ('w, 'w CallSpan) prim" where
  "Metrics_Start rt m method w =
     (case m of
        None \<Rightarrow> (empty_span, w)
      | Some p \<Rightarrow>
          let w = wr p (metrics_begin method (rd p w)) w;
              (now, w) = time_Now rt w
          in (\<lparr>sp_metrics = Some p, sp_method = method, sp_start = now\<rparr>, w))"

definition CallSpan_End :: "'w runtime \<Rightarrow> 'w CallSpan option \<Rightarrow> go_error option \<Rightarrow> 'w \<Rightarrow> 'w" where
  "CallSpan_End rt s err w =
     (case s of
        None \<Rightarrow> w
      | Some s \<Rightarrow>
          (case sp_metrics s of
             None \<Rightarrow> w
           | Some p \<Rightarrow>
               let (now, w) = time_Now rt w;
                   dur = time_Sub now (sp_start s)
               in wr p (metrics_finish (sp_method s) dur (err \<noteq> None) (rd p w)) w))"

definition AddRateLimitWait :: "('w, Metrics) ref option \<Rightarrow> duration \<Rightarrow> 'w \<Rightarrow> 'w" where
  "AddRateLimitWait m d w =
     (case m of
        None \<Rightarrow> w
      | Some p \<Rightarrow> if d \<le> 0 then w else wr p (metrics_wait d (rd p w)) w)"

definition MarkShutdown :: "'w runtime \<Rightarrow> ('w, Metrics) ref option \<Rightarrow> int \<Rightarrow> 'w \<Rightarrow> 'w" where
  "MarkShutdown rt m inflight w =
     (case m of
        None \<Rightarrow> w
      | Some p \<Rightarrow> let (now, w) = time_Now rt w in wr p (metrics_shutdown now inflight (rd p w)) w)"

section \<open>The snapshot\<close>

record MethodSnapshot =
  Count :: int
  Errors :: int
  InFlight :: int
  AvgLatencyMs :: float64
  MaxLatencyMs :: float64
  LastLatencyMs :: float64

record LifecycleSnapshot =
  ShutdownAt :: instant
  InFlightAtShutdown :: int

record Snapshot =
  UptimeSec :: int
  TotalRequests :: int
  TotalErrors :: int
  TotalInFlight :: int
  RateLimitWaits :: int
  RateLimitWaitMs :: int
  Lifecycle :: "LifecycleSnapshot option"
  Methods :: "(string \<times> MethodSnapshot) list"

definition Milliseconds :: "duration \<Rightarrow> int" where
  "Milliseconds d = d sdiv 1000000"

definition Seconds :: "duration \<Rightarrow> float64" where
  "Seconds d = f64_add (f64_of_int (d sdiv 1000000000))
     (f64_div (f64_of_int (d smod 1000000000)) (f64_of_int 1000000000))"

definition method_snapshot :: "methodStats \<Rightarrow> MethodSnapshot" where
  "method_snapshot stats =
     (let avg = (if ms_count stats > 0
            then f64_div (f64_of_int (Milliseconds (ms_totalLatency stats))) (f64_of_int (ms_count stats))
            else 0)
      in \<lparr>Count = ms_count stats, Errors = ms_errors stats, InFlight = ms_inFlight stats,
          AvgLatencyMs = avg, MaxLatencyMs = f64_of_int (Milliseconds (ms_maxLatency stats)),
          LastLatencyMs = f64_of_int (Milliseconds (ms_lastLatency stats))\<rparr>)"

definition empty_snapshot :: Snapshot where
  "empty_snapshot = \<lparr>UptimeSec = 0, TotalRequests = 0, TotalErrors = 0, TotalInFlight = 0,
     RateLimitWaits = 0, RateLimitWaitMs = 0, Lifecycle = None, Methods = []\<rparr>"

text \<open>The body of the loop over the methods.\<close>

definition add_method :: "string \<times> methodStats \<Rightarrow> Snapshot \<Rightarrow> Snapshot" where
  "add_method entry snap =
     (case entry of (method, stats) \<Rightarrow>
        snap\<lparr>Methods := Methods snap @ [(method, method_snapshot stats)],
          TotalRequests := wrap64 (TotalRequests snap + ms_count stats),
          TotalErrors := wrap64 (TotalErrors snap + ms_errors stats),
          TotalInFlight := wrap64 (TotalInFlight snap + ms_inFlight stats)\<rparr>)"

definition snapshot_at :: "instant \<Rightarrow> Metrics \<Rightarrow> Snapshot" where
  "snapshot_at now m =
     (let snap = empty_snapshot
            \<lparr>UptimeSec := f64_to_int (Seconds (time_Sub now (m_start m))),
             RateLimitWaits := m_rateLimitWaits m,
             RateLimitWaitMs := m_rateLimitWait m sdiv 1000000\<rparr>;
          snap = fold add_method (m_methods m) snap
      in if lc_shutdownAt (m_lifecycle m) \<noteq> 0
         then snap\<lparr>Lifecycle := Some \<lparr>ShutdownAt = lc_shutdownAt (m_lifecycle m),
           InFlightAtShutdown = lc_inflight (m_lifecycle m)\<rparr>\<rparr>
         else snap)"

definition Metrics_Snapshot :: "'w runtime \<Rightarrow> ('w, Metrics) ref option \<Rightarrow> ('w, Snapshot) prim" where
  "Metrics_Snapshot rt m w =
     (case m of
        None \<Rightarrow> (empty_snapshot, w)
      | Some p \<Rightarrow> let (now, w) = time_Now rt w in (snapshot_at now (rd p w), w))"

text \<open>The HTTP handler: the snapshot as JSON; \<open>encode\<close> is the encoder of \<open>encoding/json\<close>.\<close>

definition metrics_Handler ::
  "'w runtime \<Rightarrow> (Snapshot \<Rightarrow> string) \<Rightarrow> ('w, Metrics) ref option \<Rightarrow> ('w, (string \<times> string) list \<times> string) prim" where
  "metrics_Handler rt encode m w =
     (let (snap, w) = Metrics_Snapshot rt m w
      in (([(''Content-Type'', ''application/json'')], encode snap), w))"

section \<open>The counters count\<close>

datatype metrics_event = MStart string | MFinish string duration bool

fun metrics_step :: "metrics_event \<Rightarrow> Metrics \<Rightarrow> Metrics" where
  "metrics_step (MStart k) m = metrics_begin k m"
| "metrics_step (MFinish k d failed) m = metrics_finish k d failed m"

fun ev_method :: "metrics_event \<Rightarrow> string" where
  "ev_method (MStart k) = k"
| "ev_method (MFinish k d failed) = k"

text \<open>What the history of a method's events says its counters are.\<close>

fun starts :: "metrics_event list \<Rightarrow> int" where
  "starts [] = 0"
| "starts (MStart k # es) = starts es + 1"
| "starts (MFinish k d failed # es) = starts es"

fun durations :: "metrics_event list \<Rightarrow> duration list" where
  "durations [] = []"
| "durations (MStart k # es) = durations es"
| "durations (MFinish k d failed # es) = d # durations es"

fun failures :: "metrics_event list \<Rightarrow> int" where
  "failures [] = 0"
| "failures (MStart k # es) = failures es"
| "failures (MFinish k d failed # es) = failures es + (if failed then 1 else 0)"

definition history_stats :: "metrics_event list \<Rightarrow> methodStats" where
  "history_stats es =
     (let ds = durations es
      in \<lparr>ms_count = wrap64 (int (length ds)), ms_errors = wrap64 (failures es),
          ms_inFlight = wrap64 (starts es - int (length ds)),
          ms_totalLatency = wrap64 (sum_list ds), ms_maxLatency = Max (insert 0 (set ds)),
          ms_lastLatency = (if ds = [] then 0 else last ds)\<rparr>)"

lemma history_append:
  "starts (es @ fs) = starts es + starts fs" "failures (es @ fs) = failures es + failures fs"
  "durations (es @ fs) = durations es @ durations fs"
  by (induction es rule: starts.induct) auto

lemma wrap64_diff: "wrap64 (wrap64 x - y) = wrap64 (x - y)"
  using wrap64_add_wrap64 [of x "- y"] by simp

lemma map_of_on_method: "map_of (m_methods (on_method k f m)) q =
    (if q = k then map_option f (map_of (m_methods m) q) else map_of (m_methods m) q)"
proof -
  have "map_of (map (\<lambda>(a, s). (a, if a = k then f s else s)) ms) q =
      (if q = k then map_option f (map_of ms q) else map_of ms q)" for ms
    by (induction ms) auto
  then show ?thesis by (simp add: on_method_def)
qed

lemma map_of_ensure: "map_of (m_methods (ensureMethod k m)) q =
    (if q = k \<and> map_of (m_methods m) k = None then Some new_stats else map_of (m_methods m) q)"
  by (auto simp: ensureMethod_def split: option.splits)

lemma wrap64_add_wrap64': "wrap64 (y + wrap64 x) = wrap64 (y + x)"
  using wrap64_add_wrap64 [of x y] by (simp add: add.commute)

lemmas wrap64_simps = wrap64_add_wrap64 wrap64_add_wrap64' wrap64_diff

lemma Max_insert_zero: "Max (insert 0 (set (ds @ [d]))) = max (Max (insert 0 (set ds))) (d :: int)"
proof -
  have "insert 0 (set (ds @ [d])) = insert d (insert 0 (set ds))" by auto
  then show ?thesis using Max_insert [of "insert 0 (set ds)" d] by (simp add: max.commute)
qed

lemma history_start: "history_stats (es @ [MStart k]) =
    (history_stats es)\<lparr>ms_inFlight := wrap64 (ms_inFlight (history_stats es) + 1)\<rparr>"
  by (simp add: history_stats_def history_append Let_def wrap64_simps algebra_simps)

lemma history_finish: "history_stats (es @ [MFinish k d failed]) =
    (let s = history_stats es
     in \<lparr>ms_count = wrap64 (ms_count s + 1), ms_errors = (if failed then wrap64 (ms_errors s + 1) else ms_errors s),
         ms_inFlight = wrap64 (ms_inFlight s - 1), ms_totalLatency = wrap64 (ms_totalLatency s + d),
         ms_maxLatency = max (ms_maxLatency s) d, ms_lastLatency = d\<rparr>)"
  unfolding history_stats_def Let_def history_append starts.simps failures.simps durations.simps
  by (simp add: Max_insert_zero del: set_append) (simp add: wrap64_simps algebra_simps)

lemma history_Nil: "history_stats [] = new_stats"
  by (simp add: history_stats_def new_stats_def)

definition events_of :: "string \<Rightarrow> metrics_event list \<Rightarrow> metrics_event list" where
  "events_of k es = filter (\<lambda>e. ev_method e = k) es"

lemma metrics_history:
  "map_of (m_methods (fold metrics_step es (new_metrics t))) k =
     (if events_of k es = [] then None else Some (history_stats (events_of k es)))"
proof (induction es rule: rev_induct)
  case Nil
  show ?case by (simp add: events_of_def new_metrics_def)
next
  case (snoc e es)
  let ?m = "fold metrics_step es (new_metrics t)"
  show ?case
  proof (cases "ev_method e = k")
    case False
    then have "map_of (m_methods (metrics_step e ?m)) k = map_of (m_methods ?m) k"
      by (cases e) (auto simp: metrics_begin_def metrics_finish_def map_of_on_method map_of_ensure)
    with False snoc show ?thesis by (simp add: events_of_def)
  next
    case True
    have h: "map_of (m_methods (ensureMethod k ?m)) k = Some (history_stats (events_of k es))"
      using snoc by (auto simp: map_of_ensure history_Nil)
    have ev: "events_of k (es @ [e]) = events_of k es @ [e]" using True by (simp add: events_of_def)
    show ?thesis
    proof (cases e)
      case (MStart k')
      with True h show ?thesis
        unfolding ev by (simp add: metrics_begin_def map_of_on_method history_start)
    next
      case (MFinish k' d failed)
      with True h show ?thesis
        unfolding ev by (simp add: metrics_finish_def map_of_on_method history_finish Let_def max_def)
    qed
  qed
qed

section \<open>The totals\<close>

text \<open>The sum of a counter over the methods, before any wrap-around.\<close>

definition total :: "(methodStats \<Rightarrow> int) \<Rightarrow> (string \<times> methodStats) list \<Rightarrow> int" where
  "total f ms = sum_list (map (f \<circ> snd) ms)"

lemma total_simps [simp]: "total f [] = 0" "total f ((k, s) # ms) = f s + total f ms"
  by (simp_all add: total_def)

lemma snapshot_totals:
  assumes "in64 (TotalRequests s)" "in64 (TotalErrors s)" "in64 (TotalInFlight s)"
  shows "TotalRequests (fold add_method ms s) = wrap64 (TotalRequests s + total ms_count ms) \<and>
    TotalErrors (fold add_method ms s) = wrap64 (TotalErrors s + total ms_errors ms) \<and>
    TotalInFlight (fold add_method ms s) = wrap64 (TotalInFlight s + total ms_inFlight ms) \<and>
    Methods (fold add_method ms s) = Methods s @ map (\<lambda>(k, st). (k, method_snapshot st)) ms"
  using assms
proof (induction ms arbitrary: s)
  case (Cons e ms)
  obtain k st where e: "e = (k, st)" by fastforce
  let ?s = "add_method e s"
  have "in64 (TotalRequests ?s)" "in64 (TotalErrors ?s)" "in64 (TotalInFlight ?s)"
    by (simp_all add: e add_method_def)
  from Cons.IH [OF this] show ?case
    by (simp add: e add_method_def wrap64_simps ac_simps)
qed (simp add: wrap64_id)

lemma total_on_method:
  assumes "distinct (map fst (m_methods m))" "map_of (m_methods m) k = Some s"
  shows "total f (m_methods (on_method k g m)) = total f (m_methods m) + (f (g s) - f s)"
proof -
  have same: "k \<notin> fst ` set ms \<Longrightarrow> map (\<lambda>(a, s). (a, if a = k then g s else s)) ms = ms" for ms
    by (induction ms) auto
  have "distinct (map fst ms) \<Longrightarrow> map_of ms k = Some s \<Longrightarrow>
      total f (map (\<lambda>(a, s). (a, if a = k then g s else s)) ms) = total f ms + (f (g s) - f s)" for ms
    by (induction ms) (auto simp: same)
  with assms show ?thesis by (simp add: on_method_def)
qed

lemma keys_on_method: "map fst (m_methods (on_method k f m)) = map fst (m_methods m)"
  by (auto simp: on_method_def comp_def split_def)

lemma ensure_total:
  "f new_stats = 0 \<Longrightarrow> total f (m_methods (ensureMethod k m)) = total f (m_methods m)"
  "distinct (map fst (m_methods m)) \<Longrightarrow> distinct (map fst (m_methods (ensureMethod k m)))"
  "\<exists>s. map_of (m_methods (ensureMethod k m)) k = Some s"
  by (auto simp: ensureMethod_def map_of_eq_None_iff split: option.splits)

lemma metrics_keys: "distinct (map fst (m_methods (fold metrics_step es (new_metrics t))))"
proof (induction es rule: rev_induct)
  case (snoc e es)
  then show ?case
    by (cases e) (simp_all add: metrics_begin_def metrics_finish_def keys_on_method ensure_total(2))
qed (simp add: new_metrics_def)

text \<open>One event changes the sum of a counter as it changes the counter, up to wrap-around.\<close>

lemma step_total:
  assumes "distinct (map fst (m_methods m))" "f new_stats = 0" "\<And>s. wrap64 (f (g s)) = wrap64 (f s + d)"
  shows "wrap64 (total f (m_methods (on_method k g (ensureMethod k m)))) = wrap64 (total f (m_methods m) + d)"
proof -
  obtain s where s: "map_of (m_methods (ensureMethod k m)) k = Some s" using ensure_total(3) by blast
  let ?t = "total f (m_methods m)"
  have "total f (m_methods (on_method k g (ensureMethod k m))) = ?t + (f (g s) - f s)"
    using total_on_method [OF ensure_total(2) [OF assms(1)] s, of f g] ensure_total(1) [of f, OF assms(2), of k m] by simp
  also have "?t + (f (g s) - f s) = f (g s) + (?t - f s)" by simp
  also have "wrap64 \<dots> = wrap64 (wrap64 (f (g s)) + (?t - f s))" by (simp only: wrap64_add_wrap64)
  also have "\<dots> = wrap64 (f s + d + (?t - f s))" unfolding assms(3) wrap64_add_wrap64 ..
  also have "f s + d + (?t - f s) = ?t + d" by simp
  finally show ?thesis .
qed

lemma metrics_totals:
  fixes es :: "metrics_event list" and t :: instant
  defines "n \<equiv> int (length (durations es))"
  defines "m \<equiv> fold metrics_step es (new_metrics t)"
  shows "wrap64 (total ms_count (m_methods m)) = wrap64 n \<and>
    wrap64 (total ms_errors (m_methods m)) = wrap64 (failures es) \<and>
    wrap64 (total ms_inFlight (m_methods m)) = wrap64 (starts es - n)"
  unfolding n_def m_def
proof (induction es rule: rev_induct)
  case Nil
  show ?case by (simp add: new_metrics_def)
next
  case (snoc e es)
  let ?m = "fold metrics_step es (new_metrics t)"
  note st = step_total [OF metrics_keys [of es t], of _ _ _ "ev_method e"]
  have w: "wrap64 (a + d) = wrap64 (b + d)" if "wrap64 a = wrap64 b" for a b d
    using wrap64_add_wrap64 [of a d] wrap64_add_wrap64 [of b d] that by simp
  let ?n = "int (length (durations es))"
  from snoc have ih: "wrap64 (total ms_count (m_methods ?m)) = wrap64 ?n"
    "wrap64 (total ms_errors (m_methods ?m)) = wrap64 (failures es)"
    "wrap64 (total ms_inFlight (m_methods ?m)) = wrap64 (starts es - ?n)" by auto
  show ?case
  proof (cases e)
    case (MStart k)
    with ih(1,2) w [OF ih(3), of 1] show ?thesis
      using st [of ms_count _ 0] st [of ms_errors _ 0] st [of ms_inFlight _ 1]
      by (simp add: metrics_begin_def history_append new_stats_def wrap64_simps algebra_simps)
  next
    case (MFinish k d failed)
    with w [OF ih(1), of 1] w [OF ih(2), of "if failed then 1 else 0"] w [OF ih(3), of "- 1"] show ?thesis
      using st [of ms_count _ 1] st [of ms_errors _ "if failed then 1 else 0"] st [of ms_inFlight _ "- 1"]
      by (simp add: metrics_finish_def history_append new_stats_def wrap64_simps Let_def algebra_simps)
  qed
qed

lemma snapshot_at_totals:
  "TotalRequests (snapshot_at now m) = wrap64 (total ms_count (m_methods m)) \<and>
   TotalErrors (snapshot_at now m) = wrap64 (total ms_errors (m_methods m)) \<and>
   TotalInFlight (snapshot_at now m) = wrap64 (total ms_inFlight (m_methods m)) \<and>
   Methods (snapshot_at now m) = map (\<lambda>(k, st). (k, method_snapshot st)) (m_methods m)"
  using snapshot_totals [of "empty_snapshot\<lparr>UptimeSec := f64_to_int (Seconds (time_Sub now (m_start m))),
      RateLimitWaits := m_rateLimitWaits m, RateLimitWaitMs := m_rateLimitWait m sdiv 1000000\<rparr>" "m_methods m"]
  by (simp add: snapshot_at_def Let_def empty_snapshot_def in64_def)

lemma snapshot_method:
  "map_of (Methods (snapshot_at now m)) k = map_option method_snapshot (map_of (m_methods m) k)"
proof -
  have "map_of (map (\<lambda>(k, st). (k, method_snapshot st)) ms) k = map_option method_snapshot (map_of ms k)" for ms
    by (induction ms) auto
  then show ?thesis using snapshot_at_totals [of now m] by simp
qed

section \<open>What the metrics show\<close>

text \<open>
  C28: The snapshot tells the history. After any sequence of calls started and finished, in
  any overlap, the totals are the numbers of calls finished, failed and still running, and
  the entry of a method is computed from the calls of that method alone (counts, sum,
  maximum and last of the durations), whatever the order of the map; a method without a
  call has no entry. Counters wrap around at 64 bits.
\<close>

theorem Snapshot_tells_history:
  fixes es :: "metrics_event list" and now t :: instant
  defines "snap \<equiv> snapshot_at now (fold metrics_step es (new_metrics t))"
  shows "TotalRequests snap = wrap64 (int (length (durations es))) \<and>
    TotalErrors snap = wrap64 (failures es) \<and>
    TotalInFlight snap = wrap64 (starts es - int (length (durations es))) \<and>
    map_of (Methods snap) = (\<lambda>k. if events_of k es = [] then None
      else Some (method_snapshot (history_stats (events_of k es)))) \<and>
    distinct (map fst (Methods snap))"
proof -
  let ?m = "fold metrics_step es (new_metrics t)"
  have "map fst (Methods snap) = map fst (m_methods ?m)"
    using snapshot_at_totals [of now ?m] by (simp add: snap_def comp_def split_def)
  then have "distinct (map fst (Methods snap))" using metrics_keys [of es t] by simp
  moreover have "map_of (Methods snap) = (\<lambda>k. if events_of k es = [] then None
      else Some (method_snapshot (history_stats (events_of k es))))"
    by (simp add: snap_def snapshot_method metrics_history fun_eq_iff)
  ultimately show ?thesis
    using snapshot_at_totals [of now ?m] metrics_totals [of es t] by (simp add: snap_def)
qed

text \<open>
  The averages shown are not below the maxima. \<open>AvgLatencyMs\<close> divides the summed
  milliseconds, \<open>MaxLatencyMs\<close> cuts the maximum to whole milliseconds: two calls of 1.9 ms
  are shown with a maximum of 1 ms and an average of 1.5 ms.
\<close>

theorem average_above_maximum:
  fixes now t :: instant
  defines "es \<equiv> [MStart ''m'', MFinish ''m'' 1900000 False, MStart ''m'', MFinish ''m'' 1900000 False]"
  shows "case map_of (Methods (snapshot_at now (fold metrics_step es (new_metrics t)))) ''m'' of
    None \<Rightarrow> False
  | Some s \<Rightarrow> f64_lt (MaxLatencyMs s) (AvgLatencyMs s) \<and> MaxLatencyMs s = f64_of_int 1 \<and>
      AvgLatencyMs s = 0x3FF8000000000000"
proof -
  have one: "f64_of_int 1 = 0x3FF0000000000000" unfolding f64_of_int_def by code_simp
  have avg: "f64_div (f64_of_int 3) (f64_of_int 2) = 0x3FF8000000000000"
  proof -
    have "f64_of_quot 3 2 = 0x3FF8000000000000" by code_simp
    then show ?thesis by (simp add: f64_div_ints)
  qed
  have s: "map_of (m_methods (fold metrics_step es (new_metrics t))) ''m'' =
      Some \<lparr>ms_count = 2, ms_errors = 0, ms_inFlight = 0, ms_totalLatency = 3800000,
        ms_maxLatency = 1900000, ms_lastLatency = 1900000\<rparr>"
    unfolding metrics_history by (simp add: es_def events_of_def history_stats_def wrap64_id in64_def)
  show ?thesis
    by (simp add: snapshot_method s method_snapshot_def Milliseconds_def one avg f64_defs signed_divide_int_def)
qed

end
