(* ===== verification/Middleware.thy ===== *)
theory Middleware
  imports GrpcAdapters Metrics
begin

text \<open>
  cmd/server/grpc_middleware.go: the interceptors that limit the rate of calls and of
  streamed messages and measure every call, and the generated code of api/proto that hands
  calls to them and to the services.
\<close>

section \<open>The interceptors\<close>

text \<open>The interface \<open>rateLimiter\<close>: its method \<open>Wait\<close>.\<close>

type_synonym 'w rateLimiter = "'w ctx \<Rightarrow> ('w, go_error option) act"

text \<open>What the handlers use of a \<open>grpc.ServerStream\<close>; \<open>RecvMsg\<close> fills a message or fails.\<close>

record ('w, 'm, 'a) ServerStream =
  ss_Context :: "'w ctx"
  ss_RecvMsg :: "('w, go_error + 'm) act"
  ss_SendMsg :: "'a \<Rightarrow> ('w, go_error option) act"

record ('w, 'm, 'a) rateLimitedServerStream =
  rl_stream :: "('w, 'm, 'a) ServerStream"
  rl_limiter :: "'w rateLimiter option"

definition rateLimited_RecvMsg :: "('w, 'm, 'a) rateLimitedServerStream \<Rightarrow> ('w, go_error + 'm) act" where
  "rateLimited_RecvMsg s w =
     (case rl_limiter s of
        None \<Rightarrow> ss_RecvMsg (rl_stream s) w
      | Some wait \<Rightarrow> do {
          (err, w) \<leftarrow> wait (ss_Context (rl_stream s)) w;
          case err of Some err \<Rightarrow> Some (Inl err, w) | None \<Rightarrow> ss_RecvMsg (rl_stream s) w
        })"

text \<open>The embedded stream gives all other methods.\<close>

definition limited_stream :: "('w, 'm, 'a) rateLimitedServerStream \<Rightarrow> ('w, 'm, 'a) ServerStream" where
  "limited_stream s = (rl_stream s)\<lparr>ss_RecvMsg := rateLimited_RecvMsg s\<rparr>"

definition shouldTrackMethod :: "string \<Rightarrow> bool" where
  "shouldTrackMethod method \<longleftrightarrow> method \<noteq> '''' \<and> \<not> strings_HasPrefix method ''/grpc.reflection.''"

text \<open>The span the interceptors open before, and the clock reading of the line they log after a failure.\<close>

definition open_span :: "'w runtime \<Rightarrow> ('w, Metrics) ref option \<Rightarrow> string \<Rightarrow> ('w, 'w CallSpan) prim" where
  "open_span rt metrics method w =
     (let (start, w) = time_Now rt w
      in if metrics \<noteq> None \<and> shouldTrackMethod method then Metrics_Start rt metrics method w
         else (empty_span, w))"

definition log_failure :: "'w runtime \<Rightarrow> string \<Rightarrow> go_error option \<Rightarrow> 'w \<Rightarrow> 'w" where
  "log_failure rt method err w =
     (if err \<noteq> None \<and> shouldTrackMethod method then snd (time_Now rt w) else w)"

type_synonym ('w, 'q, 'r) UnaryHandler = "'w ctx \<Rightarrow> 'q \<Rightarrow> ('w, 'r option \<times> go_error option) act"
type_synonym ('w, 'q, 'r) UnaryInterceptor =
  "'w ctx \<Rightarrow> 'q \<Rightarrow> string \<Rightarrow> ('w, 'q, 'r) UnaryHandler \<Rightarrow> ('w, 'r option \<times> go_error option) act"

definition rateLimitUnaryInterceptor ::
  "'w runtime \<Rightarrow> 'w rateLimiter option \<Rightarrow> ('w, Metrics) ref option \<Rightarrow> ('w, 'q, 'r) UnaryInterceptor" where
  "rateLimitUnaryInterceptor rt limiter metrics ctx req fullMethod handler w =
     (let (span, w) = open_span rt metrics fullMethod w
      in do {
        (lerr, w) \<leftarrow> (case limiter of None \<Rightarrow> Some (None, w) | Some wait \<Rightarrow> wait ctx w);
        case lerr of
          Some err \<Rightarrow> Some ((None, Some err), CallSpan_End rt (Some span) (Some err) w)
        | None \<Rightarrow> do {
            ((resp, err), w) \<leftarrow> handler ctx req w;
            let w = CallSpan_End rt (Some span) err w;
            let w = log_failure rt fullMethod err w;
            Some ((resp, err), w)
          }
      })"

definition rateLimitStreamInterceptor ::
  "'w runtime \<Rightarrow> 'w rateLimiter option \<Rightarrow> ('w, Metrics) ref option \<Rightarrow> ('w, 'm, 'a) ServerStream \<Rightarrow>
   string \<Rightarrow> (('w, 'm, 'a) ServerStream \<Rightarrow> ('w, go_error option) act) \<Rightarrow> ('w, go_error option) act" where
  "rateLimitStreamInterceptor rt limiter metrics stream fullMethod handler w =
     (let (span, w) = open_span rt metrics fullMethod w
      in case limiter of
           None \<Rightarrow> do {
             (err, w) \<leftarrow> handler stream w;
             let w = CallSpan_End rt (Some span) err w;
             Some (err, log_failure rt fullMethod err w)
           }
         | Some wait \<Rightarrow>
             let wrapped = limited_stream \<lparr>rl_stream = stream, rl_limiter = Some wait\<rparr>
             in do {
               (err, w) \<leftarrow> handler wrapped w;
               let w = CallSpan_End rt (Some span) err w;
               Some (err, log_failure rt fullMethod err w)
             })"

section \<open>The generated service code\<close>

text \<open>
  A client-streaming server stream of gRPC receives with \<open>RecvMsg\<close> and acknowledges with
  \<open>SendMsg\<close>; the handlers are those of the generated files.
\<close>

definition DriverService_UpdateLocation_Handler ::
  "pb_library \<Rightarrow> 'w IngestService \<Rightarrow> ('w, LocationMsg, string) ServerStream \<Rightarrow> ('w, go_error option) act" where
  "DriverService_UpdateLocation_Handler pb ingest stream =
     UpdateLocation pb ingest \<lparr>st_Recv = ss_RecvMsg stream, st_SendAndClose = ss_SendMsg stream,
       st_Context = ss_Context stream\<rparr>"

definition OrderService_CreateOrder_FullMethodName :: string where
  "OrderService_CreateOrder_FullMethodName = ''/order.OrderService/CreateOrder''"

definition DriverService_UpdateLocation_FullMethodName :: string where
  "DriverService_UpdateLocation_FullMethodName = ''/driver.DriverService/UpdateLocation''"

definition unary_result :: "go_error + 'r \<Rightarrow> 'r option \<times> go_error option" where
  "unary_result r = (case r of Inl err \<Rightarrow> (None, Some err) | Inr resp \<Rightarrow> (Some resp, None))"

definition OrderService_CreateOrder_Handler ::
  "'w OrderServiceI \<Rightarrow> 'w ctx \<Rightarrow> ('w, go_error + CreateOrderRequest) act \<Rightarrow>
   ('w, CreateOrderRequest, CreateOrderResponse) UnaryInterceptor option \<Rightarrow>
   ('w, CreateOrderResponse option \<times> go_error option) act" where
  "OrderService_CreateOrder_Handler srv ctx decode interceptor w = do {
     (req, w) \<leftarrow> decode w;
     case req of
       Inl err \<Rightarrow> Some ((None, Some err), w)
     | Inr req \<Rightarrow>
         let handler = (\<lambda>ctx req w. map_option (\<lambda>(r, w). (unary_result r, w)) (OrderServer_CreateOrder srv ctx req w))
         in (case interceptor of
               None \<Rightarrow> handler ctx req w
             | Some icept \<Rightarrow> icept ctx req OrderService_CreateOrder_FullMethodName handler w)
   }"

section \<open>The metrics behind the interceptors\<close>

text \<open>The methods of the metrics in a world are those of a history of calls.\<close>

definition tells :: "('w, Metrics) ref \<Rightarrow> metrics_event list \<Rightarrow> 'w \<Rightarrow> bool" where
  "tells p es w \<longleftrightarrow> (\<exists>t. m_methods (rd p w) = m_methods (fold metrics_step es (new_metrics t)))"

text \<open>
  An action that, run from a state, starts and finishes the calls \<open>L\<close> gives for that state: what
  its own body does to the metrics and what other calls do to them meanwhile.
\<close>

definition metered_by :: "('w, Metrics) ref \<Rightarrow> ('w \<Rightarrow> metrics_event list) \<Rightarrow> ('w, 'r) act \<Rightarrow> bool" where
  "metered_by p L f \<longleftrightarrow> (\<forall>es v r v'. tells p es v \<longrightarrow> f v = Some (r, v') \<longrightarrow> tells p (es @ L v) v')"

lemma metered_byD: "metered_by p L f \<Longrightarrow> tells p es v \<Longrightarrow> f v = Some (r, v') \<Longrightarrow> tells p (es @ L v) v'"
  by (auto simp: metered_by_def)

text \<open>What the interceptors ask of the limiter before a call: nothing when there is none.\<close>

definition admission :: "'w rateLimiter option \<Rightarrow> 'w ctx \<Rightarrow> ('w, go_error option) act" where
  "admission limiter ctx v = (case limiter of None \<Rightarrow> Some (None, v) | Some wait \<Rightarrow> wait ctx v)"

lemma ensureMethod_methods: "m_methods m = m_methods m' \<Longrightarrow> m_methods (ensureMethod k m) = m_methods (ensureMethod k m')"
  by (cases "map_of (m_methods m') k") (simp_all add: ensureMethod_def)

lemma step_methods:
  assumes "m_methods m = m_methods m'"
  shows "m_methods (metrics_step e m) = m_methods (metrics_step e m')"
  by (cases e) (simp_all add: metrics_begin_def metrics_finish_def on_method_def ensureMethod_methods [OF assms])

locale meter = cell p for p :: "('w, Metrics) ref" +
  fixes rt :: "'w runtime"
  assumes clock: "rd p (snd (time_Now rt v)) = rd p v"
begin

lemma clock': "time_Now rt v = (now, v') \<Longrightarrow> rd p v' = rd p v"
  using clock [of v] by simp

lemma tells_same: "tells p es v \<Longrightarrow> rd p v' = rd p v \<Longrightarrow> tells p es v'"
  by (simp add: tells_def)

lemma tells_step:
  assumes "tells p es v" "rd p v' = metrics_step e (rd p v)"
  shows "tells p (es @ [e]) v'"
proof -
  from assms(1) obtain t where t: "m_methods (rd p v) = m_methods (fold metrics_step es (new_metrics t))"
    by (auto simp: tells_def)
  from step_methods [OF this] show ?thesis unfolding tells_def assms(2) by auto
qed

lemma open_span_tells:
  assumes "tells p es v" "open_span rt (Some p) k v = (span, v')" "shouldTrackMethod k"
  shows "tells p (es @ [MStart k]) v' \<and> sp_metrics span = Some p \<and> sp_method span = k"
proof -
  obtain s v1 where s: "time_Now rt v = (s, v1)" by fastforce
  let ?v2 = "wr p (metrics_begin k (rd p v1)) v1"
  obtain t v3 where t: "time_Now rt ?v2 = (t, v3)" by fastforce
  have "rd p v3 = metrics_step (MStart k) (rd p v)"
    using clock' [OF s] clock' [OF t] by (simp add: rd_wr)
  from tells_step [OF assms(1) this] s t assms(2,3) show ?thesis
    by (auto simp: open_span_def Metrics_Start_def Let_def)
qed

lemma End_tells:
  assumes "tells p es v" "sp_metrics span = Some p" "sp_method span = k"
  shows "\<exists>d. tells p (es @ [MFinish k d (err \<noteq> None)]) (CallSpan_End rt (Some span) err v)"
proof -
  obtain t v1 where t: "time_Now rt v = (t, v1)" by fastforce
  let ?d = "time_Sub t (sp_start span)"
  have "rd p (CallSpan_End rt (Some span) err v) = metrics_step (MFinish k ?d (err \<noteq> None)) (rd p v)"
    using clock' [OF t] by (simp add: CallSpan_End_def assms(2,3) t Let_def rd_wr)
  from tells_step [OF assms(1) this] show ?thesis by blast
qed

lemma log_tells: "tells p es v \<Longrightarrow> tells p es (log_failure rt k err v)"
  by (auto simp: log_failure_def intro: tells_same clock)

text \<open>Around a unary call.\<close>

lemma unary_refused:
  assumes "tells p es v" "shouldTrackMethod k" "metered_by p Lw (admission limiter ctx)"
    and "open_span rt (Some p) k v = (span, v1)" "admission limiter ctx v1 = Some (Some e, v2)"
  shows "\<exists>d w'. tells p (es @ MStart k # Lw v1 @ [MFinish k d True]) w' \<and>
    (\<forall>h. rateLimitUnaryInterceptor rt limiter (Some p) ctx req k h v = Some ((None, Some e), w'))"
proof -
  from open_span_tells [OF assms(1,4,2)] have t1: "tells p (es @ [MStart k]) v1"
    and sp: "sp_metrics span = Some p" "sp_method span = k" by auto
  from End_tells [OF metered_byD [OF assms(3) t1 assms(5)] sp, of "Some e"] assms(4,5) show ?thesis
    by (auto simp: rateLimitUnaryInterceptor_def admission_def)
qed

lemma unary_admitted:
  assumes "tells p es v" "shouldTrackMethod k" "metered_by p Lw (admission limiter ctx)"
    and "metered_by p Lh (handler ctx req)"
    and "open_span rt (Some p) k v = (span, v1)" "admission limiter ctx v1 = Some (None, v2)"
    and "rateLimitUnaryInterceptor rt limiter (Some p) ctx req k handler v = Some ((resp, err), v')"
  shows "\<exists>d v3. handler ctx req v2 = Some ((resp, err), v3) \<and>
    tells p (es @ MStart k # Lw v1 @ Lh v2 @ [MFinish k d (err \<noteq> None)]) v'"
proof -
  from open_span_tells [OF assms(1,5,2)] have t1: "tells p (es @ [MStart k]) v1"
    and sp: "sp_metrics span = Some p" "sp_method span = k" by auto
  from assms(5-7) obtain v3 where h: "handler ctx req v2 = Some ((resp, err), v3)"
    and v': "v' = log_failure rt k err (CallSpan_End rt (Some span) err v3)"
    by (auto simp: rateLimitUnaryInterceptor_def admission_def Let_def bind_Some_iff)
  from End_tells [OF metered_byD [OF assms(4) metered_byD [OF assms(3) t1 assms(6)] h] sp, of err] h
  show ?thesis unfolding v' by (auto dest: log_tells)
qed

text \<open>Around a stream.\<close>

lemma stream_run:
  assumes "rateLimitStreamInterceptor rt limiter (Some p) stream k handler v = Some (err, v')"
    and "tells p es v" "shouldTrackMethod k" "\<And>s. metered_by p L (handler s)"
  shows "\<exists>d. tells p (es @ MStart k # L (snd (open_span rt (Some p) k v)) @ [MFinish k d (err \<noteq> None)]) v'"
proof -
  obtain span v1 where o: "open_span rt (Some p) k v = (span, v1)" by fastforce
  from open_span_tells [OF assms(2) o assms(3)] have t1: "tells p (es @ [MStart k]) v1"
    and sp: "sp_metrics span = Some p" "sp_method span = k" by auto
  from assms(1) o obtain s v2 where h: "handler s v1 = Some (err, v2)"
    and v': "v' = log_failure rt k err (CallSpan_End rt (Some span) err v2)"
    by (auto simp: rateLimitStreamInterceptor_def Let_def bind_Some_iff split: option.split_asm)
  from End_tells [OF metered_byD [OF assms(4) t1 h] sp, of err] o show ?thesis
    unfolding v' by (auto dest: log_tells)
qed

end


section \<open>How fast a stream can be\<close>

text \<open>
  The budget of a limiter in nanoseconds: a token costs one \<open>rate\<close>, and time already
  accounted for is time spent. No round increases it, and a granted token is paid from it.
\<close>

definition budget :: "duration \<Rightarrow> limiter \<Rightarrow> int" where
  "budget rate l = rl_tokens l * rate - rl_last l"

lemma round_budget:
  assumes "sane_rate rate burst" "bucket_wf burst l" "limiter_round rate burst now l = (d, l')"
  shows "budget rate l' + (if d = None then rate else 0) \<le> budget rate l \<and> bucket_wf burst l'"
    "rl_last l \<le> T \<Longrightarrow> now \<le> T \<Longrightarrow> rl_last l' \<le> T"
proof -
  have a: "0 < rate" "0 \<le> burst" "int64_min \<le> rl_tokens l"
    using assms(1,2) by (simp_all add: sane_rate_def bucket_wf_def)
  note b = limiter_round_budget [OF a _ _ assms(3)]
  have "(rl_tokens l' + (if d = None then 1 else 0)) * rate + (max now (rl_last l) - rl_last l') \<le>
      rl_tokens l * rate + (max now (rl_last l) - rl_last l)"
    by (rule b(1)) simp_all
  then have "budget rate l' + (if d = None then rate else 0) \<le> budget rate l"
    by (cases d) (simp_all add: budget_def distrib_right)
  with limiter_round_wf [OF assms(1,2), of now] assms(3)
  show "budget rate l' + (if d = None then rate else 0) \<le> budget rate l \<and> bucket_wf burst l'" by simp
  show "rl_last l \<le> T \<Longrightarrow> now \<le> T \<Longrightarrow> rl_last l' \<le> T" using b(3) by simp
qed

text \<open>
  The actions around the limiter: whatever else happens while they run, other calls may
  only take tokens from the shared bucket, the clock is not turned back behind the last
  refill, and no location of this stream is handed on. \<open>n\<close> counts those handed on.
\<close>

definition filled :: "'w RateLimiter \<Rightarrow> ('w \<Rightarrow> instant) \<Rightarrow> 'w \<Rightarrow> bool" where
  "filled r clk v \<longleftrightarrow> bucket_wf (rl_burst r) (rd (rl_ptr r) v) \<and> rl_last (rd (rl_ptr r) v) \<le> clk v"

definition idle :: "'w RateLimiter \<Rightarrow> ('w \<Rightarrow> instant) \<Rightarrow> ('w \<Rightarrow> int) \<Rightarrow> 'w \<Rightarrow> 'w \<Rightarrow> bool" where
  "idle r clk n v v' \<longleftrightarrow> (filled r clk v \<longrightarrow> filled r clk v' \<and>
     budget (rl_rate r) (rd (rl_ptr r) v') \<le> budget (rl_rate r) (rd (rl_ptr r) v) \<and> n v' = n v)"

locale rationed = cell "rl_ptr r" for r :: "'w RateLimiter" +
  fixes stream :: "('w, LocationMsg, string) ServerStream" and ingest :: "'w IngestService"
    and rt :: "'w runtime" and p :: "('w, Metrics) ref"
    and clk :: "'w \<Rightarrow> instant" and n :: "'w \<Rightarrow> int"
  assumes sane: "sane_rate (rl_rate r) (rl_burst r)"
    and ctx: "idle r clk n v (snd (ss_Context stream v))"
    and now: "rl_now r v = (t, v') \<Longrightarrow> idle r clk n v v' \<and> t \<le> clk v'"
    and bucket_wr: "clk (wr (rl_ptr r) l v) = clk v \<and> n (wr (rl_ptr r) l v) = n v"
    and hook: "rl_onWait r = Some h \<Longrightarrow> idle r clk n v (h d v)"
    and sleep: "rl_sleep r (ss_Context stream) d v = Some (e, v') \<Longrightarrow> idle r clk n v v'"
    and recv: "ss_RecvMsg stream v = Some (m, v') \<Longrightarrow> idle r clk n v v'"
    and send: "ss_SendMsg stream a v = Some (e, v') \<Longrightarrow> idle r clk n v v'"
    and ingested: "Ingest ingest (ss_Context stream) loc v = Some (e, v') \<Longrightarrow>
      \<exists>u. idle r clk n v u \<and> filled r clk v' = filled r clk u \<and> rd (rl_ptr r) v' = rd (rl_ptr r) u \<and> n v' \<le> n u + 1"
    and clock: "idle r clk n v (snd (time_Now rt v))"
    and counters: "idle r clk n v (wr p stats v)"
begin

text \<open>What is handed on is paid for: \<open>g\<close> tokens are drawn and not used yet.\<close>

definition spent :: "int \<Rightarrow> 'w \<Rightarrow> 'w \<Rightarrow> bool" where
  "spent g v v' \<longleftrightarrow> (filled r clk v \<longrightarrow> filled r clk v' \<and>
     (n v' + g) * rl_rate r + budget (rl_rate r) (rd (rl_ptr r) v') \<le>
       n v * rl_rate r + budget (rl_rate r) (rd (rl_ptr r) v))"

lemma spent_idle: "idle r clk n v v' \<Longrightarrow> spent 0 v v'"
  by (simp add: idle_def spent_def)

lemma spent_trans: "spent g v v1 \<Longrightarrow> spent h v1 v2 \<Longrightarrow> spent (g + h) v v2"
  by (auto simp: spent_def algebra_simps)

lemma spent_idle_trans: "spent g v v1 \<Longrightarrow> idle r clk n v1 v2 \<Longrightarrow> spent g v v2"
  using spent_trans [of g v v1 0 v2] spent_idle [of v1 v2] by simp

lemma spent_weaken: "spent g v v' \<Longrightarrow> 0 \<le> g \<Longrightarrow> spent 0 v v'"
proof -
  assume s: "spent g v v'" and g: "0 \<le> g"
  have "0 < rl_rate r" using sane by (simp add: sane_rate_def)
  then have "(n v' + 0) * rl_rate r \<le> (n v' + g) * rl_rate r" using g by (intro mult_right_mono) auto
  with s show ?thesis unfolding spent_def by auto
qed

lemma round_spent:
  assumes "limiter_round (rl_rate r) (rl_burst r) t (rd (rl_ptr r) v) = (d, l)" "t \<le> clk v"
  shows "spent (if d = None then 1 else 0) v (wr (rl_ptr r) l v)"
  unfolding spent_def
proof (intro impI)
  assume f: "filled r clk v"
  then have w: "bucket_wf (rl_burst r) (rd (rl_ptr r) v)" "rl_last (rd (rl_ptr r) v) \<le> clk v"
    by (auto simp: filled_def)
  from round_budget(1) [OF sane w(1) assms(1)] round_budget(2) [OF sane w(1) assms(1) w(2) assms(2)]
  show "filled r clk (wr (rl_ptr r) l v) \<and>
     (n (wr (rl_ptr r) l v) + (if d = None then 1 else 0)) * rl_rate r +
       budget (rl_rate r) (rd (rl_ptr r) (wr (rl_ptr r) l v)) \<le>
     n v * rl_rate r + budget (rl_rate r) (rd (rl_ptr r) v)"
    by (auto simp: filled_def rd_wr bucket_wr algebra_simps split: if_splits)
qed

lemma Wait_spent:
  assumes "wait_loop r (ss_Context stream) v = Some (e, v')"
  shows "spent (if e = None then 1 else 0) v v'"
proof -
  have "r' = r \<longrightarrow> c = ss_Context stream \<longrightarrow> spent (if fst y = None then 1 else 0) v (snd y)"
    if "wait_loop r' c v = Some y" for r' c v y
  proof (rule wait_loop.raw_induct [where P = "\<lambda>r' c v y. r' = r \<longrightarrow> c = ss_Context stream \<longrightarrow>
      spent (if fst y = None then 1 else 0) v (snd y)", OF _ that])
    fix loop r' c v y
    assume IH: "\<And>r' c v y. loop r' c v = Some y \<Longrightarrow> r' = r \<longrightarrow> c = ss_Context stream \<longrightarrow>
        spent (if fst y = None then 1 else 0) v (snd y)"
      and eq: "(case c v of (None, w) \<Rightarrow>
          (case rl_now r' w of (now, w) \<Rightarrow>
            (case limiter_round (rl_rate r') (rl_burst r') now (rd (rl_ptr r') w) of
               (None, b) \<Rightarrow> Some (None, wr (rl_ptr r') b w)
             | (Some wait, b) \<Rightarrow>
                 if wait \<le> 0 then loop r' c (wr (rl_ptr r') b w)
                 else do {
                   (serr, w) \<leftarrow> rl_sleep r' c wait
                     (case rl_onWait r' of None \<Rightarrow> wr (rl_ptr r') b w
                      | Some hook \<Rightarrow> hook wait (wr (rl_ptr r') b w));
                   case serr of None \<Rightarrow> loop r' c w | Some err \<Rightarrow> Some (Some err, w)
                 }))
        | (Some err, w) \<Rightarrow> Some (Some err, w)) = Some y"
    show "r' = r \<longrightarrow> c = ss_Context stream \<longrightarrow> spent (if fst y = None then 1 else 0) v (snd y)"
    proof (intro impI)
      assume r': "r' = r" and c: "c = ss_Context stream"
      obtain e v1 where c1: "ss_Context stream v = (e, v1)" by fastforce
      have s1: "spent 0 v v1" using ctx [of v] c1 by (simp add: spent_idle)
      obtain t v2 where n2: "rl_now r v1 = (t, v2)" by fastforce
      have s2: "spent 0 v v2" using spent_idle_trans [OF s1] now [OF n2] by blast
      obtain d b where rd: "limiter_round (rl_rate r) (rl_burst r) t (rd (rl_ptr r) v2) = (d, b)" by fastforce
      let ?v3 = "wr (rl_ptr r) b v2"
      have s3: "spent (if d = None then 1 else 0) v ?v3"
        using spent_trans [OF s2 round_spent [OF rd]] now [OF n2] by simp
      show "spent (if fst y = None then 1 else 0) v (snd y)"
      proof (cases e)
        case (Some err)
        with eq r' c c1 s1 show ?thesis by auto
      next
        case alive: None
        show ?thesis
        proof (cases d)
          case None
          with eq r' c c1 n2 rd s3 alive show ?thesis by auto
        next
          case (Some wait)
          then have s3: "spent 0 v ?v3" using s3 by simp
          show ?thesis
          proof (cases "wait \<le> 0")
            case True
            with eq r' c c1 n2 rd alive Some have "loop r (ss_Context stream) ?v3 = Some y" by simp
            from IH [OF this] spent_trans [OF s3] show ?thesis by fastforce
          next
            case False
            let ?v4 = "case rl_onWait r of None \<Rightarrow> ?v3 | Some hook \<Rightarrow> hook wait ?v3"
            have s4: "spent 0 v ?v4" using s3 hook spent_idle_trans [OF s3] by (auto split: option.split)
            from False eq r' c c1 n2 rd alive Some obtain s v5 where
              s: "rl_sleep r (ss_Context stream) wait ?v4 = Some (s, v5)"
              and y: "(case s of None \<Rightarrow> loop r (ss_Context stream) v5 | Some err \<Rightarrow> Some (Some err, v5)) = Some y"
              by (auto simp: bind_pair_Some_iff)
            have s5: "spent 0 v v5" using spent_idle_trans [OF s4 sleep [OF s]] .
            from y IH [of r "ss_Context stream" v5 y] spent_trans [OF s5, of _ "snd y"] s5 show ?thesis
              by (cases s) auto
          qed
        qed
      qed
    qed
  qed
  from this [OF assms] show ?thesis by simp
qed

abbreviation wrapped :: "('w, LocationMsg, string) ServerStream" where
  "wrapped \<equiv> limited_stream \<lparr>rl_stream = stream, rl_limiter = Some (\<lambda>c. Wait (Some r) (Some c))\<rparr>"

lemma wrapped_sel: "ss_Context wrapped = ss_Context stream" "ss_SendMsg wrapped = ss_SendMsg stream"
  by (simp_all add: limited_stream_def)

lemma recv_spent:
  assumes "ss_RecvMsg wrapped v = Some (m, v')"
  shows "spent (if isl m then 0 else 1) v v'"
proof -
  have w: "Wait (Some r) (Some c) u = wait_loop r c u" for c u
    using sane by (simp add: Wait_def sane_rate_def ctx_or_background_def)
  have "ss_RecvMsg wrapped v = wait_loop r (ss_Context stream) v \<bind>
      (\<lambda>(e, v1). case e of Some err \<Rightarrow> Some (Inl err, v1) | None \<Rightarrow> ss_RecvMsg stream v1)"
    by (simp add: limited_stream_def rateLimited_RecvMsg_def w cong: option.case_cong)
  with assms obtain e v1 where 1: "wait_loop r (ss_Context stream) v = Some (e, v1)"
    and 2: "(case e of Some err \<Rightarrow> Some (Inl err, v1) | None \<Rightarrow> ss_RecvMsg stream v1) = Some (m, v')"
    by (auto simp: bind_pair_Some_iff)
  from Wait_spent [OF 1] have s: "spent (if e = None then 1 else 0) v v1" .
  show ?thesis
  proof (cases e)
    case (Some err)
    with 2 s show ?thesis by auto
  next
    case None
    with 2 recv have "idle r clk n v1 v'" by simp
    with None s have "spent 1 v v'" using spent_idle_trans by simp
    with spent_weaken [OF this] show ?thesis by simp
  qed
qed

lemma ingest_spent:
  assumes "Ingest ingest (ss_Context stream) loc v = Some (e, v')"
  shows "spent (- 1) v v'"
proof -
  from ingested [OF assms] obtain u where u: "idle r clk n v u" "filled r clk v' = filled r clk u"
    "rd (rl_ptr r) v' = rd (rl_ptr r) u" "n v' \<le> n u + 1" by blast
  have "0 < rl_rate r" using sane by (simp add: sane_rate_def)
  then have "(n v' + - 1) * rl_rate r \<le> n u * rl_rate r" using u(4) by (intro mult_right_mono) auto
  with spent_idle [OF u(1)] u(2,3) show ?thesis unfolding spent_def by auto
qed

lemma handler_spent:
  assumes "DriverService_UpdateLocation_Handler pb ingest wrapped v = Some (e, v')"
  shows "spent 0 v v'"
proof -
  let ?st = "\<lparr>st_Recv = ss_RecvMsg wrapped, st_SendAndClose = ss_SendMsg stream, st_Context = ss_Context stream\<rparr>"
  have "pb' = pb \<longrightarrow> i = ingest \<longrightarrow> st = ?st \<longrightarrow> spent 0 v (snd y)" if "UpdateLocation pb' i st v = Some y" for pb' i st v y
  proof (rule UpdateLocation.raw_induct [where P = "\<lambda>pb' i st v y. pb' = pb \<longrightarrow> i = ingest \<longrightarrow> st = ?st \<longrightarrow>
      spent 0 v (snd y)", OF _ that])
    fix loop pb' i st v y
    assume IH: "\<And>pb' i st v y. loop pb' i st v = Some y \<Longrightarrow> pb' = pb \<longrightarrow> i = ingest \<longrightarrow> st = ?st \<longrightarrow> spent 0 v (snd y)"
      and eq: "st_Recv st v \<bind> (\<lambda>(msg, w). case msg of
          Inl err \<Rightarrow> if err = io_EOF then st_SendAndClose st ''ok'' w
            else Some (Some (status_Error ''Internal'' (''recv: '' @ err_Error err)), w)
        | Inr msg \<Rightarrow> (case decode_update pb' msg of
            Inl err \<Rightarrow> Some (Some err, w)
          | Inr loc \<Rightarrow> Ingest i (st_Context st) loc w \<bind> (\<lambda>(err, w). case err of
              Some err \<Rightarrow> Some (Some (status_Error ''Internal'' (''ingest: '' @ err_Error err)), w)
            | None \<Rightarrow> loop pb' i st w))) = Some y"
    show "pb' = pb \<longrightarrow> i = ingest \<longrightarrow> st = ?st \<longrightarrow> spent 0 v (snd y)"
    proof (intro impI)
      assume a: "pb' = pb" "i = ingest" "st = ?st"
      from eq a obtain m v1 where m: "ss_RecvMsg wrapped v = Some (m, v1)" by (auto simp: bind_pair_Some_iff)
      note s1 = recv_spent [OF m]
      show "spent 0 v (snd y)"
      proof (cases m)
        case (Inl err)
        have "(if err = io_EOF then ss_SendMsg stream ''ok'' v1
            else Some (Some (status_Error ''Internal'' (''recv: '' @ err_Error err)), v1)) = Some y"
          using eq unfolding a by (simp add: m Inl cong: if_cong)
        with s1 Inl send [of "''ok''" v1] spent_idle_trans [of 0 v v1] show ?thesis
          by (cases y) (auto split: if_splits)
      next
        case (Inr msg)
        then have s1: "spent 1 v v1" using s1 by simp
        show ?thesis
        proof (cases "decode_update pb msg")
          case (Inl err)
          have "Some (Some err, v1) = Some y" using eq unfolding a by (simp add: m Inr Inl)
          with spent_weaken [OF s1] show ?thesis by auto
        next
          case loc: (Inr loc)
          from eq have "Ingest ingest (ss_Context stream) loc v1 \<bind> (\<lambda>(err, w). case err of
              Some err \<Rightarrow> Some (Some (status_Error ''Internal'' (''ingest: '' @ err_Error err)), w)
            | None \<Rightarrow> loop pb ingest ?st w) = Some y"
            unfolding a by (simp add: m Inr loc)
          then obtain e v2 where i: "Ingest ingest (ss_Context stream) loc v1 = Some (e, v2)"
            and y: "(case e of
              Some err \<Rightarrow> Some (Some (status_Error ''Internal'' (''ingest: '' @ err_Error err)), v2)
            | None \<Rightarrow> loop pb ingest ?st v2) = Some y"
            by (auto simp: bind_pair_Some_iff)
          have s2: "spent 0 v v2" using spent_trans [OF s1 ingest_spent [OF i]] by simp
          from y IH [of pb ingest ?st v2 y] s2 spent_trans [OF s2] show ?thesis by (cases e) fastforce+
        qed
      qed
    qed
  qed
  with assms show ?thesis
    unfolding DriverService_UpdateLocation_Handler_def wrapped_sel by fastforce
qed

end

context rationed begin

lemma idle_trans: "idle r clk n u v \<Longrightarrow> idle r clk n v v' \<Longrightarrow> idle r clk n u v'"
  by (auto simp: idle_def)

lemma idle_refl: "idle r clk n v v"
  by (simp add: idle_def)

lemma now_idle: "time_Now rt v = (t, v') \<Longrightarrow> idle r clk n v v'"
  using clock [of v] by simp

lemma open_span_idle:
  assumes "open_span rt metrics k v = (span, v')" "metrics = None \<or> metrics = Some p"
  shows "idle r clk n v v' \<and> (sp_metrics span = None \<or> sp_metrics span = Some p)"
proof -
  obtain s v1 where s: "time_Now rt v = (s, v1)" by fastforce
  let ?v2 = "wr p (metrics_begin k (rd p v1)) v1"
  obtain t v3 where t: "time_Now rt ?v2 = (t, v3)" by fastforce
  have "idle r clk n v v1" "idle r clk n v v3"
    using now_idle [OF s] now_idle [OF t] counters idle_trans by blast+
  then show ?thesis
    using assms s t by (auto simp: open_span_def Metrics_Start_def empty_span_def Let_def split: if_splits)
qed

lemma End_idle:
  assumes "sp_metrics span = None \<or> sp_metrics span = Some p"
  shows "idle r clk n v (CallSpan_End rt (Some span) err v)"
proof -
  obtain t v1 where t: "time_Now rt v = (t, v1)" by fastforce
  from assms now_idle [OF t] counters idle_trans show ?thesis
    by (auto simp: CallSpan_End_def t Let_def idle_refl)
qed

lemma log_idle: "idle r clk n v (log_failure rt k err v)"
  by (simp add: log_failure_def idle_refl clock)

lemma stream_spent:
  assumes "rateLimitStreamInterceptor rt (Some (\<lambda>c. Wait (Some r) (Some c))) metrics stream k
      (DriverService_UpdateLocation_Handler pb ingest) v = Some (err, v')"
    and "metrics = None \<or> metrics = Some p"
  shows "spent 0 v v'"
proof -
  obtain span v1 where o: "open_span rt metrics k v = (span, v1)" by fastforce
  from assms(1) o obtain v2 where h: "DriverService_UpdateLocation_Handler pb ingest wrapped v1 = Some (err, v2)"
    and v': "v' = log_failure rt k err (CallSpan_End rt (Some span) err v2)"
    by (auto simp: rateLimitStreamInterceptor_def Let_def bind_Some_iff)
  have "spent 0 v v1" using open_span_idle [OF o assms(2)] spent_idle by blast
  from spent_trans [OF this handler_spent [OF h]] have "spent 0 v v2" by simp
  moreover have "idle r clk n v2 v'"
    unfolding v' using End_idle open_span_idle [OF o assms(2)] log_idle idle_trans by blast
  ultimately show ?thesis by (rule spent_idle_trans)
qed

end

text \<open>
  C19: A stream is as slow as the limiter says. Whatever the client sends and however long
  the stream lasts, the number of locations that reach the ingest service through the
  interceptor is at most the tokens in the shared bucket when the stream began plus one for
  every full interval since the last refill, even while other calls draw on the same bucket.
\<close>

theorem stream_rationed:
  assumes "rationed r stream ingest rt p clk n" "metrics = None \<or> metrics = Some p" "filled r clk w"
    and "rateLimitStreamInterceptor rt (Some (\<lambda>c. Wait (Some r) (Some c))) metrics stream k
      (DriverService_UpdateLocation_Handler pb ingest) w = Some (err, w')"
  shows "n w' - n w \<le> rl_tokens (rd (rl_ptr r) w) + (clk w' - rl_last (rd (rl_ptr r) w)) div rl_rate r"
proof -
  have rate: "0 < rl_rate r" using rationed.sane [OF assms(1)] by (simp add: sane_rate_def)
  let ?l = "rd (rl_ptr r) w" and ?l' = "rd (rl_ptr r) w'"
  from rationed.stream_spent [OF assms(1,4,2)] assms(3)
  have f: "0 \<le> rl_tokens ?l'" "rl_last ?l' \<le> clk w'"
    and b: "n w' * rl_rate r + (rl_tokens ?l' * rl_rate r - rl_last ?l') \<le>
      n w * rl_rate r + (rl_tokens ?l * rl_rate r - rl_last ?l)"
    unfolding rationed.spent_def [OF assms(1)] budget_def by (auto simp: filled_def bucket_wf_def)
  have "0 \<le> rl_tokens ?l' * rl_rate r" using f(1) rate by simp
  with b f(2) have "(n w' - n w - rl_tokens ?l) * rl_rate r \<le> clk w' - rl_last ?l"
    by (simp add: left_diff_distrib)
  then have "(n w' - n w - rl_tokens ?l) * rl_rate r div rl_rate r \<le> (clk w' - rl_last ?l) div rl_rate r"
    using rate by (intro zdiv_mono1)
  with rate show ?thesis by simp
qed

text \<open>
  C20: Every tracked call is counted once, on every path. Let the limiter and the handler start
  and finish the calls \<open>Lw\<close> and \<open>Lh\<close> (their own and those of others meanwhile). When the limiter
  refuses the call, the caller gets the limiter's error, whatever the handler is (so it is not
  run), and the history of the metrics grows by one start of the method, what happened during
  the wait, and one finish as an error, by nothing else. When the limiter lets it through, the
  handler runs in the state the limiter left, the caller gets its answer, and the history grows
  by one start, what happened during the wait and the handler, and one finish, an error exactly
  when the caller gets one.
\<close>

theorem unary_calls_accounted:
  fixes resp :: "'d option"
  assumes "meter p rt" "shouldTrackMethod k" "tells p es w"
    and "metered_by p Lw (admission limiter ctx)" "metered_by p Lh (handler ctx req)"
    and "rateLimitUnaryInterceptor rt limiter (Some p) ctx req k handler w = Some ((resp, err), w')"
  shows "let w0 = snd (open_span rt (Some p) k w)
    in case admission limiter ctx w0 of
         None \<Rightarrow> False
       | Some (Some e, v) \<Rightarrow> resp = None \<and> err = Some e \<and>
           (\<forall>h. rateLimitUnaryInterceptor rt limiter (Some p) ctx req k h w = Some ((resp, err), w')) \<and>
           (\<exists>d. tells p (es @ MStart k # Lw w0 @ [MFinish k d True]) w')
       | Some (None, v) \<Rightarrow> \<exists>d v'. handler ctx req v = Some ((resp, err), v') \<and>
           tells p (es @ MStart k # Lw w0 @ Lh v @ [MFinish k d (err \<noteq> None)]) w'"
proof -
  obtain span w0 where o: "open_span rt (Some p) k w = (span, w0)" by fastforce
  from assms(6) o obtain a v where l: "admission limiter ctx w0 = Some (a, v)"
    by (auto simp: rateLimitUnaryInterceptor_def admission_def bind_pair_Some_iff)
  show ?thesis
  proof (cases a)
    case None
    from meter.unary_admitted [OF assms(1,3,2,4,5) o l [unfolded None] assms(6)] show ?thesis
      using o l None by auto
  next
    case (Some e)
    from meter.unary_refused [OF assms(1,3,2,4) o l [unfolded Some], of req] obtain d w2
      where t: "tells p (es @ MStart k # Lw w0 @ [MFinish k d True]) w2"
      and h: "\<forall>h. rateLimitUnaryInterceptor rt limiter (Some p) ctx req k h w = Some ((None :: 'd option, Some e), w2)" by blast
    from spec [OF h, of handler] assms(6) have "resp = None" "err = Some e" "w2 = w'" by simp_all
    with t h o l Some show ?thesis by auto
  qed
qed

section \<open>The limiter of the server\<close>

text \<open>The ingress limiter reports its waits to the metrics; that starts and finishes no call.\<close>

context meter begin

lemma hook_tells: "tells p es v \<Longrightarrow> tells p es (AddRateLimitWait (Some p) d v)"
  by (auto simp: tells_def AddRateLimitWait_def metrics_wait_def rd_wr)

lemma Wait_metered:
  assumes "\<And>v. rd p (snd (rl_now l v)) = rd p v" "\<And>v b. rd p (wr (rl_ptr l) b v) = rd p v"
    and "rl_onWait l = Some (AddRateLimitWait (Some p))"
    and "\<And>d v e v'. rl_sleep l ctx d v = Some (e, v') \<Longrightarrow> rd p v' = rd p v"
    and "\<And>v. rd p (snd (ctx v)) = rd p v"
  shows "metered_by p (\<lambda>_. []) (Wait (Some l) (Some ctx))"
  unfolding metered_by_def
proof (intro allI impI)
  fix es v r v' assume t: "tells p es v" and w: "Wait (Some l) (Some ctx) v = Some (r, v')"
  have k: "limiter_keeps (tells p es) ctx l"
    unfolding limiter_keeps_def using assms(1-4) hook_tells tells_same by auto
  have c: "tells p es u \<Longrightarrow> tells p es (snd (ctx u))" for u using assms(5) tells_same by blast
  have "tells p es v'"
  proof (cases "rl_rate l \<le> 0 \<or> rl_burst l \<le> 0")
    case True
    with w c [OF t] show ?thesis by (auto simp: Wait_def)
  next
    case False
    with w wait_loop_keeps [OF k c _ t] show ?thesis by (auto simp: Wait_def ctx_or_background_def)
  qed
  then show "tells p (es @ []) v'" by simp
qed

end

text \<open>A front end of its own: a clock, the limiter, the metrics, a client and a store.\<close>

record front =
  fr_clock :: instant
  fr_limiter :: limiter
  fr_metrics :: Metrics
  fr_inbox :: "LocationMsg list"
  fr_stored :: "Location list"

definition front_rt :: "front runtime" where
  "front_rt = \<lparr>time_Now = (\<lambda>v. (fr_clock v, v)),
     select_timer = (\<lambda>_ d v. (True, v\<lparr>fr_clock := fr_clock v + max 0 d\<rparr>)), rand_Int63n = (\<lambda>_ v. (0, v))\<rparr>"

definition front_lim :: "(front, limiter) ref" where
  "front_lim = \<lparr>rd = fr_limiter, wr = (\<lambda>l v. v\<lparr>fr_limiter := l\<rparr>)\<rparr>"

definition front_met :: "(front, Metrics) ref" where
  "front_met = \<lparr>rd = fr_metrics, wr = (\<lambda>m v. v\<lparr>fr_metrics := m\<rparr>)\<rparr>"

definition front_limiter :: "front RateLimiter" where
  "front_limiter = \<lparr>rl_rate = 100, rl_burst = 2, rl_now = time_Now front_rt,
     rl_sleep = sleepWithContext front_rt, rl_onWait = Some (AddRateLimitWait (Some front_met)), rl_ptr = front_lim\<rparr>"

lemma front_limiter_new:
  "fst (NewRateLimiterWithHook front_rt front_lim 100 2 (Some (AddRateLimitWait (Some front_met))) v) = front_limiter"
  by (simp add: NewRateLimiterWithHook_def front_limiter_def front_rt_def)

definition front_stream :: "(front, LocationMsg, string) ServerStream" where
  "front_stream = \<lparr>ss_Context = context_Background,
     ss_RecvMsg = (\<lambda>v. case fr_inbox v of [] \<Rightarrow> Some (Inl io_EOF, v) | m # ms \<Rightarrow> Some (Inr m, v\<lparr>fr_inbox := ms\<rparr>)),
     ss_SendMsg = (\<lambda>_ v. Some (None, v))\<rparr>"

definition front_ingest :: "front IngestService" where
  "front_ingest = NewIngestService (NewStorePublisher
     \<lparr>ls_Update = (\<lambda>_ loc v. Some (None, v\<lparr>fr_stored := fr_stored v @ [loc]\<rparr>))\<rparr>)"

lemmas front_defs = front_rt_def front_lim_def front_met_def front_limiter_def front_stream_def
  front_ingest_def

interpretation front: meter front_met front_rt
  by unfold_locales (auto simp: front_defs)

interpretation ration: rationed front_limiter front_stream front_ingest front_rt front_met fr_clock
  "\<lambda>v. int (length (fr_stored v))"
  by unfold_locales
    (auto simp: front_defs idle_def filled_def sane_rate_def context_Background_def sleepWithContext_def
      AddRateLimitWait_def Ingest_def NewIngestService_def NewStorePublisher_def StorePublisher_Publish_def
      split: if_splits list.splits)

definition front_start :: "LocationMsg list \<Rightarrow> front" where
  "front_start ms = \<lparr>fr_clock = 5, fr_limiter = \<lparr>rl_tokens = 2, rl_last = 0\<rparr>, fr_metrics = new_metrics 0,
     fr_inbox = ms, fr_stored = []\<rparr>"

lemma front_wait:
  assumes "0 < rl_tokens (fr_limiter v)" "rl_last (fr_limiter v) \<le> fr_clock v" "fr_clock v < rl_last (fr_limiter v) + 100"
  shows "Wait (Some front_limiter) (Some context_Background) v =
    Some (None, v\<lparr>fr_limiter := (fr_limiter v)\<lparr>rl_tokens := rl_tokens (fr_limiter v) - 1\<rparr>\<rparr>)"
proof -
  have "time_Sub (fr_clock v) (rl_last (fr_limiter v)) < 100" using assms by (simp add: time_Sub_def)
  then have "limiter_round 100 2 (fr_clock v) (fr_limiter v) =
      (None, (fr_limiter v)\<lparr>rl_tokens := rl_tokens (fr_limiter v) - 1\<rparr>)"
    using assms(1) by (simp add: limiter_round_def refill_def Let_def)
  then show ?thesis
    by (subst Wait_def, subst wait_loop.simps)
      (simp add: front_defs ctx_or_background_def context_Background_def)
qed

theorem unary_calls_accounted_witness:
  "\<exists>w' d. rateLimitUnaryInterceptor front_rt (Some (\<lambda>c. Wait (Some front_limiter) (Some c))) (Some front_met)
      context_Background () ''/m'' (\<lambda>_ _ v. Some ((Some ''r'', None), v)) (front_start []) = Some ((Some ''r'', None), w') \<and>
    tells front_met [MStart ''/m'', MFinish ''/m'' d False] w'"
proof -
  let ?wait = "\<lambda>c. Wait (Some front_limiter) (Some c)" and ?h = "\<lambda>_ _ v. Some ((Some ''r'', None :: go_error option), v)"
  have "metered_by front_met (\<lambda>_. []) (?wait context_Background)"
    by (rule front.Wait_metered)
      (auto simp: front_defs context_Background_def sleepWithContext_def split: if_splits)
  then have m: "metered_by front_met (\<lambda>_. []) (admission (Some ?wait) context_Background)"
    by (simp add: metered_by_def admission_def)
  have h: "metered_by front_met (\<lambda>_. []) (?h context_Background ())" by (simp add: metered_by_def)
  have t: "tells front_met [] (front_start [])" by (auto simp: tells_def front_start_def front_met_def)
  have k: "shouldTrackMethod ''/m''" by (simp add: shouldTrackMethod_def strings_HasPrefix_def)
  obtain span v1 where o: "open_span front_rt (Some front_met) ''/m'' (front_start []) = (span, v1)" by fastforce
  then have "0 < rl_tokens (fr_limiter v1)" "rl_last (fr_limiter v1) \<le> fr_clock v1" "fr_clock v1 < rl_last (fr_limiter v1) + 100"
    using k by (auto simp: open_span_def Metrics_Start_def front_defs front_start_def Let_def)
  note fw = front_wait [OF this]
  from fw o obtain w' where
    e: "rateLimitUnaryInterceptor front_rt (Some ?wait) (Some front_met) context_Background () ''/m'' ?h (front_start []) =
      Some ((Some ''r'', None), w')"
    by (simp add: rateLimitUnaryInterceptor_def)
  from unary_calls_accounted [OF front.meter_axioms k t m h e] show ?thesis
    using e o fw by (auto simp: Let_def admission_def)
qed

theorem stream_rationed_witness:
  "\<exists>w'. rateLimitStreamInterceptor front_rt (Some (\<lambda>c. Wait (Some front_limiter) (Some c))) (Some front_met) front_stream ''/m''
      (DriverService_UpdateLocation_Handler pb_plain front_ingest) (front_start [msg_at ''a'' 0]) = Some (None, w') \<and>
    int (length (fr_stored w')) - 0 \<le> 2 + fr_clock w' div 100"
proof -
  let ?w = "front_start [msg_at ''a'' 0]"
  let ?st = "limited_stream \<lparr>rl_stream = front_stream, rl_limiter = Some (\<lambda>c. Wait (Some front_limiter) (Some c))\<rparr>"
  have k: "shouldTrackMethod ''/m''" by (simp add: shouldTrackMethod_def strings_HasPrefix_def)
  obtain span v1 where o: "open_span front_rt (Some front_met) ''/m'' ?w = (span, v1)" by fastforce
  then have v1: "fr_limiter v1 = \<lparr>rl_tokens = 2, rl_last = 0\<rparr>" "fr_clock v1 = 5" "fr_inbox v1 = [msg_at ''a'' 0]"
    using k by (auto simp: open_span_def Metrics_Start_def front_defs front_start_def Let_def)
  obtain loc where d: "decode_update pb_plain (msg_at ''a'' 0) = Inr loc"
    by (simp add: decode_update_def msg_at_def pb_plain_def NewLocation_exact within_def f64_consts_scaled)
  define v2 where "v2 = v1\<lparr>fr_limiter := \<lparr>rl_tokens = 1, rl_last = 0\<rparr>, fr_inbox := []\<rparr>"
  define v3 where "v3 = v2\<lparr>fr_stored := fr_stored v2 @ [loc]\<rparr>"
  define v4 where "v4 = v3\<lparr>fr_limiter := \<lparr>rl_tokens = 0, rl_last = 0\<rparr>\<rparr>"
  have r1: "ss_RecvMsg ?st v1 = Some (Inr (msg_at ''a'' 0), v2)"
    using front_wait [of v1] v1 by (simp add: limited_stream_def rateLimited_RecvMsg_def front_stream_def v2_def)
  have r2: "ss_RecvMsg ?st v3 = Some (Inl io_EOF, v4)"
    using front_wait [of v3] v1
    by (simp add: limited_stream_def rateLimited_RecvMsg_def front_stream_def v2_def v3_def v4_def)
  have i: "Ingest front_ingest context_Background loc v2 = Some (None, v3)"
    by (simp add: front_ingest_def Ingest_def NewIngestService_def NewStorePublisher_def StorePublisher_Publish_def v3_def)
  have sel: "ss_Context ?st = context_Background" "ss_SendMsg ?st = (\<lambda>_ v. Some (None, v))"
    by (simp_all add: limited_stream_def front_stream_def)
  have "DriverService_UpdateLocation_Handler pb_plain front_ingest ?st v1 = Some (None, v4)"
    unfolding DriverService_UpdateLocation_Handler_def
    by (subst UpdateLocation.simps, subst UpdateLocation.simps) (simp add: r1 r2 d i sel)
  with o obtain w' where e: "rateLimitStreamInterceptor front_rt (Some (\<lambda>c. Wait (Some front_limiter) (Some c)))
      (Some front_met) front_stream ''/m'' (DriverService_UpdateLocation_Handler pb_plain front_ingest) ?w = Some (None, w')"
    by (simp add: rateLimitStreamInterceptor_def Let_def)
  have "filled front_limiter fr_clock ?w"
    by (simp add: filled_def front_start_def front_defs bucket_wf_def)
  from stream_rationed [OF ration.rationed_axioms _ this e] e show ?thesis
    by (auto simp: front_start_def front_defs)
qed

end
