(* ===== verification/Server.thy ===== *)
theory Server
  imports Builder LocationWiring Middleware
begin

text \<open>
  cmd/server/main.go: the process that wires the parts together, serves until it is told to
  stop, and shuts down; its observability endpoint with the readiness check.
\<close>

section \<open>Readiness\<close>

text \<open>\<open>SELECT 1\<close> as \<open>ExecContext\<close> runs it, on any database.\<close>

definition select_one :: "'t stmt" where
  "select_one now t = (Inr 1, t)"

definition readinessCheck ::
  "('w, 'p, 'c, 'o) redis_lib \<Rightarrow> ('w, 't) sql_driver \<Rightarrow> ('p, 'c) os_env \<Rightarrow> (string \<Rightarrow> 'w \<Rightarrow> 'w) \<Rightarrow>
   'w ctx \<Rightarrow> ('w, go_error option) act" where
  "readinessCheck redis sql os log_Printf ctx w =
     (case GetRedisURL os of
        Inl err \<Rightarrow> Some (Some err, w)
      | Inr redisURL \<Rightarrow>
          (let dbURL = os_Getenv os ''DATABASE_URL''
           in if dbURL = '''' then Some (Some (ErrText ''DATABASE_URL is required''), w)
              else case redis_ParseURL redis redisURL of
                Inl err \<Rightarrow> Some (Some err, w)
              | Inr redisOpts \<Rightarrow> do {
                  let (rdb, w) = redis_NewClient redis redisOpts w;
                  (err, w) \<leftarrow> cl_Ping rdb ctx w;
                  case err of
                    Some err \<Rightarrow> Some (Some err, snd (cl_Close rdb w))
                  | None \<Rightarrow>
                      let w = snd (cl_Close rdb w)
                      in (case sql_Open sql ''pgx'' dbURL w of
                            (Inl err, w) \<Rightarrow> Some (Some err, w)
                          | (Inr db, w) \<Rightarrow>
                              (case ExecContext db ctx select_one w of (r, w) \<Rightarrow>
                                (let w = (case sql_Close sql db w of
                                       (Some cerr, w) \<Rightarrow> log_Printf (''readiness db close: '' @ err_Error cerr) w
                                     | (None, w) \<Rightarrow> w)
                                 in Some (case r of Inl err \<Rightarrow> Some err | Inr _ \<Rightarrow> None, w))))
                }))"

section \<open>The observability endpoint\<close>

text \<open>A response: its status, the headers set, and its body.\<close>

type_synonym http_response = "int \<times> (string \<times> string) list \<times> string"

record 'w http_Server =
  hs_Addr :: string
  hs_Handler :: "string \<Rightarrow> 'w ctx \<Rightarrow> ('w, http_response) act"

definition readyz_Handler :: "('w ctx \<Rightarrow> ('w, go_error option) act) \<Rightarrow> 'w ctx \<Rightarrow> ('w, http_response) act" where
  "readyz_Handler check ctx w = do {
     (err, w) \<leftarrow> check ctx w;
     case err of
       Some err \<Rightarrow> Some ((503, [], err_Error err), w)
     | None \<Rightarrow> Some ((200, [], ''ok''), w)
   }"

text \<open>The two paths of the mux are matched exactly; every other request gets the mux's 404.\<close>

definition obs_mux ::
  "('w ctx \<Rightarrow> ('w, http_response) act) \<Rightarrow> ('w ctx \<Rightarrow> ('w, http_response) act) \<Rightarrow>
   string \<Rightarrow> 'w ctx \<Rightarrow> ('w, http_response) act" where
  "obs_mux metrics readyz path ctx w =
     (if path = ''/metrics'' then metrics ctx w
      else if path = ''/readyz'' then readyz ctx w
      else Some ((404, [], ''404 page not found'' @ [CHR 0x0A]), w))"

section \<open>The gRPC server\<close>

text \<open>
  What is registered with \<open>grpc.NewServer\<close>: the interceptors, the ingest service behind the
  driver service and the order service. The calls into the libraries that give nothing back
  are events: the health statuses, the registration of reflection, the start of the HTTP
  server, and the two shutdowns.
\<close>

record 'w grpc_Server =
  gs_Unary :: "('w, CreateOrderRequest, CreateOrderResponse) UnaryInterceptor"
  gs_Stream :: "('w, LocationMsg, string) ServerStream \<Rightarrow> string \<Rightarrow>
    (('w, LocationMsg, string) ServerStream \<Rightarrow> ('w, go_error option) act) \<Rightarrow> ('w, go_error option) act"
  gs_Driver :: "'w IngestService"
  gs_Order :: "'w OrderServiceI"

datatype server_call =
    SetServingStatus string bool
  | RegisterReflection
  | StartHTTP string
  | GracefulStop
  | ShutdownHTTP

definition DriverService_ServiceName :: string where "DriverService_ServiceName = ''driver.DriverService''"
definition OrderService_ServiceName :: string where "OrderService_ServiceName = ''order.OrderService''"

text \<open>
  The libraries and the allocations of the process. \<open>srv_Serve\<close> is the \<open>select\<close> of \<open>run\<close>: the
  server serves on the listener, with the HTTP server beside it, until the context is done
  (\<^const>\<open>None\<close>) or \<open>Serve\<close> returns with its result.
\<close>

record ('w, 'p, 'c, 'o, 'l) process =
  pr_rt :: "'w runtime"
  pr_redis :: "('w, 'p, 'c, 'o) redis_lib"
  pr_locDB :: "('w, loc_tables) sql_driver"
  pr_orderDB :: "('w, tables) sql_driver"
  pr_os :: "('p, 'c) os_env"
  pr_newV7 :: "('w, go_error + string) prim"
  pr_render :: "json \<Rightarrow> string"
  pr_encode :: "Snapshot \<Rightarrow> string"
  pr_Printf :: "string \<Rightarrow> 'w \<Rightarrow> 'w"
  pr_cells :: "'w order_cells"
  pr_limiter :: "('w, limiter) ref"
  pr_metrics :: "('w, Metrics) ref"
  net_Listen :: "string \<Rightarrow> string \<Rightarrow> ('w, go_error + 'l) prim"
  srv_Call :: "server_call \<Rightarrow> 'w \<Rightarrow> 'w"
  srv_Serve :: "'l \<Rightarrow> 'w grpc_Server \<Rightarrow> 'w http_Server \<Rightarrow> 'w ctx \<Rightarrow> ('w, go_error option option) act"

definition startObservabilityServer ::
  "('w, 'p, 'c, 'o, 'l) process \<Rightarrow> ('w, Metrics) ref \<Rightarrow> ('w, go_error + 'w http_Server) prim" where
  "startObservabilityServer pr metrics w =
     (case LoadObservability (pr_os pr) of
        Inl err \<Rightarrow> (Inl err, w)
      | Inr cfg \<Rightarrow>
          (let srv = \<lparr>hs_Addr = obs_Addr cfg, hs_Handler = obs_mux
                 (\<lambda>ctx w. case metrics_Handler (pr_rt pr) (pr_encode pr) (Some metrics) w of
                    ((headers, body), w) \<Rightarrow> Some ((200, headers, body), w))
                 (readyz_Handler (readinessCheck (pr_redis pr) (pr_orderDB pr) (pr_os pr) (pr_Printf pr)))\<rparr>
           in (Inr srv, srv_Call pr (StartHTTP (hs_Addr srv)) w)))"

text \<open>The branch of the \<open>select\<close> for the end of the context.\<close>

definition shutdown_server :: "('w, 'p, 'c, 'o, 'l) process \<Rightarrow> ('w, Metrics) ref \<Rightarrow> 'w \<Rightarrow> 'w" where
  "shutdown_server pr metrics w =
     (let w = srv_Call pr (SetServingStatus DriverService_ServiceName False) w;
          w = srv_Call pr (SetServingStatus OrderService_ServiceName False) w;
          w = srv_Call pr (SetServingStatus '''' False) w;
          (snap, w) = Metrics_Snapshot (pr_rt pr) (Some metrics) w;
          w = MarkShutdown (pr_rt pr) (Some metrics) (TotalInFlight snap) w;
          w = srv_Call pr GracefulStop w;
          (shutdownCtx, w) = context_WithTimeout (pr_rt pr) context_Background (2 * 1000000000) w
      in srv_Call pr ShutdownHTTP w)"

definition announce_services :: "('w, 'p, 'c, 'o, 'l) process \<Rightarrow> 'w \<Rightarrow> 'w" where
  "announce_services pr w =
     (let w = srv_Call pr (SetServingStatus DriverService_ServiceName True) w;
          w = srv_Call pr (SetServingStatus OrderService_ServiceName True) w;
          w = srv_Call pr (SetServingStatus '''' True) w
      in if os_Getenv (pr_os pr) ''APP_ENV'' \<noteq> ''production'' then srv_Call pr RegisterReflection w else w)"

text \<open>\<open>run\<close> from the listener on, with the services built.\<close>

definition run_server ::
  "('w, 'p, 'c, 'o, 'l) process \<Rightarrow> 'w ctx \<Rightarrow> 'w IngestService \<Rightarrow> ('w, Metrics) ref \<Rightarrow> 'w OrderService \<Rightarrow>
   ('w, go_error option) act" where
  "run_server pr ctx ingestService metrics orderService w =
     (case net_Listen pr ''tcp'' '':50051'' w of
        (Inl err, w) \<Rightarrow> Some (Some err, w)
      | (Inr lis, w) \<Rightarrow>
          (case LoadGRPC (pr_os pr) of
             Inl err \<Rightarrow> Some (Some err, w)
           | Inr grpcCfg \<Rightarrow>
               (let (limiter, w) = NewRateLimiterWithHook (pr_rt pr) (pr_limiter pr) (grpc_RateLimitInterval grpcCfg)
                      (grpc_RateLimitBurst grpcCfg) (Some (AddRateLimitWait (Some metrics))) w;
                    wait = (\<lambda>ctx. Wait (Some limiter) (Some ctx));
                    server = \<lparr>gs_Unary = rateLimitUnaryInterceptor (pr_rt pr) (Some wait) (Some metrics),
                      gs_Stream = rateLimitStreamInterceptor (pr_rt pr) (Some wait) (Some metrics),
                      gs_Driver = ingestService, gs_Order = CreateOrder orderService\<rparr>;
                    w = announce_services pr w
                in case startObservabilityServer pr metrics w of
                     (Inl obsErr, w) \<Rightarrow> Some (Some obsErr, w)
                   | (Inr obsSrv, w) \<Rightarrow> do {
                       (ended, w) \<leftarrow> srv_Serve pr lis server obsSrv ctx w;
                       case ended of
                         None \<Rightarrow> Some (None, shutdown_server pr metrics w)
                       | Some err \<Rightarrow> Some (err, w)
                     })))"

definition run :: "('w, 'p, 'c, 'o, 'l) process \<Rightarrow> 'w ctx \<Rightarrow> ('w, go_error option) act" where
  "run pr ctx w = do {
     (st, w) \<leftarrow> buildLocationStore (pr_rt pr) (pr_redis pr) (pr_locDB pr) (pr_os pr) (pr_Printf pr) (Some ctx) w;
     case st of
       Inl err \<Rightarrow> Some (Some err, w)
     | Inr (locationStore, cleanupStore) \<Rightarrow> do {
         let ingestService = NewIngestService (NewFanoutPublisher (pr_render pr) (NewStorePublisher locationStore) None);
         let (metrics, w) = NewMetrics (pr_rt pr) (pr_metrics pr) w;
         (svc, w) \<leftarrow> BuildOrderService (pr_rt pr) (pr_orderDB pr) (pr_os pr) (pr_cells pr) (pr_newV7 pr) (pr_Printf pr)
           ctx (os_Getenv (pr_os pr) ''DATABASE_URL'') (Some (pr_Printf pr)) w;
         case svc of
           Inl err \<Rightarrow> Some (Some err, cleanupStore w)
         | Inr (orderService, cleanup) \<Rightarrow> do {
             (err, w) \<leftarrow> run_server pr ctx ingestService metrics orderService w;
             Some (err, cleanupStore (cleanup w))
           }
       }
   }"

text \<open>
  \<open>main\<close>: \<open>godotenv.Load\<close> and \<open>signal.NotifyContext\<close> (the context and its stop function) are
  parameters; the result is the exit status. \<open>log.Fatalf\<close> exits without the deferred \<open>stop\<close>.
\<close>

definition main ::
  "('w, 'p, 'c, 'o, 'l) process \<Rightarrow> ('w \<Rightarrow> 'w) \<Rightarrow> ('w, 'w ctx \<times> ('w \<Rightarrow> 'w)) prim \<Rightarrow> ('w, int) act" where
  "main pr godotenv_Load signal_NotifyContext w =
     (let w = godotenv_Load w;
          ((ctx, stop), w) = signal_NotifyContext w
      in do {
        (err, w) \<leftarrow> run pr ctx w;
        case err of
          Some err \<Rightarrow> Some (1, pr_Printf pr (''server error: '' @ err_Error err) w)
        | None \<Rightarrow> Some (0, stop w)
      })"

section \<open>What a probe and a run leave open\<close>

text \<open>The Redis client and the pool a probe opens, each closed before it answers.\<close>

lemma readiness_effect:
  assumes "redis_clients redis obs conns" "sql_pool p sql conns"
    and ctx: "\<And>v. held conns obs (snd (ctx v)) = held conns obs v" and log: "\<And>m v. conns (log_Printf m v) = conns v"
    and run: "readinessCheck redis sql os log_Printf ctx v = Some (res, v')"
  shows "conns v' = conns v \<and> (res = None \<longrightarrow> raw_var os ''REDIS_URL'' \<noteq> '''' \<and> os_Getenv os ''DATABASE_URL'' \<noteq> '''' \<and>
    (\<exists>opts c v1 v2. redis_ParseURL redis (raw_var os ''REDIS_URL'') = Inr opts \<and> redis_NewClient redis opts v = (c, v1) \<and>
      cl_Ping c ctx v1 = Some (None, v2)) \<and> (\<exists>x n y. ExecContext p ctx select_one x = (Inr n, y)))"
proof (cases "\<exists>url opts. GetRedisURL os = Inr url \<and> os_Getenv os ''DATABASE_URL'' \<noteq> '''' \<and> redis_ParseURL redis url = Inr opts")
  case False
  with run have "v' = v \<and> res \<noteq> None"
    by (auto simp: readinessCheck_def Let_def split: sum.split_asm if_split_asm)
  then show ?thesis by auto
next
  case True
  then obtain url opts where ok: "GetRedisURL os = Inr url" "os_Getenv os ''DATABASE_URL'' \<noteq> ''''"
    "redis_ParseURL redis url = Inr opts" by blast
  have url: "url = raw_var os ''REDIS_URL''" "url \<noteq> ''''"
    using ok(1) by (auto simp: GetRedisURL_def requiredString_def Let_def split: if_split_asm)
  obtain c v1 where 1: "redis_NewClient redis opts v = (c, v1)" by fastforce
  have made: "made redis c" using 1 unfolding made_def by (metis fst_conv)
  from run ok 1 obtain e v2 where 2: "cl_Ping c ctx v1 = Some (e, v2)"
    by (auto simp: readinessCheck_def Let_def bind_pair_Some_iff)
  have "held conns obs v2 = (conns v + 1, obs v)"
    using redis_clients.new_client [OF assms(1) 1] redis_clients.ping [OF assms(1) made 2 ctx] by simp
  moreover obtain e3 v3 where 3: "cl_Close c v2 = (e3, v3)" by fastforce
  ultimately have c3: "conns v3 = conns v"
    using redis_clients.close_client [OF assms(1) made, of v2] by (simp add: held_def)
  show ?thesis
  proof (cases e)
    case (Some err)
    with run ok 1 2 3 c3 show ?thesis by (auto simp: readinessCheck_def Let_def)
  next
    case e: None
    obtain q v4 where 4: "sql_Open sql ''pgx'' (os_Getenv os ''DATABASE_URL'') v3 = (q, v4)" by fastforce
    show ?thesis
    proof (cases q)
      case (Inl err)
      with run ok 1 2 3 4 e c3 sql_pool.open_failed [OF assms(2) 4 [unfolded Inl]] show ?thesis
        by (auto simp: readinessCheck_def Let_def)
    next
      case (Inr q')
      note o4 = sql_pool.open_ok [OF assms(2) 4 [unfolded Inr]]
      obtain r v5 where 5: "ExecContext p ctx select_one v4 = (r, v5)" by fastforce
      obtain e6 v6 where 6: "sql_Close sql p v5 = (e6, v6)" by fastforce
      have "conns (snd (ctx y)) = conns y" for y using ctx [of y] by (simp add: held_def)
      from sql_pool.exec_conns [OF assms(2) 5 this] sql_pool.close(1) [OF assms(2), of v5]
      have c6: "conns v6 = conns v" using o4 c3 6 by simp
      from run ok 1 2 3 4 e Inr o4 5 6
      have v': "v' = (case e6 of Some x \<Rightarrow> log_Printf (''readiness db close: '' @ err_Error x) v6 | None \<Rightarrow> v6)"
        and res: "res = (case r of Inl err \<Rightarrow> Some err | Inr _ \<Rightarrow> None)"
        by (auto simp: readinessCheck_def Let_def split: option.splits)
      have "conns v' = conns v" using c6 log by (cases e6) (simp_all add: v')
      moreover have "\<exists>n. r = Inr n" if "res = None" using that res by (auto split: sum.splits)
      ultimately show ?thesis using ok url 1 2 e 5 by blast
    qed
  qed
qed

section \<open>From the listener to the shutdown\<close>

text \<open>
  The calls into the libraries are recorded in \<open>calls\<close>; nothing else adds to them, and nothing
  here opens or closes what \<open>conns\<close> counts. Calls of the service may start and finish during any
  of them, as the pending ones do while \<open>GracefulStop\<close> waits for them; the lifecycle part of the
  metrics is written by \<open>MarkShutdown\<close> alone. Reading the clock changes nothing here: no call ends
  between the snapshot and \<open>MarkShutdown\<close>.
\<close>

definition announcements :: "('p, 'c) os_env \<Rightarrow> server_call list" where
  "announcements os = [SetServingStatus DriverService_ServiceName True, SetServingStatus OrderService_ServiceName True,
     SetServingStatus '''' True] @ (if os_Getenv os ''APP_ENV'' = ''production'' then [] else [RegisterReflection])"

definition farewell :: "server_call list" where
  "farewell = [SetServingStatus DriverService_ServiceName False, SetServingStatus OrderService_ServiceName False,
     SetServingStatus '''' False, GracefulStop, ShutdownHTTP]"

definition not_serving :: "('w, 'p, 'c, 'o, 'l) process \<Rightarrow> 'w \<Rightarrow> 'w" where
  "not_serving pr y = srv_Call pr (SetServingStatus '''' False) (srv_Call pr (SetServingStatus OrderService_ServiceName False)
     (srv_Call pr (SetServingStatus DriverService_ServiceName False) y))"

locale server_frame = cell "pr_metrics pr" for pr :: "('w, 'p, 'c, 'o, 'l) process" +
  fixes calls :: "'w \<Rightarrow> server_call list" and conns :: "'w \<Rightarrow> int"
  assumes call: "calls (srv_Call pr c v) = calls v @ [c]"
      "m_lifecycle (rd (pr_metrics pr) (srv_Call pr c v)) = m_lifecycle (rd (pr_metrics pr) v)"
    and clock: "calls (snd (time_Now (pr_rt pr) v)) = calls v" "rd (pr_metrics pr) (snd (time_Now (pr_rt pr) v)) = rd (pr_metrics pr) v"
    and listen: "calls (snd (net_Listen pr net addr v)) = calls v"
    and writes: "calls (wr (pr_metrics pr) m v) = calls v" "calls (wr (pr_limiter pr) l v) = calls v"
    and idle: "conns (srv_Call pr c v) = conns v" "conns (snd (time_Now (pr_rt pr) v)) = conns v"
      "conns (snd (net_Listen pr net addr v)) = conns v" "conns (wr (pr_metrics pr) m v) = conns v"
      "conns (wr (pr_limiter pr) l v) = conns v"
begin

lemma shutdown_effect:
  "calls (shutdown_server pr (pr_metrics pr) v) = calls v @ farewell"
  "\<exists>t. lc_inflight (m_lifecycle (rd (pr_metrics pr) (shutdown_server pr (pr_metrics pr) v))) =
    TotalInFlight (snapshot_at t (rd (pr_metrics pr) (not_serving pr v)))"
  "conns (shutdown_server pr (pr_metrics pr) v) = conns v"
proof -
  let ?m = "pr_metrics pr"
  define v1 where "v1 = not_serving pr v"
  obtain t v2 where 2: "time_Now (pr_rt pr) v1 = (t, v2)" by fastforce
  obtain u v3 where 3: "time_Now (pr_rt pr) v2 = (u, v3)" by fastforce
  define m where "m = metrics_shutdown u (TotalInFlight (snapshot_at t (rd ?m v2))) (rd ?m v3)"
  define v4 where "v4 = srv_Call pr GracefulStop (wr ?m m v3)"
  obtain x v5 where 5: "context_WithTimeout (pr_rt pr) context_Background (2 * 1000000000) v4 = (x, v5)" by fastforce
  have s: "shutdown_server pr ?m v = srv_Call pr ShutdownHTTP v5"
    using 2 3 5 by (simp add: shutdown_server_def Metrics_Snapshot_def MarkShutdown_def not_serving_def v1_def v4_def m_def Let_def)
  have c2: "calls v2 = calls v1" "rd ?m v2 = rd ?m v1" using clock [of v1] 2 by simp_all
  have c3: "calls v3 = calls v2" "rd ?m v3 = rd ?m v2" using clock [of v2] 3 by simp_all
  have c5: "calls v5 = calls v4" "rd ?m v5 = rd ?m v4"
    using context_WithTimeout_keeps(1) [where F = calls, OF 5] context_WithTimeout_keeps(1) [where F = "rd ?m", OF 5]
    by (simp_all add: clock context_Background_def)
  have "conns v5 = conns v4"
    using context_WithTimeout_keeps(1) [where F = conns, OF 5] by (simp add: idle context_Background_def)
  then show "conns (shutdown_server pr ?m v) = conns v"
    using idle(2) [of v1] idle(2) [of v2] 2 3 by (simp add: s v4_def v1_def not_serving_def idle(1,4))
  have r: "m_lifecycle (rd ?m (shutdown_server pr ?m v)) = m_lifecycle m" by (simp add: s call(2) c5 v4_def rd_wr)
  show "calls (shutdown_server pr ?m v) = calls v @ farewell"
    by (simp add: s call(1) c5 c3 c2 v4_def v1_def not_serving_def writes farewell_def)
  show "\<exists>t. lc_inflight (m_lifecycle (rd ?m (shutdown_server pr ?m v))) =
      TotalInFlight (snapshot_at t (rd ?m (not_serving pr v)))"
    by (auto simp: r m_def metrics_shutdown_def c3 c2 v1_def)
qed

lemma announce_effect: "calls (announce_services pr v) = calls v @ announcements (pr_os pr)"
  "conns (announce_services pr v) = conns v"
  by (simp_all add: announce_services_def announcements_def call idle Let_def)

text \<open>Either it does not come to serving, and an error is returned, or it serves once.\<close>

lemma server_effect:
  assumes "run_server pr ctx ing (pr_metrics pr) svc v = Some (err, v')"
  shows "(err \<noteq> None \<and> conns v' = conns v \<and> (\<exists>n. calls v' = calls v @ take n (announcements (pr_os pr)))) \<or>
    (\<exists>lis srv addr obs x ended y. srv_Serve pr lis srv obs ctx x = Some (ended, y) \<and> addr = hs_Addr obs \<and>
      gs_Driver srv = ing \<and> gs_Order srv = CreateOrder svc \<and>
      calls x = calls v @ announcements (pr_os pr) @ [StartHTTP addr] \<and> conns x = conns v \<and>
      (case ended of
         None \<Rightarrow> err = None \<and> v' = shutdown_server pr (pr_metrics pr) y
       | Some e \<Rightarrow> err = e \<and> v' = y))"
proof -
  obtain l v1 where 1: "net_Listen pr ''tcp'' '':50051'' v = (l, v1)" by fastforce
  have c1: "calls v1 = calls v" "conns v1 = conns v"
    using listen [of "''tcp''" "'':50051''" v] idle(3) [of "''tcp''" "'':50051''" v] 1 by simp_all
  show ?thesis
  proof (cases "(\<exists>e. l = Inl e) \<or> (\<exists>e. LoadGRPC (pr_os pr) = Inl e)")
    case True
    with assms 1 have "err \<noteq> None \<and> v' = v1" by (auto simp: run_server_def split: sum.splits)
    with c1 show ?thesis by (intro disjI1 conjI exI [of _ 0]) simp_all
  next
    case False
    then obtain lis cfg where l: "l = Inr lis" and cfg: "LoadGRPC (pr_os pr) = Inr cfg" by (meson sum.exhaust)
    let ?met = "pr_metrics pr"
    obtain limiter v2 where 2: "NewRateLimiterWithHook (pr_rt pr) (pr_limiter pr) (grpc_RateLimitInterval cfg)
      (grpc_RateLimitBurst cfg) (Some (AddRateLimitWait (Some ?met))) v1 = (limiter, v2)" by fastforce
    have c2: "calls v2 = calls v1" "conns v2 = conns v1"
      using 2 clock(1) [of v1] idle(2) [of v1]
      by (auto simp: NewRateLimiterWithHook_def Let_def writes idle(5) split: prod.splits)
    define v3 where "v3 = announce_services pr v2"
    have c3: "calls v3 = calls v @ announcements (pr_os pr)" "conns v3 = conns v"
      by (simp_all add: v3_def announce_effect c2 c1)
    obtain o' v4 where 4: "startObservabilityServer pr ?met v3 = (o', v4)" by fastforce
    show ?thesis
    proof (cases o')
      case (Inl e)
      with 4 have "v4 = v3" by (auto simp: startObservabilityServer_def Let_def split: sum.split_asm)
      with assms 1 l cfg 2 4 Inl have "err = Some e \<and> v' = v3" by (simp add: run_server_def Let_def v3_def)
      with c3 show ?thesis by (intro disjI1 conjI exI [of _ "length (announcements (pr_os pr))"]) simp_all
    next
      case (Inr obs)
      with 4 have c4: "calls v4 = calls v3 @ [StartHTTP (hs_Addr obs)]" "conns v4 = conns v3"
        by (auto simp: startObservabilityServer_def Let_def call idle split: sum.split_asm)
      let ?srv = "\<lparr>gs_Unary = rateLimitUnaryInterceptor (pr_rt pr) (Some (\<lambda>ctx. Wait (Some limiter) (Some ctx))) (Some ?met),
        gs_Stream = rateLimitStreamInterceptor (pr_rt pr) (Some (\<lambda>ctx. Wait (Some limiter) (Some ctx))) (Some ?met),
        gs_Driver = ing, gs_Order = CreateOrder svc\<rparr>"
      from assms 1 l cfg 2 4 Inr obtain ended v5 where 5: "srv_Serve pr lis ?srv obs ctx v4 = Some (ended, v5)"
        and e: "(case ended of None \<Rightarrow> Some (None, shutdown_server pr ?met v5) | Some e \<Rightarrow> Some (e, v5)) = Some (err, v')"
        by (auto simp: run_server_def Let_def v3_def [symmetric] bind_pair_Some_iff)
      show ?thesis
        by (intro disjI2 exI [of _ lis] exI [of _ ?srv] exI [of _ "hs_Addr obs"] exI [of _ obs] exI [of _ v4]
            exI [of _ ended] exI [of _ v5] conjI 5)
          (use e c3 c4 in \<open>auto split: option.splits\<close>)
    qed
  qed
qed

end

section \<open>The whole process\<close>

text \<open>
  Both databases, Redis and the libraries in one world, where \<open>conns\<close> counts the open clients
  and pools: building, running and logging change it only by what they open and close.
\<close>

locale process_plant =
  frame: server_frame pr calls conns +
  loc: location_plant ql "pr_rt pr" "pr_redis pr" ctx "pr_locDB pr" conns +
  ord: order_plant qo "pr_rt pr" "pr_cells pr" ctx "pr_orderDB pr" conns
  for pr :: "('w, 'p, 'c, 'o, 'l) process" and calls :: "'w \<Rightarrow> server_call list" and conns :: "'w \<Rightarrow> int"
    and ctx :: "'w ctx" and ql :: "('w, loc_tables sqldb) ref" and qo :: "('w, db) ref" +
  assumes logging: "conns (pr_Printf pr m v) = conns v"
begin

lemma run_effect:
  assumes "run pr ctx v = Some (err, v')"
  shows "(err \<noteq> None \<and> conns v' = conns v) \<or>
    (\<exists>lis srv obs x ended y. srv_Serve pr lis srv obs ctx x = Some (ended, y) \<and>
      conns x = conns v + 3 \<and> conns v' = conns y - 3 \<and> (case ended of None \<Rightarrow> err = None | Some e \<Rightarrow> err = e))"
proof -
  from assms obtain st v1 where 1: "buildLocationStore (pr_rt pr) (pr_redis pr) (pr_locDB pr) (pr_os pr) (pr_Printf pr)
      (Some ctx) v = Some (st, v1)"
    by (auto simp: run_def bind_pair_Some_iff)
  note s1 = loc.store_effect [OF 1]
  show ?thesis
  proof (cases st)
    case (Inl e)
    with assms 1 s1 show ?thesis by (auto simp: run_def)
  next
    case (Inr sc)
    obtain store cleanupStore where sc: "sc = (store, cleanupStore)" by fastforce
    from s1 Inr sc obtain c where c1: "conns v1 = conns v + 2" and "made (pr_redis pr) c"
      "cleanupStore = locations_cleanup (pr_locDB pr) (pr_Printf pr) c ql" by auto
    with loc.cleanup_held [of c "pr_Printf pr"] logging
    have cs: "conns (cleanupStore x) = conns x - 2" for x by simp
    define ing where "ing = NewIngestService (NewFanoutPublisher (pr_render pr) (NewStorePublisher store) None)"
    obtain m v2 where 2: "NewMetrics (pr_rt pr) (pr_metrics pr) v1 = (m, v2)" by fastforce
    then have m: "m = pr_metrics pr" and c2: "conns v2 = conns v + 2"
      using frame.idle(2) [of v1] c1 by (auto simp: NewMetrics_def frame.idle(4) split: prod.splits)
    from assms 1 Inr sc 2 obtain r v3 where 3: "BuildOrderService (pr_rt pr) (pr_orderDB pr) (pr_os pr) (pr_cells pr)
        (pr_newV7 pr) (pr_Printf pr) ctx (os_Getenv (pr_os pr) ''DATABASE_URL'') (Some (pr_Printf pr)) v2 = Some (r, v3)"
      by (auto simp: run_def bind_pair_Some_iff Let_def)
    note b3 = ord.build_effect [OF 3]
    show ?thesis
    proof (cases r)
      case (Inl e)
      with assms 1 \<open>st = Inr sc\<close> sc 2 3 have "err = Some e \<and> v' = cleanupStore v3" by (simp add: run_def Let_def)
      with b3 Inl c2 cs show ?thesis by simp
    next
      case r: (Inr svc)
      obtain s cleanup where svc: "svc = (s, cleanup)" by fastforce
      with b3 r logging have c3: "conns v3 = conns v + 3" and cl: "\<And>x. conns (cleanup x) = conns x - 1"
        using c2 by auto
      from assms 1 \<open>st = Inr sc\<close> sc 2 3 r svc m obtain v4
        where 4: "run_server pr ctx ing (pr_metrics pr) s v3 = Some (err, v4)" and v': "v' = cleanupStore (cleanup v4)"
        by (auto simp: run_def Let_def ing_def bind_pair_Some_iff)
      from frame.server_effect [OF 4] show ?thesis
      proof (elim disjE conjE exE)
        assume "err \<noteq> None" "conns v4 = conns v3"
        then show ?thesis using c3 cs cl by (simp add: v')
      next
        fix lis srv addr obs x ended y
        assume a: "srv_Serve pr lis srv obs ctx x = Some (ended, y)" "conns x = conns v3"
          "case ended of None \<Rightarrow> err = None \<and> v4 = shutdown_server pr (pr_metrics pr) y | Some e \<Rightarrow> err = e \<and> v4 = y"
        then have "conns v4 = conns y" using frame.shutdown_effect(3) [of y] by (auto split: option.splits)
        with a c3 cs cl show ?thesis
          by (intro disjI2 exI [of _ lis] exI [of _ srv] exI [of _ obs] exI [of _ x] exI [of _ ended] exI [of _ y])
            (auto simp: v' split: option.splits)
      qed
    qed
  qed
qed

end

section \<open>A host\<close>

text \<open>
  A host with everything the process needs, each thing in a field of its own; its server
  answers one readiness probe, begins a call and is then told to stop; the call ends while the
  graceful stop waits for it.
\<close>

record host =
  ho_orders :: db
  ho_payLimiter :: limiter
  ho_drvLimiter :: limiter
  ho_payBreaker :: breaker
  ho_drvBreaker :: breaker
  ho_locs :: "loc_tables sqldb"
  ho_sent :: "redis_cmd list list"
  ho_conns :: int
  ho_clock :: instant
  ho_ids :: int
  ho_limiter :: limiter
  ho_metrics :: Metrics
  ho_calls :: "server_call list"
  ho_stop :: bool

definition host_orders :: "(host, db) ref" where
  "host_orders = \<lparr>rd = ho_orders, wr = (\<lambda>a w. w\<lparr>ho_orders := a\<rparr>)\<rparr>"

definition host_locs :: "(host, loc_tables sqldb) ref" where
  "host_locs = \<lparr>rd = ho_locs, wr = (\<lambda>a w. w\<lparr>ho_locs := a\<rparr>)\<rparr>"

definition host_pool :: "(host, 't sqldb) ref \<Rightarrow> (host, 't) sql_driver" where
  "host_pool p = \<lparr>sql_Open = (\<lambda>d dsn w. (Inr p, w\<lparr>ho_conns := ho_conns w + 1\<rparr>)),
     sql_Close = (\<lambda>q w. (None, w\<lparr>ho_conns := ho_conns w - 1\<rparr>))\<rparr>"

definition host_pipe :: "host RedisPipeliner" where
  "host_pipe = \<lparr>pipe_HSet = (\<lambda>_ _ _ v. Some ((), v)), pipe_Expire = (\<lambda>_ _ _ v. Some ((), v)),
     pipe_XAdd = (\<lambda>_ _ v. Some ((), v)), pipe_Exec = (\<lambda>_ v. Some (None, v))\<rparr>"

definition host_client :: "host redis_Client" where
  "host_client = \<lparr>cl_Pipeline = (\<lambda>v. Some (host_pipe, v)), cl_Ping = (\<lambda>x v. Some (x v)),
     cl_Close = (\<lambda>v. (None, v\<lparr>ho_conns := ho_conns v - 1\<rparr>)),
     cl_InstrumentTracing = (\<lambda>v. (None, v)), cl_InstrumentMetrics = (\<lambda>v. (None, v))\<rparr>"

definition host_ctx :: "host ctx" where
  "host_ctx w = (if ho_stop w then Some context_Canceled else None, w)"

definition host_env :: "(unit, unit) os_env" where
  "host_env = env_of (reliability_vars sample_reliability @
     [(''REDIS_URL'', ''redis://r''), (''REDIS_HEALTHCHECK_TIMEOUT'', ''2s''), (''REDIS_LOCATION_TTL'', ''0s''),
      (''REDIS_STREAM_MAXLEN'', ''5''), (''DATABASE_URL'', ''postgres://pg''), (''OBS_ADDR'', '':9090''),
      (''GRPC_RATE_LIMIT_INTERVAL'', ''10ms''), (''GRPC_RATE_LIMIT_BURST'', ''100''), (''APP_ENV'', ''production'')])"

definition host_process :: "(host, unit, unit, string, unit) process" where
  "host_process =
     \<lparr>pr_rt = \<lparr>time_Now = (\<lambda>w. (ho_clock w, w\<lparr>ho_clock := ho_clock w + 1\<rparr>)),
        select_timer = (\<lambda>ctx d w. (True, w\<lparr>ho_clock := ho_clock w + d\<rparr>)), rand_Int63n = (\<lambda>n w. (0, w))\<rparr>,
      pr_redis = \<lparr>redis_ParseURL = (\<lambda>url. Inr \<lparr>ro_DialTimeout = 0, ro_ReadTimeout = 0, ro_WriteTimeout = 0, ro_PoolSize = 0,
          ro_MinIdleConns = 0, ro_MaxRetries = 0, ro_TLSConfig = None, ro_rest = url\<rparr>),
        redis_NewClient = (\<lambda>opts v. (host_client, v\<lparr>ho_conns := ho_conns v + 1\<rparr>))\<rparr>,
      pr_locDB = host_pool host_locs, pr_orderDB = host_pool host_orders, pr_os = host_env,
      pr_newV7 = (\<lambda>w. (Inr (CHR ''o'' # show_dec (ho_ids w)), w\<lparr>ho_ids := ho_ids w + 1\<rparr>)),
      pr_render = (\<lambda>_. ''{}''), pr_encode = (\<lambda>_. ''{}''), pr_Printf = (\<lambda>_ w. w),
      pr_cells = \<lparr>oc_paymentLimiter = \<lparr>rd = ho_payLimiter, wr = (\<lambda>a w. w\<lparr>ho_payLimiter := a\<rparr>)\<rparr>,
        oc_driverLimiter = \<lparr>rd = ho_drvLimiter, wr = (\<lambda>a w. w\<lparr>ho_drvLimiter := a\<rparr>)\<rparr>,
        oc_paymentBreaker = \<lparr>rd = ho_payBreaker, wr = (\<lambda>a w. w\<lparr>ho_payBreaker := a\<rparr>)\<rparr>,
        oc_driverBreaker = \<lparr>rd = ho_drvBreaker, wr = (\<lambda>a w. w\<lparr>ho_drvBreaker := a\<rparr>)\<rparr>\<rparr>,
      pr_limiter = \<lparr>rd = ho_limiter, wr = (\<lambda>a w. w\<lparr>ho_limiter := a\<rparr>)\<rparr>,
      pr_metrics = \<lparr>rd = ho_metrics, wr = (\<lambda>a w. w\<lparr>ho_metrics := a\<rparr>)\<rparr>,
      net_Listen = (\<lambda>net addr w. (Inr (), w)),
      srv_Call = (\<lambda>c w. w\<lparr>ho_calls := ho_calls w @ [c],
        ho_metrics := (if c = GracefulStop then metrics_finish ''/m'' 7 False (ho_metrics w) else ho_metrics w)\<rparr>),
      srv_Serve = (\<lambda>lis srv obs ctx w. do {
        (resp, w) \<leftarrow> hs_Handler obs ''/readyz'' ctx w;
        Some (None, w\<lparr>ho_stop := True, ho_metrics := metrics_begin ''/m'' (ho_metrics w)\<rparr>)
      })\<rparr>"

lemmas host_defs = host_orders_def host_locs_def host_pool_def host_client_def host_ctx_def host_process_def

lemma finish_lifecycle: "m_lifecycle (metrics_finish k d failed m) = m_lifecycle m"
  by (simp add: metrics_finish_def on_method_def ensureMethod_def split: option.split)

interpretation host: process_plant host_process ho_calls ho_conns host_ctx host_locs host_orders
  by unfold_locales
    ((auto simp: host_defs finish_lifecycle held_def made_def separate_def apart_def still_def split: if_splits)[1]; (metis snd_conv)?)+

interpretation probes: redis_clients "pr_redis host_process" ho_orders ho_conns
  by unfold_locales ((auto simp: host_defs held_def made_def)[1]; (metis snd_conv)?)+

definition host_start :: host where
  "host_start = \<lparr>ho_orders = db_with empty_tables (\<lambda>_. Fine), ho_payLimiter = \<lparr>rl_tokens = 0, rl_last = 0\<rparr>,
     ho_drvLimiter = \<lparr>rl_tokens = 0, rl_last = 0\<rparr>, ho_payBreaker = new_breaker, ho_drvBreaker = new_breaker,
     ho_locs = \<lparr>db_tables = \<lparr>lt_created = False, lt_seq = 0, lt_rows = []\<rparr>, db_seq = 0, db_env = (\<lambda>n. (Fine, 0)),
       db_errtext = (\<lambda>_. ''pq'')\<rparr>,
     ho_sent = [], ho_conns = 0, ho_clock = 0, ho_ids = 1, ho_limiter = \<lparr>rl_tokens = 0, rl_last = 0\<rparr>,
     ho_metrics = new_metrics 0, ho_calls = [], ho_stop = False\<rparr>"

definition host_server :: "host \<Rightarrow> (go_error option \<times> host) option" where
  "host_server = run_server host_process host_ctx (NewIngestService (NewStorePublisher (NewMultiLocationStore [])))
     (pr_metrics host_process) (pg_service host_orders (pr_newV7 host_process))"

text \<open>What the environment of the host says.\<close>

lemma host_reads:
  "LoadObservability host_env = Inr \<lparr>obs_Addr = '':9090''\<rparr>" "GetRedisURL host_env = Inr ''redis://r''"
  "LoadGRPC host_env = Inr \<lparr>grpc_RateLimitInterval = 10000000, grpc_RateLimitBurst = 100\<rparr>"
  "os_Getenv host_env ''DATABASE_URL'' = ''postgres://pg''" "os_Getenv host_env ''APP_ENV'' = ''production''"
  "strings_TrimSpace ''postgres://pg'' = ''postgres://pg''"
  by code_simp+

lemma host_loads:
  "loadReliabilityConfigFromEnv host_env = (sample_reliability, None)"
  "LoadRedis host_env = ((redis_zero '''')\<lparr>cfg_URL := ''redis://r'', cfg_HealthcheckTimeout := 2000000000,
     cfg_StreamMaxLen := 5\<rparr>, None)"
  by code_simp+

lemmas host_serving = NewRateLimiterWithHook_def announce_services_def startObservabilityServer_def obs_mux_def
  readyz_Handler_def readinessCheck_def host_defs host_reads host_start_def ExecContext_def select_one_def db_with_def

lemmas host_metrics = shutdown_server_def Metrics_Snapshot_def MarkShutdown_def snapshot_at_def metrics_begin_def
  metrics_finish_def metrics_shutdown_def add_method_def empty_snapshot_def ensureMethod_def on_method_def new_metrics_def new_stats_def
  method_snapshot_def context_WithTimeout_def wrap64_def Let_def

text \<open>
  C27: A readiness probe tells the truth and leaves nothing behind. Whatever it finds, the client
  and the pool it opened are closed again; it answers 200 with \<open>ok\<close> only when the configuration
  is there, Redis answered the ping and the database ran the statement, and otherwise 503 with
  the error.
\<close>

theorem readyz_answers:
  assumes "redis_clients (pr_redis pr) obs conns" "sql_pool p (pr_orderDB pr) conns"
    and "\<And>v. held conns obs (snd (ctx v)) = held conns obs v" "\<And>m v. conns (pr_Printf pr m v) = conns v"
    and "startObservabilityServer pr metrics w = (Inr srv, w1)"
    and "hs_Handler srv ''/readyz'' ctx v = Some ((status, headers, body), v')"
  shows "conns v' = conns v \<and>
    (status = 503 \<and> (\<exists>e. body = err_Error e) \<or>
     status = 200 \<and> body = ''ok'' \<and> raw_var (pr_os pr) ''REDIS_URL'' \<noteq> '''' \<and> os_Getenv (pr_os pr) ''DATABASE_URL'' \<noteq> '''' \<and>
     (\<exists>opts c v1 v2. redis_ParseURL (pr_redis pr) (raw_var (pr_os pr) ''REDIS_URL'') = Inr opts \<and>
       redis_NewClient (pr_redis pr) opts v = (c, v1) \<and> cl_Ping c ctx v1 = Some (None, v2)) \<and>
     (\<exists>x n y. ExecContext p ctx select_one x = (Inr n, y)))"
proof -
  have h: "hs_Handler srv ''/readyz'' = readyz_Handler (readinessCheck (pr_redis pr) (pr_orderDB pr) (pr_os pr) (pr_Printf pr))"
    using assms(5) by (auto simp: startObservabilityServer_def obs_mux_def Let_def fun_eq_iff split: sum.split_asm)
  from assms(6) obtain res where "readinessCheck (pr_redis pr) (pr_orderDB pr) (pr_os pr) (pr_Printf pr) ctx v = Some (res, v')"
    and r: "(case res of Some err \<Rightarrow> status = 503 \<and> body = err_Error err | None \<Rightarrow> status = 200 \<and> body = ''ok'')"
    by (auto simp: h readyz_Handler_def bind_pair_Some_iff split: option.splits)
  from readiness_effect [OF assms(1-4) this(1)] r show ?thesis by (cases res) auto
qed

theorem readyz_answers_witness:
  "\<exists>srv w1 v'. startObservabilityServer host_process (pr_metrics host_process) host_start = (Inr srv, w1) \<and>
    hs_Handler srv ''/readyz'' host_ctx w1 = Some ((200, [], ''ok''), v') \<and> ho_conns v' = ho_conns w1"
proof -
  have "case startObservabilityServer host_process (pr_metrics host_process) host_start of (Inl _, _) \<Rightarrow> False
    | (Inr srv, w1) \<Rightarrow> (case hs_Handler srv ''/readyz'' host_ctx w1 of None \<Rightarrow> False | Some (r, _) \<Rightarrow> r = (200, [], ''ok''))"
    by (simp add: host_serving)
  then obtain srv w1 v' where s: "startObservabilityServer host_process (pr_metrics host_process) host_start = (Inr srv, w1)"
    and h: "hs_Handler srv ''/readyz'' host_ctx w1 = Some ((200, [], ''ok''), v')"
    by (auto split: prod.splits sum.splits option.splits)
  have "held ho_conns ho_orders (snd (host_ctx v)) = held ho_conns ho_orders v" for v by (simp add: host_ctx_def)
  from readyz_answers [OF probes.redis_clients_axioms host.ord.sql_pool_axioms this host.logging s h] s h
  show ?thesis by blast
qed

text \<open>
  C15: The life of the server. Either it does not come to serving and an error is returned, or it
  serves once, after all its services have been announced as serving (and reflection registered
  outside production) and the HTTP server started. When the context ends, the services are
  taken out of service before the graceful stop, the HTTP server is shut down last, and \<open>run\<close>
  returns nil; the metrics carry the number of calls in flight when the services had been taken
  out of service and the graceful stop, during which those calls end, had not begun. When \<open>Serve\<close> returns, its
  result is returned and nothing else is called.
\<close>

theorem server_lifecycle:
  assumes "server_frame pr calls conns"
    and "run_server pr ctx ing (pr_metrics pr) svc v = Some (err, v')"
  shows "(err \<noteq> None \<and> (\<exists>n. calls v' = calls v @ take n (announcements (pr_os pr)))) \<or>
    (\<exists>lis srv obs x ended y. srv_Serve pr lis srv obs ctx x = Some (ended, y) \<and>
      gs_Driver srv = ing \<and> gs_Order srv = CreateOrder svc \<and>
      calls x = calls v @ announcements (pr_os pr) @ [StartHTTP (hs_Addr obs)] \<and>
      (case ended of
         None \<Rightarrow> err = None \<and> calls v' = calls y @ farewell \<and>
           (\<exists>t. lc_inflight (m_lifecycle (rd (pr_metrics pr) v')) =
             TotalInFlight (snapshot_at t (rd (pr_metrics pr) (not_serving pr y))))
       | Some e \<Rightarrow> err = e \<and> calls v' = calls y))"
  using server_frame.server_effect [OF assms]
proof (elim disjE exE conjE)
  fix lis srv addr obs x ended y
  assume "srv_Serve pr lis srv obs ctx x = Some (ended, y)" "gs_Driver srv = ing" "gs_Order srv = CreateOrder svc"
    "calls x = calls v @ announcements (pr_os pr) @ [StartHTTP addr]" "addr = hs_Addr obs"
    "case ended of None \<Rightarrow> err = None \<and> v' = shutdown_server pr (pr_metrics pr) y | Some e \<Rightarrow> err = e \<and> v' = y"
  then show ?thesis
    using server_frame.shutdown_effect(1,2) [OF assms(1), of y]
    by (intro disjI2 exI [of _ lis] exI [of _ srv] exI [of _ obs] exI [of _ x] exI [of _ ended] exI [of _ y])
      (auto split: option.splits)
qed blast

theorem server_lifecycle_witness:
  "\<exists>v' lis srv obs x y t. host_server host_start = Some (None, v') \<and>
    srv_Serve host_process lis srv obs host_ctx x = Some (None, y) \<and> ho_calls v' = ho_calls y @ farewell \<and>
    TotalInFlight (snapshot_at t (ho_metrics (not_serving host_process y))) = 1 \<and>
    TotalInFlight (snapshot_at t (ho_metrics v')) = 0"
proof -
  have "case host_server host_start of
      Some (None, v') \<Rightarrow> lc_inflight (m_lifecycle (ho_metrics v')) = 1 \<and> (\<forall>t. TotalInFlight (snapshot_at t (ho_metrics v')) = 0)
    | _ \<Rightarrow> False"
    by (simp add: host_server_def run_server_def host_serving host_metrics)
  then obtain v' where h: "host_server host_start = Some (None, v')"
    and f: "lc_inflight (m_lifecycle (ho_metrics v')) = 1" "\<And>t. TotalInFlight (snapshot_at t (ho_metrics v')) = 0"
    by (auto split: option.splits prod.splits)
  have ended: "srv_Serve host_process lis srv obs host_ctx x = Some (ended, y) \<Longrightarrow> ended = None" for lis srv obs x ended y
    by (auto simp: host_process_def bind_pair_Some_iff)
  have m: "rd (pr_metrics host_process) = ho_metrics" by (simp add: host_process_def)
  from server_lifecycle [OF host.frame.server_frame_axioms h [unfolded host_server_def]] f ended h
  show ?thesis unfolding m by (fastforce split: option.splits)
qed

text \<open>
  C14: \<open>run\<close> closes what it opens. On every path (a failing store, order service, listener,
  configuration or endpoint, a failing server, a clean shutdown) the number of open Redis
  clients and pools is what it was, up to what the server changed while it served; it serves
  with exactly three of them open.
\<close>

theorem run_closes_what_it_opens:
  assumes "process_plant pr calls conns ctx ql qo" "run pr ctx v = Some (err, v')"
  shows "(err \<noteq> None \<and> conns v' = conns v) \<or>
    (\<exists>lis srv obs x ended y. srv_Serve pr lis srv obs ctx x = Some (ended, y) \<and>
      conns x = conns v + 3 \<and> conns v' - conns v = conns y - conns x \<and>
      (case ended of None \<Rightarrow> err = None | Some e \<Rightarrow> err = e))"
  using process_plant.run_effect [OF assms] by fastforce

theorem run_closes_what_it_opens_witness:
  "\<exists>v' lis srv obs x ended y. run host_process host_ctx host_start = Some (None, v') \<and>
    srv_Serve host_process lis srv obs host_ctx x = Some (ended, y) \<and> ho_conns x = 3 \<and> ho_conns v' = ho_conns y - 3"
proof -
  have "case run host_process host_ctx host_start of Some (None, _) \<Rightarrow> True | _ \<Rightarrow> False"
    by (simp add: run_def buildLocationStore_def apply_options_def instrument_client_def ping_context_def
        NewPostgresLocationStoreWithSchema_def Location_InitSchema_def create_locations_def host_loads redis_zero_def
        NewMetrics_def BuildOrderService_def NewPostgresPaymentClientWithSchema_def
        NewSagaStoreWithSchema_def NewPostgresDriverClientWithSchema_def Payment_InitSchema_def SagaStore_InitSchema_def
        Driver_InitSchema_def context_WithTimeout_def create_table_def reliable_service_def NewRateLimiter_def
        NewCircuitBreaker_def empty_tables_def run_server_def sample_reliability_def Let_def host_serving)
  then obtain v' where r: "run host_process host_ctx host_start = Some (None, v')"
    by (auto split: option.splits prod.splits)
  have z: "ho_conns host_start = 0" by (simp add: host_start_def)
  from run_closes_what_it_opens [OF host.process_plant_axioms r] r show ?thesis
    unfolding z by fastforce
qed

end
