(* ===== verification/Spec2Isabelle.thy ===== *)
theory Spec2Isabelle
  imports Deploy Server
begin

text \<open>
  Orders-Go: a gRPC server that takes orders and the positions of drivers.

  THE PROGRAM. cmd/server starts one process (main.go). It builds a location store
  (location_store.go: Postgres history and a Redis stream) and an order service
  (internal/orders/builder.go: Postgres clients wrapped by limiter, breaker and retries),
  both from environment variables (cmd/server/config, reliability_config.go). Calls come in
  through interceptors (grpc_middleware.go) that limit and measure them
  (internal/observability) and reach the handlers of internal/adapters/grpc. An order runs the
  saga of internal/orders/order.go over the stores of internal/db/orders; a position goes
  through internal/ingest into internal/db/ingest and Redis.

  THE MODEL. Code is a function on a world \<open>'w\<close>, of type \<open>'w \<Rightarrow> 'r \<times> 'w\<close> when it always
  returns and \<open>'w \<Rightarrow> ('r \<times> 'w) option\<close> when it may panic or not return; the result of a fallible
  function is \<open>go_error option\<close> or a sum. A struct behind a pointer is read and written through
  a \<open>ref\<close>, whose laws are the locale \<open>cell\<close>. Whatever is not in the repository (the SQL driver,
  go-redis, gRPC, the UUID generator, files, the clock) is an argument, and what is relied on
  is stated as the assumptions of a locale, each interpreted on concrete worlds on which the
  witnesses run.

  THE THEORIES, each with the code it models.
    \<^item> GoPrelude, Float64, FloatArith, GoText, GoConf: what the code uses of Go. Errors with
      wrapping and \<open>errors.Is\<close>, 64-bit integers with wrap-around, durations, contexts; IEEE
      doubles as their bits with comparison, addition, division and conversion; RFC 3339 text;
      \<open>strconv\<close> and \<open>time.ParseDuration\<close>. No theorem of the program, but round trips the
      configuration rests on.
    \<^item> Retry, Breaker, Limiter, Reliable: internal/orders/reliability.go. The retry loop against
      a reference that lists its attempts, pauses and their bounds; the breaker as a refinement
      of a three-state machine, and interleaved calls as a step relation with its invariant and
      the runs that let two trials through; the token bucket round by round and with its budget,
      and that waiting ends after at most two rounds and one sleep; how the three compose around
      a client.
    \<^item> SqlDb, OrdersDb, Stores: internal/db/orders. A connection whose every statement may be
      lost or run without an acknowledgement (\<open>fated\<close> says what becomes of the next ones,
      \<open>healthy\<close> that they all work); each SQL statement as a function on tables with its
      constraints; the methods, refining a ledger of payments and a map of keys. A value the
      server refuses to store, such as a NUL byte in a \<open>TEXT\<close>, is a lost statement.
    \<^item> OrderSvc: internal/orders/order.go. The saga as the code composes it, its contract with the
      saga store as a locale, the protocol of calls it follows, one charge per key over any
      sequence of requests, placement, replay and compensation end to end.
    \<^item> Ingest, LocationWiring: internal/ingest, internal/db/ingest and location_store.go. Validation,
      the publishers and stores, the batch sent to Redis; how the store is built and closed, and
      a position through the whole pipe.
    \<^item> GrpcAdapters, Metrics, Middleware: internal/adapters/grpc, internal/observability,
      grpc_middleware.go and the two generated handlers. The answers of both endpoints, the
      counters as the history of calls, and that the interceptors limit every call and add
      exactly one start and one finish to that history around what the limiter and the handler do.
    \<^item> Config: config.go and reliability_config.go. Reading is exact, well typed from whatever
      environment, reports the first bad variable, and never weakens TLS silently.
    \<^item> Builder, Deploy: builder.go and the constructors with schema. Nothing leaks; the wired service
      places an order; and however it is configured, a charge whose acknowledgement is lost is
      kept while its order fails.
    \<^item> Server: main.go. The process with its deferred cleanups, the readiness probe, the order of
      events at start and shutdown, and that the calls in flight are counted before the graceful
      stop lets them end.

  BOUNDS AND RECURSION. The retry loop is a \<open>function\<close> with a measure (the attempts left). The
  loops that may run forever, \<open>Wait\<close> and the receive loop of \<open>UpdateLocation\<close>, are
  \<open>partial_function (option)\<close>: that they return is proved, for every sane rate with a clock
  that moves and for every stream that ends. No fuel is used. \<open>sane_rate\<close> asks that a full
  bucket plus the tokens of the longest measurable time fit 64 bits (any burst up to \<open>2^62\<close> at
  2ns or more).

  CONCURRENCY. A critical section under a mutex is one step. The breaker is also proved about
  under arbitrary interleavings of its two sections; the limiter and the metrics about other
  calls that happen at any point in between; the database about statements of other clients
  only where the context is consulted.

  NOT MODELLED. The message types and client stubs protoc generates in api/proto (serialisation
  is a library); the gRPC, health, reflection and HTTP servers themselves (their calls are
  events, what they serve is a parameter that runs the handlers); the text of log lines other
  than where a function takes it; the text of encoding/json (what it refuses is modelled),
  strconv.Quote, certificates and key pairs; tests, scripts and assets. go-redis and Postgres
  appear as what their clients document, with the faults a connection can have.
\<close>

end
